(* ===== verification/Prelude.thy ===== *)
theory Prelude
  imports Main "HOL-Library.Word" "HOL-Library.AList"
begin

text \<open>
  What every component of the development shares: the machine types of the Go code, the
  errors and panics of its functions, the state and error monad in which its methods are
  written, and the generic lemmas on lists and words that carry the component proofs.
\<close>

section \<open>Machine types\<close>

text \<open>
  Go's \<open>byte\<close>, \<open>uint32\<close> and \<open>uint64\<close> wrap around, as words do. An \<open>int64\<close> is the same
  64 bits read with \<open>sint\<close>.
\<close>

type_synonym byte = "8 word"
type_synonym bytes = "byte list"
type_synonym u32 = "32 word"
type_synonym u64 = "64 word"

section \<open>Errors and panics\<close>

text \<open>
  The errors the modelled code returns: those of the Go standard library it lets through
  (the \<open>io\<close> and \<open>os\<close> errors and the error numbers of the system calls), its own
  \<open>ErrOffsetOutOfRange\<close> of \<open>internal/log/error.go\<close>, the errors of the packages it calls,
  \<open>Wrap\<close>, the \<open>fmt.Errorf("...: %w", err)\<close> chain, and \<open>Joined\<close>, the result of \<open>errors.Join\<close>.
\<close>

datatype goerr =
    EOF
  | ErrUnexpectedEOF
  | ErrShortWrite
  | ErrNotExist
  | ErrClosed
  | ErrNegativeOffset
  | EINVAL
  | ENOMEM
  | EIO
  | ErrOffsetOutOfRange u64
  | ErrCodec string
  | ErrMsg string
  | Wrap string goerr
  | Joined "goerr list"

text \<open>The run-time panics (and the memory fault) that the modelled code can meet.\<close>

datatype gopanic =
    NilDereference
  | IndexOutOfRange
  | SliceBoundsOutOfRange
  | MakeSliceLenOutOfRange
  | MemoryFault
  | DivideByZero
  | CloseOfClosedChannel
  | TypeAssertion
  | PanicMsg string

datatype failure = Error goerr | Panic gopanic

type_synonym 'a res = "failure + 'a"

section \<open>The state and error monad\<close>

text \<open>
  A method that reads and writes a state of type \<open>'s\<close> and returns an \<open>'a\<close> or fails. The
  state is kept when it fails: an early \<open>return err\<close> of the source leaves the effects of
  the statements before it in place.
\<close>

type_synonym ('s, 'a) prog = "'s \<Rightarrow> 'a res \<times> 's"

definition ret :: "'a \<Rightarrow> ('s, 'a) prog" where
  "ret x = (\<lambda>s. (Inr x, s))"

definition fail :: "failure \<Rightarrow> ('s, 'a) prog" where
  "fail e = (\<lambda>s. (Inl e, s))"

definition bnd :: "('s, 'a) prog \<Rightarrow> ('a \<Rightarrow> ('s, 'b) prog) \<Rightarrow> ('s, 'b) prog" where
  "bnd m k = (\<lambda>s. case m s of (Inl e, t) \<Rightarrow> (Inl e, t) | (Inr x, t) \<Rightarrow> k x t)"

definition andthen :: "('s, 'a) prog \<Rightarrow> ('s, 'b) prog \<Rightarrow> ('s, 'b) prog" where
  "andthen m n = bnd m (\<lambda>_. n)"

definition get_st :: "('s, 's) prog" where
  "get_st = (\<lambda>s. (Inr s, s))"

definition upd_st :: "('s \<Rightarrow> 's) \<Rightarrow> ('s, unit) prog" where
  "upd_st f = (\<lambda>s. (Inr (), f s))"

text \<open>\<open>fmt.Errorf(msg + ": %w", err)\<close>: errors are wrapped, panics pass through.\<close>

definition wrapf :: "string \<Rightarrow> ('s, 'a) prog \<Rightarrow> ('s, 'a) prog" where
  "wrapf msg m = (\<lambda>s. case m s of
      (Inl (Error e), t) \<Rightarrow> (Inl (Error (Wrap msg e)), t)
    | (Inl (Panic p), t) \<Rightarrow> (Inl (Panic p), t)
    | (Inr x, t) \<Rightarrow> (Inr x, t))"

text \<open>\<open>x, err := m; if err != nil { h } else { k x }\<close>: an error is handled, a panic is not.\<close>

definition iferr :: "('s, 'a) prog \<Rightarrow> (goerr \<Rightarrow> ('s, 'b) prog) \<Rightarrow> ('a \<Rightarrow> ('s, 'b) prog) \<Rightarrow> ('s, 'b) prog" where
  "iferr m h k = (\<lambda>s. case m s of
      (Inl (Error e), t) \<Rightarrow> h e t
    | (Inl (Panic p), t) \<Rightarrow> (Inl (Panic p), t)
    | (Inr x, t) \<Rightarrow> k x t)"

named_theorems prog_simps \<open>evaluation of the monad's operators on a given state\<close>

lemma ret_run [prog_simps]: "ret x s = (Inr x, s)"
  by (simp add: ret_def)

lemma fail_run [prog_simps]: "fail e s = (Inl e, s)"
  by (simp add: fail_def)

lemma get_st_run [prog_simps]: "get_st s = (Inr s, s)"
  by (simp add: get_st_def)

lemma upd_st_run [prog_simps]: "upd_st f s = (Inr (), f s)"
  by (simp add: upd_st_def)

lemma bnd_run [prog_simps]:
  "bnd m k s = (case m s of (Inl e, t) \<Rightarrow> (Inl e, t) | (Inr x, t) \<Rightarrow> k x t)"
  by (simp add: bnd_def)

lemma andthen_run [prog_simps]:
  "andthen m n s = (case m s of (Inl e, t) \<Rightarrow> (Inl e, t) | (Inr x, t) \<Rightarrow> n t)"
  by (simp add: andthen_def bnd_def)

lemma wrapf_run [prog_simps]:
  "wrapf msg m s = (case m s of
      (Inl (Error e), t) \<Rightarrow> (Inl (Error (Wrap msg e)), t)
    | (Inl (Panic p), t) \<Rightarrow> (Inl (Panic p), t)
    | (Inr x, t) \<Rightarrow> (Inr x, t))"
  by (simp add: wrapf_def)

lemma iferr_run [prog_simps]:
  "iferr m h k s = (case m s of
      (Inl (Error e), t) \<Rightarrow> h e t
    | (Inl (Panic p), t) \<Rightarrow> (Inl (Panic p), t)
    | (Inr x, t) \<Rightarrow> k x t)"
  by (simp add: iferr_def)

text \<open>Inversion: what a program that returned did on the way.\<close>

lemma bnd_InrE:
  assumes "bnd m k s = (Inr y, u)"
  obtains x t where "m s = (Inr x, t)" "k x t = (Inr y, u)"
  using assms by (auto simp: bnd_def split: prod.splits sum.splits)

lemma andthen_InrE:
  assumes "andthen m n s = (Inr y, u)"
  obtains x t where "m s = (Inr x, t)" "n t = (Inr y, u)"
  using assms by (auto simp: andthen_def elim: bnd_InrE)

text \<open>
  \<open>prog_map\<close> runs a method on each element of a list and stops at the first failure;
  \<open>prog_iter\<close> is the same for methods that return nothing but an error.
\<close>

primrec prog_map :: "('a \<Rightarrow> ('s, 'b) prog) \<Rightarrow> 'a list \<Rightarrow> ('s, 'b list) prog" where
  "prog_map f [] = ret []"
| "prog_map f (x # xs) = bnd (f x) (\<lambda>y. bnd (prog_map f xs) (\<lambda>ys. ret (y # ys)))"

primrec prog_iter :: "('a \<Rightarrow> ('s, unit) prog) \<Rightarrow> 'a list \<Rightarrow> ('s, unit) prog" where
  "prog_iter f [] = ret ()"
| "prog_iter f (x # xs) = andthen (f x) (prog_iter f xs)"

lemma prog_iter_append:
  "prog_iter f (xs @ ys) s = (case prog_iter f xs s of
      (Inl e, t) \<Rightarrow> (Inl e, t) | (Inr u, t) \<Rightarrow> prog_iter f ys t)"
  by (induction xs arbitrary: s) (auto simp: prog_simps split: prod.splits sum.splits)

section \<open>Invariants of methods\<close>

text \<open>\<open>keeps I m\<close>: the method \<open>m\<close> leaves the invariant \<open>I\<close> intact whether it succeeds or fails.\<close>

definition keeps :: "('s \<Rightarrow> bool) \<Rightarrow> ('s, 'a) prog \<Rightarrow> bool" where
  "keeps I m \<longleftrightarrow> (\<forall>s. I s \<longrightarrow> I (snd (m s)))"

named_theorems keeps_intros \<open>rules that show that a composed method keeps an invariant\<close>

lemma keepsI: "(\<And>s r t. I s \<Longrightarrow> m s = (r, t) \<Longrightarrow> I t) \<Longrightarrow> keeps I m"
  by (auto simp: keeps_def) (metis prod.collapse)

lemma keepsD: "keeps I m \<Longrightarrow> m s = (r, t) \<Longrightarrow> I s \<Longrightarrow> I t"
  by (metis keeps_def snd_conv)

lemma keeps_snd: "keeps I m \<Longrightarrow> I s \<Longrightarrow> I (snd (m s))"
  by (simp add: keeps_def)

lemma keeps_ret [keeps_intros]: "keeps I (ret x)"
  by (simp add: keeps_def ret_def)

lemma keeps_fail [keeps_intros]: "keeps I (fail e)"
  by (simp add: keeps_def fail_def)

lemma keeps_get_st [keeps_intros]: "keeps I get_st"
  by (simp add: keeps_def get_st_def)

lemma keeps_upd_st: "(\<And>s. I s \<Longrightarrow> I (f s)) \<Longrightarrow> keeps I (upd_st f)"
  by (simp add: keeps_def upd_st_def)

lemma keeps_bnd [keeps_intros]: "keeps I m \<Longrightarrow> (\<And>x. keeps I (k x)) \<Longrightarrow> keeps I (bnd m k)"
  by (fastforce simp: keeps_def bnd_def split: prod.splits sum.splits)

lemma keeps_bnd_result:
  "keeps I m \<Longrightarrow> (\<And>x s t. m s = (Inr x, t) \<Longrightarrow> keeps I (k x)) \<Longrightarrow> keeps I (bnd m k)"
  by (fastforce simp: keeps_def bnd_def split: prod.splits sum.splits)

lemma keeps_lookup [keeps_intros]:
  "(\<And>x. keeps I (m x)) \<Longrightarrow> keeps I (\<lambda>s. case g s of None \<Rightarrow> (Inl e, s) | Some x \<Rightarrow> m x s)"
  by (simp add: keeps_def split: option.split)

lemma keeps_andthen [keeps_intros]: "keeps I m \<Longrightarrow> keeps I n \<Longrightarrow> keeps I (andthen m n)"
  by (simp add: andthen_def keeps_bnd)

lemma keeps_wrapf [keeps_intros]: "keeps I m \<Longrightarrow> keeps I (wrapf msg m)"
  by (fastforce simp: keeps_def wrapf_def split: prod.splits sum.splits failure.splits)

lemma keeps_iferr [keeps_intros]:
  "keeps I m \<Longrightarrow> (\<And>e. keeps I (h e)) \<Longrightarrow> (\<And>x. keeps I (k x)) \<Longrightarrow> keeps I (iferr m h k)"
  by (fastforce simp: keeps_def iferr_def split: prod.splits sum.splits failure.splits)

lemma keeps_prog_iter [keeps_intros]: "(\<And>x. x \<in> set xs \<Longrightarrow> keeps I (f x)) \<Longrightarrow> keeps I (prog_iter f xs)"
  by (induction xs) (auto intro!: keeps_intros)

lemma keeps_if [keeps_intros]: "(c \<Longrightarrow> keeps I m) \<Longrightarrow> (\<not> c \<Longrightarrow> keeps I n) \<Longrightarrow> keeps I (if c then m else n)"
  by simp

lemma keeps_case_prod [keeps_intros]: "(\<And>x y. keeps I (k x y)) \<Longrightarrow> keeps I (case p of (x, y) \<Rightarrow> k x y)"
  by (cases p) simp

lemma keeps_case_option [keeps_intros]:
  "keeps I m \<Longrightarrow> (\<And>x. keeps I (k x)) \<Longrightarrow> keeps I (case p of None \<Rightarrow> m | Some x \<Rightarrow> k x)"
  by (cases p) simp_all

lemma keeps_case_sum [keeps_intros]:
  "(\<And>x. keeps I (h x)) \<Longrightarrow> (\<And>x. keeps I (k x)) \<Longrightarrow> keeps I (case p of Inl x \<Rightarrow> h x | Inr x \<Rightarrow> k x)"
  by (cases p) simp_all

lemma keeps_Let [keeps_intros]: "(\<And>x. keeps I (k x)) \<Longrightarrow> keeps I (let x = v in k x)"
  by (simp add: Let_def)

section \<open>Words\<close>

text \<open>
  The facts that move 64-bit arithmetic to the natural numbers where it does not wrap.
\<close>

named_theorems no_wrap \<open>64-bit arithmetic that does not wrap, on natural numbers\<close>

lemma unat_add_u64 [no_wrap]:
  "unat (a :: u64) + unat b < 2 ^ 64 \<Longrightarrow> unat (a + b) = unat a + unat b"
  by (simp add: unat_word_ariths)

lemma unat_sub_u64 [no_wrap]:
  "b \<le> (a :: u64) \<Longrightarrow> unat (a - b) = unat a - unat b"
  by (rule unat_sub)

lemma unat_mult_u64 [no_wrap]:
  "unat (a :: u64) * unat b < 2 ^ 64 \<Longrightarrow> unat (a * b) = unat a * unat b"
  by (simp add: unat_word_ariths)

lemma unat_of_nat_u64 [no_wrap]: "n < 2 ^ 64 \<Longrightarrow> unat (of_nat n :: u64) = n"
  by (simp add: unat_of_nat take_bit_nat_eq_self)

lemma unat_of_nat_u32 [no_wrap]: "n < 2 ^ 32 \<Longrightarrow> unat (of_nat n :: u32) = n"
  by (simp add: unat_of_nat take_bit_nat_eq_self)

lemma sint_u64_nonneg:
  assumes "unat (a :: u64) < 2 ^ 63"
  shows "sint a = int (unat a)"
proof -
  have "unat a < 9223372036854775808"
    using assms by simp
  then have l: "int (unat a) < 9223372036854775808"
    by linarith
  have p: "(2 :: int) ^ 63 = 9223372036854775808"
    by simp
  have "sint a = signed_take_bit 63 (uint a)"
    by (subst sint_uint) simp
  also have "\<dots> = signed_take_bit 63 (int (unat a))"
    by (simp only: uint_nat)
  also have "\<dots> = int (unat a)"
    by (rule signed_take_bit_int_eq_self) (unfold p, use l in linarith, use l in linarith)
  finally show ?thesis .
qed

lemma u64_not_max: "x \<noteq> - 1 \<Longrightarrow> unat (x :: u64) + 1 < 2 ^ 64"
proof -
  assume "x \<noteq> - 1"
  moreover have "unat (- 1 :: u64) = 2 ^ 64 - 1"
    by (simp add: unsigned_minus_1_eq_mask mask_eq_exp_minus_1)
  ultimately have "unat x \<noteq> 2 ^ 64 - 1"
    by (metis word_unat_eq_iff)
  then show ?thesis
    using unsigned_less [where w = x and ?'a = nat] by simp
qed

lemma unat_u64_less: "unat (a :: u64) < 2 ^ 64"
  using unsigned_less [where w = a and ?'a = nat] by simp

section \<open>Lists\<close>

lemma take_append_exact [simp]: "n = length xs \<Longrightarrow> take n (xs @ ys) = xs"
  by simp

lemma drop_append_exact [simp]: "n = length xs \<Longrightarrow> drop n (xs @ ys) = ys"
  by simp

lemma take_drop_take: "k + n \<le> m \<Longrightarrow> take n (drop k (take m xs)) = take n (drop k xs)"
  by (simp add: drop_take)

lemma take_drop_length: "take n xs @ drop (length (take n xs)) xs = xs"
  by (cases "n \<le> length xs") simp_all

end
