(* ===== verification/Encoding.thy ===== *)
theory Encoding
  imports Prelude
begin

text \<open>
  The big-endian encoding of integers, \<open>encoding/binary.BigEndian\<close>, which \<open>internal/log\<close>
  names \<open>Encoding\<close> and \<open>internal/raftpebble/util.go\<close> calls through \<open>uint64ToBytes\<close> and
  \<open>bytesToUint64\<close>. The lemmas show that a value survives the round trip.
\<close>

unbundle bit_operations_syntax

section \<open>The encoders and decoders\<close>

definition put_uint32 :: "u32 \<Rightarrow> bytes" where
  "put_uint32 v = [ucast (drop_bit 24 v), ucast (drop_bit 16 v), ucast (drop_bit 8 v), ucast v]"

definition get_uint32 :: "bytes \<Rightarrow> u32" where
  "get_uint32 b =
     ((ucast (b ! 3) OR push_bit 8 (ucast (b ! 2))) OR push_bit 16 (ucast (b ! 1)))
       OR push_bit 24 (ucast (b ! 0))"

definition put_uint64 :: "u64 \<Rightarrow> bytes" where
  "put_uint64 v =
     [ucast (drop_bit 56 v), ucast (drop_bit 48 v), ucast (drop_bit 40 v), ucast (drop_bit 32 v),
      ucast (drop_bit 24 v), ucast (drop_bit 16 v), ucast (drop_bit 8 v), ucast v]"

definition get_uint64 :: "bytes \<Rightarrow> u64" where
  "get_uint64 b =
     ((((((ucast (b ! 7) OR push_bit 8 (ucast (b ! 6))) OR push_bit 16 (ucast (b ! 5)))
       OR push_bit 24 (ucast (b ! 4))) OR push_bit 32 (ucast (b ! 3)))
       OR push_bit 40 (ucast (b ! 2))) OR push_bit 48 (ucast (b ! 1)))
       OR push_bit 56 (ucast (b ! 0))"

lemma length_put_uint32 [simp]: "length (put_uint32 v) = 4"
  by (simp add: put_uint32_def)

lemma length_put_uint64 [simp]: "length (put_uint64 v) = 8"
  by (simp add: put_uint64_def)

lemma put_uint32_nonempty [simp]: "put_uint32 v \<noteq> []"
  by (simp add: put_uint32_def)

lemma put_uint64_nonempty [simp]: "put_uint64 v \<noteq> []"
  by (simp add: put_uint64_def)

section \<open>Round trips\<close>

lemma ucast_byte_ucast: "(ucast (ucast (x :: 'a::len word) :: byte) :: 'a word) = take_bit 8 x"
  by (rule bit_word_eqI) (auto simp: bit_simps)

lemma glue_byte: "take_bit k v OR push_bit k (take_bit 8 (drop_bit k v)) = take_bit (k + 8) (v :: 'a::len word)"
  by (rule bit_word_eqI) (auto simp: bit_simps)

lemmas glue_bytes =
  glue_byte [where k = 8, simplified] glue_byte [where k = 16, simplified]
  glue_byte [where k = 24, simplified] glue_byte [where k = 32, simplified]
  glue_byte [where k = 40, simplified] glue_byte [where k = 48, simplified]
  glue_byte [where k = 56, simplified]

lemma get_put_uint32 [simp]: "get_uint32 (put_uint32 v) = v"
proof -
  have "get_uint32 (put_uint32 v) = take_bit 32 v"
    by (simp add: get_uint32_def put_uint32_def ucast_byte_ucast glue_bytes)
  also have "\<dots> = v"
    by (rule bit_word_eqI) (simp add: bit_simps)
  finally show ?thesis .
qed

lemma get_put_uint64 [simp]: "get_uint64 (put_uint64 v) = v"
proof -
  have "get_uint64 (put_uint64 v) = take_bit 64 v"
    by (simp add: get_uint64_def put_uint64_def ucast_byte_ucast glue_bytes)
  also have "\<dots> = v"
    by (rule bit_word_eqI) (simp add: bit_simps)
  finally show ?thesis .
qed

lemma put_uint64_inject [simp]: "put_uint64 a = put_uint64 b \<longleftrightarrow> a = b"
  using get_put_uint64 by metis

lemma put_uint32_inject [simp]: "put_uint32 a = put_uint32 b \<longleftrightarrow> a = b"
  using get_put_uint32 by metis

end
