(* ===== verification/Files.thy ===== *)
theory Files
  imports Prelude "HOL-Library.List_Lexorder" "HOL-Library.Char_ord"
begin

text \<open>
  What the program uses of the operating system and of Go's \<open>os\<close> and \<open>bufio\<close> packages:
  directories of named files, open files, reads and appends at the file level, truncation,
  removal, and a buffered writer. Every system call may fail: the state holds a list of
  faults that the coming calls take one by one, so that each error branch of the program is
  reachable, and an empty list is a disk that works.
\<close>

section \<open>Directories and files\<close>

record os =
  os_dirs :: "string \<Rightarrow> (string \<times> bytes) list option"
  os_faults :: "nat option list"

text \<open>An \<open>*os.File\<close>: the directory, the name in it, and whether it is still open.\<close>

record os_file =
  f_dir :: string
  f_name :: string
  f_open :: bool

definition fget :: "os \<Rightarrow> string \<Rightarrow> string \<Rightarrow> bytes option" where
  "fget w d n = (case os_dirs w d of None \<Rightarrow> None | Some fs \<Rightarrow> map_of fs n)"

definition fput :: "string \<Rightarrow> string \<Rightarrow> bytes \<Rightarrow> os \<Rightarrow> os" where
  "fput d n c w = w\<lparr>os_dirs := (os_dirs w)(d := map_option (AList.update n c) (os_dirs w d))\<rparr>"

definition fdel :: "string \<Rightarrow> string \<Rightarrow> os \<Rightarrow> os" where
  "fdel d n w = w\<lparr>os_dirs := (os_dirs w)(d := map_option (AList.delete n) (os_dirs w d))\<rparr>"

abbreviation fcontent :: "os_file \<Rightarrow> os \<Rightarrow> bytes option" where
  "fcontent f w \<equiv> fget w (f_dir f) (f_name f)"

abbreviation fwrite_all :: "os_file \<Rightarrow> bytes \<Rightarrow> os \<Rightarrow> os" where
  "fwrite_all f c w \<equiv> fput (f_dir f) (f_name f) c w"

abbreviation healthy :: "os \<Rightarrow> bool" where
  "healthy w \<equiv> os_faults w = []"

text \<open>The bytes of a file, none for an absent one: what \<open>os.OpenFile\<close> finds or creates.\<close>

definition fbytes :: "os \<Rightarrow> string \<Rightarrow> string \<Rightarrow> bytes" where
  "fbytes w d n = (case fget w d n of None \<Rightarrow> [] | Some c \<Rightarrow> c)"

text \<open>The laws of the directory operations.\<close>

lemma fget_fput: "os_dirs w d \<noteq> None \<Longrightarrow>
    fget (fput d n c w) d' n' = (if d' = d \<and> n' = n then Some c else fget w d' n')"
  by (auto simp: fget_def fput_def update_conv' split: option.splits)

lemma fget_fput_same [simp]: "fget w d n = Some c0 \<Longrightarrow> fget (fput d n c w) d n = Some c"
  by (auto simp: fget_def fput_def update_conv' split: option.splits)

lemma fget_fput_other [simp]:
  "(d', n') \<noteq> (d, n) \<Longrightarrow> fget (fput d n c w) d' n' = fget w d' n'"
  by (auto simp: fget_def fput_def update_conv' split: option.splits)

lemma fget_fdel: "fget (fdel d n w) d' n' = (if d' = d \<and> n' = n then None else fget w d' n')"
  by (auto simp: fget_def fdel_def delete_conv' split: option.splits)

lemma os_faults_fput [simp]: "os_faults (fput d n c w) = os_faults w"
  by (simp add: fput_def)

lemma os_faults_fdel [simp]: "os_faults (fdel d n w) = os_faults w"
  by (simp add: fdel_def)

lemma os_dirs_fput_None [simp]: "os_dirs (fput d n c w) d' = None \<longleftrightarrow> os_dirs w d' = None"
  by (auto simp: fput_def)

lemma os_dirs_fdel_None [simp]: "os_dirs (fdel d n w) d' = None \<longleftrightarrow> os_dirs w d' = None"
  by (auto simp: fdel_def)

lemma fget_dir: "fget w d n = Some c \<Longrightarrow> \<exists>fs. os_dirs w d = Some fs"
  by (auto simp: fget_def split: option.splits)

lemma fput_fput [simp]: "fput d n c' (fput d n c w) = fput d n c' w"
  by (cases "os_dirs w d") (auto simp: fput_def)

lemma alist_update_same: "map_of al k = Some v \<Longrightarrow> AList.update k v al = al"
  by (induction al) (auto split: if_splits)

lemma fput_same: "fget w d n = Some c \<Longrightarrow> fput d n c w = w"
  by (cases "os_dirs w d") (auto simp: fput_def fget_def alist_update_same fun_upd_idem)

lemma fbytes_Some [simp]: "fget w d n = Some c \<Longrightarrow> fbytes w d n = c"
  by (simp add: fbytes_def)

lemma fbytes_None [simp]: "fget w d n = None \<Longrightarrow> fbytes w d n = []"
  by (simp add: fbytes_def)

lemma fbytes_fput_other [simp]: "(d', n') \<noteq> (d, n) \<Longrightarrow> fbytes (fput d n c w) d' n' = fbytes w d' n'"
  by (simp add: fbytes_def)

section \<open>System calls\<close>

definition next_fault :: "os \<Rightarrow> nat option \<times> os" where
  "next_fault w = (case os_faults w of [] \<Rightarrow> (None, w) | x # xs \<Rightarrow> (x, w\<lparr>os_faults := xs\<rparr>))"

definition sys :: "(os, unit) prog" where
  "sys = (\<lambda>w. case next_fault w of
      (None, w') \<Rightarrow> (Inr (), w')
    | (Some k, w') \<Rightarrow> (Inl (Error EIO), w'))"

lemma next_fault_healthy [simp]: "healthy w \<Longrightarrow> next_fault w = (None, w)"
  by (simp add: next_fault_def)

lemma sys_healthy [simp]: "healthy w \<Longrightarrow> sys w = (Inr (), w)"
  by (simp add: sys_def)

text \<open>\<open>os.OpenFile\<close> with \<open>O_CREATE|O_RDWR\<close>: an absent file is created empty.\<close>

definition open_file :: "string \<Rightarrow> string \<Rightarrow> (os, os_file) prog" where
  "open_file d n = andthen sys (\<lambda>w. case os_dirs w d of
      None \<Rightarrow> (Inl (Error ErrNotExist), w)
    | Some fs \<Rightarrow> (Inr \<lparr>f_dir = d, f_name = n, f_open = True\<rparr>,
                  (if fget w d n = None then fput d n [] w else w)))"

definition file_op :: "os_file \<Rightarrow> (bytes \<Rightarrow> (os, 'a) prog) \<Rightarrow> (os, 'a) prog" where
  "file_op f k = (if \<not> f_open f then fail (Error ErrClosed)
     else andthen sys (\<lambda>w. case fcontent f w of
         None \<Rightarrow> (Inl (Error ErrNotExist), w)
       | Some c \<Rightarrow> k c w))"

text \<open>\<open>File.Stat\<close>, of which the program reads the size only.\<close>

definition file_size :: "os_file \<Rightarrow> (os, u64) prog" where
  "file_size f = file_op f (\<lambda>c. ret (of_nat (length c)))"

text \<open>\<open>File.Truncate\<close>: cuts the file or pads it with zero bytes.\<close>

definition resize :: "nat \<Rightarrow> bytes \<Rightarrow> bytes" where
  "resize n c = take n c @ replicate (n - length c) 0"

definition file_truncate :: "os_file \<Rightarrow> int \<Rightarrow> (os, unit) prog" where
  "file_truncate f n = file_op f (\<lambda>c.
     if n < 0 then fail (Error EINVAL) else upd_st (fwrite_all f (resize (nat n) c)))"

definition file_sync :: "os_file \<Rightarrow> (os, unit) prog" where
  "file_sync f = file_op f (\<lambda>c. ret ())"

text \<open>\<open>syscall.Mmap\<close> of the first \<open>n\<close> bytes, shared: only whether the call succeeds.\<close>

definition file_mmap :: "os_file \<Rightarrow> int \<Rightarrow> (os, unit) prog" where
  "file_mmap f n = file_op f (\<lambda>c. if n \<le> 0 then fail (Error EINVAL) else ret ())"

text \<open>\<open>File.Close\<close>: the descriptor is gone even when the call reports an error.\<close>

definition file_close :: "(os_file \<times> os, unit) prog" where
  "file_close = (\<lambda>(f, w). if \<not> f_open f then (Inl (Error ErrClosed), (f, w))
     else (case sys w of (r, w') \<Rightarrow> (r, (f\<lparr>f_open := False\<rparr>, w'))))"

text \<open>
  \<open>File.ReadAt\<close>: the bytes read and the error. A short read ends with \<open>EOF\<close>, a read of
  nothing succeeds anywhere.
\<close>

definition file_pread :: "os_file \<Rightarrow> nat \<Rightarrow> int \<Rightarrow> os \<Rightarrow> (bytes \<times> goerr option) \<times> os" where
  "file_pread f n off w =
     (if off < 0 then (([], Some ErrNegativeOffset), w)
      else if n = 0 then (([], None), w)
      else if \<not> f_open f then (([], Some ErrClosed), w)
      else (case next_fault w of (x, w') \<Rightarrow> case fcontent f w' of
          None \<Rightarrow> (([], Some ErrNotExist), w')
        | Some c \<Rightarrow> (let b = take n (drop (nat off) c) in case x of
            Some k \<Rightarrow> ((take k b, Some EIO), w')
          | None \<Rightarrow> ((b, if length b < n then Some EOF else None), w'))))"

definition file_read_at :: "os_file \<Rightarrow> nat \<Rightarrow> int \<Rightarrow> (os, bytes) prog" where
  "file_read_at f n off = (\<lambda>w. case file_pread f n off w of
      ((b, None), w') \<Rightarrow> (Inr b, w')
    | ((b, Some e), w') \<Rightarrow> (Inl (Error e), w'))"

text \<open>\<open>File.Write\<close> on a file opened with \<open>O_APPEND\<close>: the number of bytes written and the error.\<close>

definition file_write :: "os_file \<Rightarrow> bytes \<Rightarrow> os \<Rightarrow> (nat \<times> goerr option) \<times> os" where
  "file_write f p w =
     (if \<not> f_open f then ((0, Some ErrClosed), w)
      else (case next_fault w of (x, w') \<Rightarrow> case fcontent f w' of
          None \<Rightarrow> ((0, Some ErrNotExist), w')
        | Some c \<Rightarrow> (case x of
            Some k \<Rightarrow> ((min k (length p), Some EIO), fwrite_all f (c @ take k p) w')
          | None \<Rightarrow> ((length p, None), fwrite_all f (c @ p) w'))))"

definition remove_file :: "string \<Rightarrow> string \<Rightarrow> (os, unit) prog" where
  "remove_file d n = andthen sys (\<lambda>w. case fget w d n of
      None \<Rightarrow> (Inl (Error ErrNotExist), w)
    | Some _ \<Rightarrow> (Inr (), fdel d n w))"

text \<open>\<open>os.RemoveAll\<close> removes the directory itself and does not mind when it is absent.\<close>

definition remove_all :: "string \<Rightarrow> (os, unit) prog" where
  "remove_all d = andthen sys (upd_st (\<lambda>w. w\<lparr>os_dirs := (os_dirs w)(d := None)\<rparr>))"

text \<open>\<open>os.ReadDir\<close>: the names of the directory's entries, sorted.\<close>

definition read_dir :: "string \<Rightarrow> (os, string list) prog" where
  "read_dir d = andthen sys (\<lambda>w. case os_dirs w d of
      None \<Rightarrow> (Inl (Error ErrNotExist), w)
    | Some fs \<Rightarrow> (Inr (sort (map fst fs)), w))"

definition mkdir_all :: "string \<Rightarrow> (os, unit) prog" where
  "mkdir_all d = andthen sys (upd_st (\<lambda>w. case os_dirs w d of
      None \<Rightarrow> w\<lparr>os_dirs := (os_dirs w)(d \<mapsto> [])\<rparr>
    | Some _ \<Rightarrow> w))"

text \<open>Running a system call inside a method whose state is an object and the disk.\<close>

definition on_os :: "(os, 'a) prog \<Rightarrow> ('c \<times> os, 'a) prog" where
  "on_os m = (\<lambda>(s, w). case m w of (r, w') \<Rightarrow> (r, (s, w')))"

lemma on_os_run [prog_simps]: "on_os m (s, w) = (case m w of (r, w') \<Rightarrow> (r, (s, w')))"
  by (simp add: on_os_def)

section \<open>The buffered writer\<close>

text \<open>
  A \<open>bufio.Writer\<close> of the default size. The loop of its \<open>Write\<close> runs at most twice before
  the rest fits the buffer: a buffer that is not empty is filled and flushed, and what then
  still does not fit goes to the file directly; the two rounds are written out. An error is
  sticky, as the package documents. The writer is the only one that writes to its file, so it
  also carries the offset of the open file: a write in \<open>O_APPEND\<close> mode leaves it at the end.
\<close>

record bufw =
  bw_buf :: bytes
  bw_err :: "goerr option"
  bw_off :: nat

definition buf_size :: nat where
  "buf_size = 4096"

definition new_writer :: bufw where
  "new_writer = \<lparr>bw_buf = [], bw_err = None, bw_off = 0\<rparr>"

abbreviation file_end :: "os_file \<Rightarrow> os \<Rightarrow> nat" where
  "file_end f w \<equiv> length (fbytes w (f_dir f) (f_name f))"

definition available :: "bufw \<Rightarrow> nat" where
  "available b = buf_size - length (bw_buf b)"

definition bufio_flush :: "os_file \<Rightarrow> (bufw \<times> os, unit) prog" where
  "bufio_flush f = (\<lambda>(b, w). case bw_err b of
      Some e \<Rightarrow> (Inl (Error e), (b, w))
    | None \<Rightarrow>
        if bw_buf b = [] then (Inr (), (b, w))
        else (case file_write f (bw_buf b) w of
            ((n, Some e), w') \<Rightarrow> (Inl (Error e), (b\<lparr>bw_buf := drop n (bw_buf b), bw_err := Some e, bw_off := file_end f w'\<rparr>, w'))
          | ((n, None), w') \<Rightarrow> (Inr (), (b\<lparr>bw_buf := [], bw_off := file_end f w'\<rparr>, w'))))"

definition bufio_fill :: "os_file \<Rightarrow> bytes \<Rightarrow> bufw \<times> os \<Rightarrow> bytes \<times> (bufw \<times> os)" where
  "bufio_fill f p = (\<lambda>(b, w).
     if length p > available b \<and> bw_err b = None \<and> bw_buf b \<noteq> [] then
       (drop (available b) p,
        snd (bufio_flush f (b\<lparr>bw_buf := bw_buf b @ take (available b) p\<rparr>, w)))
     else (p, (b, w)))"

definition bufio_direct :: "os_file \<Rightarrow> bytes \<Rightarrow> bufw \<times> os \<Rightarrow> bytes \<times> (bufw \<times> os)" where
  "bufio_direct f p = (\<lambda>(b, w).
     if length p > available b \<and> bw_err b = None then
       (case file_write f p w of ((n, e), w') \<Rightarrow> (drop n p, (b\<lparr>bw_err := e, bw_off := file_end f w'\<rparr>, w')))
     else (p, (b, w)))"

definition bufio_write :: "os_file \<Rightarrow> bytes \<Rightarrow> (bufw \<times> os, nat) prog" where
  "bufio_write f p = (\<lambda>s. case bufio_fill f p s of (p1, s1) \<Rightarrow>
     case bufio_direct f p1 s1 of (p2, (b, w)) \<Rightarrow>
       (case bw_err b of
          Some e \<Rightarrow> (Inl (Error e), (b, w))
        | None \<Rightarrow> (Inr (length p), (b\<lparr>bw_buf := bw_buf b @ p2\<rparr>, w))))"

section \<open>Laws on a working disk\<close>

text \<open>
  \<open>writes_to f b w data\<close>: the writer \<open>b\<close> over the open file \<open>f\<close> has taken the bytes \<open>data\<close> so
  far, part of them in the file and the rest in its buffer.
\<close>

definition writes_to :: "os_file \<Rightarrow> bufw \<Rightarrow> os \<Rightarrow> bytes \<Rightarrow> bool" where
  "writes_to f b w data \<longleftrightarrow> f_open f \<and> healthy w \<and> bw_err b = None \<and>
     length (bw_buf b) \<le> buf_size \<and>
     (\<exists>c. fcontent f w = Some c \<and> data = c @ bw_buf b)"

lemma writes_toE:
  assumes "writes_to f b w data"
  obtains c where "f_open f" "healthy w" "bw_err b = None" "length (bw_buf b) \<le> buf_size"
    "fcontent f w = Some c" "data = c @ bw_buf b"
  using assms by (auto simp: writes_to_def)

lemma file_write_healthy:
  "f_open f \<Longrightarrow> healthy w \<Longrightarrow> fcontent f w = Some c \<Longrightarrow>
     file_write f p w = ((length p, None), fwrite_all f (c @ p) w)"
  by (simp add: file_write_def)

text \<open>The writer after its buffer has gone to the file, which then holds \<open>data\<close>.\<close>

definition flushed :: "bytes \<Rightarrow> bufw \<Rightarrow> bufw" where
  "flushed data b = (if bw_buf b = [] then b else b\<lparr>bw_buf := [], bw_off := length data\<rparr>)"

lemma flushed_simps [simp]: "bw_buf (flushed data b) = []" "bw_err (flushed data b) = bw_err b"
  by (simp_all add: flushed_def)

lemma bufio_flush_healthy:
  assumes "writes_to f b w data"
  shows "bufio_flush f (b, w) = (Inr (), (flushed data b, fwrite_all f data w))"
    and "writes_to f (flushed data b) (fwrite_all f data w) data"
  using assms
  by (auto elim!: writes_toE simp: bufio_flush_def file_write_healthy fput_same writes_to_def flushed_def)

lemma bufio_write_healthy:
  assumes w: "writes_to f b w data"
  obtains b' c' where
    "bufio_write f p (b, w) = (Inr (length p), (b', fwrite_all f c' w))"
    "writes_to f b' (fwrite_all f c' w) (data @ p)"
proof -
  obtain c where f: "f_open f" "healthy w" "bw_err b = None" "length (bw_buf b) \<le> buf_size"
      "fcontent f w = Some c" and data: "data = c @ bw_buf b"
    using w by (rule writes_toE)
  note defs = bufio_write_def bufio_fill_def bufio_direct_def bufio_flush_def available_def
    file_write_healthy writes_to_def
  consider (fits) "length p \<le> available b"
    | (direct) "length p > available b" "bw_buf b = []"
    | (fill) "length p > available b" "bw_buf b \<noteq> []" "length p - available b \<le> buf_size"
    | (both) "length p > available b" "bw_buf b \<noteq> []" "length p - available b > buf_size"
    by linarith
  then show ?thesis
  proof cases
    case fits
    show ?thesis
      by (rule that [of "b\<lparr>bw_buf := bw_buf b @ p\<rparr>" c])
        (use fits f data in \<open>auto simp: defs fput_same\<close>)
  next
    case direct
    show ?thesis
      by (rule that [of "b\<lparr>bw_off := length (c @ p)\<rparr>" "c @ p"])
        (use direct f data in \<open>auto simp: defs fput_same\<close>)
  next
    case fill
    let ?k = "available b"
    show ?thesis
      by (rule that [of "b\<lparr>bw_buf := drop ?k p, bw_off := length (c @ bw_buf b @ take ?k p)\<rparr>" "c @ bw_buf b @ take ?k p"])
        (use fill f data in \<open>auto simp: defs\<close>)
  next
    case both
    show ?thesis
      by (rule that [of "b\<lparr>bw_buf := [], bw_off := length (c @ bw_buf b @ p)\<rparr>" "c @ bw_buf b @ p"])
        (use both f data in \<open>auto simp: defs\<close>)
  qed
qed

lemma file_op_healthy:
  "f_open f \<Longrightarrow> healthy w \<Longrightarrow> fcontent f w = Some c \<Longrightarrow> file_op f k w = k c w"
  by (simp add: file_op_def prog_simps)

lemma file_size_healthy:
  "f_open f \<Longrightarrow> healthy w \<Longrightarrow> fcontent f w = Some c \<Longrightarrow>
     file_size f w = (Inr (of_nat (length c)), w)"
  by (simp add: file_size_def file_op_healthy prog_simps)

lemma file_truncate_healthy:
  "f_open f \<Longrightarrow> healthy w \<Longrightarrow> fcontent f w = Some c \<Longrightarrow> 0 \<le> n \<Longrightarrow>
     file_truncate f n w = (Inr (), fwrite_all f (resize (nat n) c) w)"
  by (simp add: file_truncate_def file_op_healthy prog_simps)

lemma file_sync_healthy:
  "f_open f \<Longrightarrow> healthy w \<Longrightarrow> fcontent f w = Some c \<Longrightarrow> file_sync f w = (Inr (), w)"
  by (simp add: file_sync_def file_op_healthy prog_simps)

lemma file_mmap_healthy:
  "f_open f \<Longrightarrow> healthy w \<Longrightarrow> fcontent f w = Some c \<Longrightarrow> 0 < n \<Longrightarrow> file_mmap f n w = (Inr (), w)"
  by (simp add: file_mmap_def file_op_healthy prog_simps)

lemma file_close_healthy:
  "f_open f \<Longrightarrow> healthy w \<Longrightarrow> file_close (f, w) = (Inr (), (f\<lparr>f_open := False\<rparr>, w))"
  by (simp add: file_close_def)

lemma file_read_at_healthy:
  "f_open f \<Longrightarrow> healthy w \<Longrightarrow> fcontent f w = Some c \<Longrightarrow> off + n \<le> length c \<Longrightarrow>
     file_read_at f n (int off) w = (Inr (take n (drop off c)), w)"
  by (cases "n = 0") (auto simp: file_read_at_def file_pread_def Let_def)

lemma open_file_healthy:
  assumes "healthy w" and "os_dirs w d \<noteq> None"
  shows "open_file d n w = (Inr \<lparr>f_dir = d, f_name = n, f_open = True\<rparr>, fput d n (fbytes w d n) w)"
proof (cases "fget w d n")
  case None
  with assms show ?thesis by (auto simp: open_file_def prog_simps)
next
  case (Some c)
  with assms show ?thesis by (auto simp: open_file_def prog_simps fput_same)
qed

lemma remove_file_healthy:
  "healthy w \<Longrightarrow> fget w d n = Some c \<Longrightarrow> remove_file d n w = (Inr (), fdel d n w)"
  by (simp add: remove_file_def prog_simps)

lemmas files_healthy = file_size_healthy file_truncate_healthy file_sync_healthy file_mmap_healthy
  file_close_healthy file_read_at_healthy remove_file_healthy

lemma resize_pad: "length c \<le> n \<Longrightarrow> resize n c = c @ replicate (n - length c) 0"
  by (simp add: resize_def)

lemma length_resize [simp]: "length (resize n c) = n"
  by (simp add: resize_def)

lemma resize_shrink: "n \<le> length c \<Longrightarrow> resize n c = take n c"
  by (simp add: resize_def)

lemma take_resize: "k \<le> n \<Longrightarrow> k \<le> length c \<Longrightarrow> take k (resize n c) = take k c"
  by (simp add: resize_def min_def)

lemma open_file_name: "wrapf m (open_file d n) w = (Inr f, w') \<Longrightarrow> f = \<lparr>f_dir = d, f_name = n, f_open = True\<rparr>"
  by (auto simp: open_file_def prog_simps split: prod.splits sum.splits failure.splits option.splits)

end
