(* ===== verification/RecordLog.thy ===== *)
theory RecordLog
  imports Prelude
begin

text \<open>
  The interface that the layers of the commit log share. A store of byte strings, a segment
  and the whole log all append an item and return a key under which it can be read back, and
  all of them are used by the layer above through these laws only.
\<close>

text \<open>
  \<open>rep xs s\<close> says that the state \<open>s\<close> holds the items \<open>xs\<close>, \<open>key xs k\<close> is the key of item
  \<open>k\<close>, \<open>fits xs x\<close> says that there is room for \<open>x\<close> after \<open>xs\<close>, and \<open>stamp xs x\<close> is the item
  that is stored for it: a segment writes the offset into the record it is given.
\<close>

locale record_log =
  fixes rep :: "'a list \<Rightarrow> 's \<Rightarrow> bool"
    and fits :: "'a list \<Rightarrow> 'a \<Rightarrow> bool"
    and stamp :: "'a list \<Rightarrow> 'a \<Rightarrow> 'a"
    and key :: "'a list \<Rightarrow> nat \<Rightarrow> 'k"
    and append_item :: "'a \<Rightarrow> ('s, 'k) prog"
    and read_item :: "'k \<Rightarrow> ('s, 'a) prog"
  assumes append_law: "rep xs s \<Longrightarrow> fits xs x \<Longrightarrow>
      \<exists>t. append_item x s = (Inr (key (xs @ [stamp xs x]) (length xs)), t) \<and> rep (xs @ [stamp xs x]) t"
    and read_law: "rep xs s \<Longrightarrow> k < length xs \<Longrightarrow>
      \<exists>t. read_item (key xs k) s = (Inr (xs ! k), t) \<and> rep xs t"
    and key_stable: "k < length xs \<Longrightarrow> key (xs @ ys) k = key xs k"
begin

fun fits_all :: "'a list \<Rightarrow> 'a list \<Rightarrow> bool" where
  "fits_all xs [] \<longleftrightarrow> True"
| "fits_all xs (y # ys) \<longleftrightarrow> fits xs y \<and> fits_all (xs @ [stamp xs y]) ys"

fun extend :: "'a list \<Rightarrow> 'a list \<Rightarrow> 'a list" where
  "extend xs [] = xs"
| "extend xs (y # ys) = extend (xs @ [stamp xs y]) ys"

lemma length_extend [simp]: "length (extend xs ys) = length xs + length ys"
  by (induction xs ys rule: extend.induct) simp_all

lemma extend_prefix: "\<exists>zs. extend xs ys = xs @ zs"
  by (induction xs ys rule: extend.induct) auto

lemma extend_append: "extend xs (ys @ zs) = extend (extend xs ys) zs"
  by (induction xs ys rule: extend.induct) simp_all

lemma fits_all_append: "fits_all xs (ys @ zs) \<longleftrightarrow> fits_all xs ys \<and> fits_all (extend xs ys) zs"
  by (induction xs ys rule: extend.induct) simp_all

lemma key_extend: "k < length xs \<Longrightarrow> key (extend xs ys) k = key xs k"
  using extend_prefix [of xs ys] key_stable by auto

text \<open>An appended item is read back under the key that the append returned.\<close>

lemma append_then_read:
  assumes "rep xs s" and "fits xs x"
  shows "\<exists>k t u. append_item x s = (Inr k, t) \<and> read_item k t = (Inr (stamp xs x), u) \<and>
    rep (xs @ [stamp xs x]) u"
proof -
  let ?xs = "xs @ [stamp xs x]"
  obtain t where t: "append_item x s = (Inr (key ?xs (length xs)), t)" "rep ?xs t"
    using append_law [OF assms] by blast
  then obtain u where "read_item (key ?xs (length xs)) t = (Inr (?xs ! length xs), u)" "rep ?xs u"
    using read_law [of ?xs t "length xs"] by auto
  with t show ?thesis by auto
qed

text \<open>Appending a batch succeeds item by item and extends the log by the batch.\<close>

lemma append_all:
  assumes "rep xs s" and "fits_all xs ys"
  shows "\<exists>t. prog_map append_item ys s =
      (Inr (map (key (extend xs ys)) [length xs ..< length xs + length ys]), t) \<and> rep (extend xs ys) t"
  using assms
proof (induction ys arbitrary: xs s)
  case Nil
  then show ?case by (auto simp: prog_simps)
next
  case (Cons y ys)
  let ?xs = "xs @ [stamp xs y]"
  obtain t where t: "append_item y s = (Inr (key ?xs (length xs)), t)" "rep ?xs t"
    using append_law Cons.prems by force
  obtain u where u: "prog_map append_item ys t =
      (Inr (map (key (extend ?xs ys)) [length ?xs ..< length ?xs + length ys]), u)" "rep (extend ?xs ys) u"
    using Cons.IH [OF t(2)] Cons.prems(2) by auto
  have k: "key ?xs (length xs) = key (extend ?xs ys) (length xs)"
    by (simp add: key_extend)
  have "[length xs ..< length xs + length (y # ys)] = length xs # [Suc (length xs) ..< Suc (length xs + length ys)]"
    by (simp add: upt_rec)
  with t u k show ?case
    by (auto simp: prog_simps)
qed

text \<open>Every item written by a batch, and every item before it, is read back afterwards.\<close>

lemma read_after_append_all:
  assumes "rep xs s" and "fits_all xs ys" and "k < length xs + length ys"
  shows "\<exists>ks t u. prog_map append_item ys s = (Inr ks, t) \<and>
      read_item (key (extend xs ys) k) t = (Inr (extend xs ys ! k), u) \<and> rep (extend xs ys) u"
proof -
  obtain t where t: "prog_map append_item ys s =
      (Inr (map (key (extend xs ys)) [length xs ..< length xs + length ys]), t)" "rep (extend xs ys) t"
    using append_all [OF assms(1,2)] by blast
  with read_law [of "extend xs ys" t k] assms(3) show ?thesis by fastforce
qed

end

end
