(* ===== verification/Store.thy ===== *)
theory Store
  imports Encoding Files RecordLog
begin

text \<open>
  The store file of a segment, \<open>internal/log/store.go\<close>: records framed by their length,
  appended through a buffered writer and read back by position.
\<close>

section \<open>The store\<close>

record store =
  st_file :: os_file
  st_buf :: bufw
  st_size :: u64

definition LenWidth :: u64 where
  "LenWidth = 8"

text \<open>A method of the store's embedded \<open>bufio.Writer\<close>.\<close>

definition on_buf :: "(os_file \<Rightarrow> (bufw \<times> os, 'a) prog) \<Rightarrow> (store \<times> os, 'a) prog" where
  "on_buf m = (\<lambda>(s, w). case m (st_file s) (st_buf s, w) of
     (r, (b, w')) \<Rightarrow> (r, (s\<lparr>st_buf := b\<rparr>, w')))"

definition newStore :: "os_file \<Rightarrow> (os, store) prog" where
  "newStore f = bnd (wrapf ''stat'' (file_size f)) (\<lambda>n.
     ret \<lparr>st_file = f, st_buf = new_writer, st_size = n\<rparr>)"

text \<open>
  \<open>Append\<close> writes the length of the record and the record, and returns the number of bytes
  written and the position of the frame.
\<close>

definition store_append :: "bytes \<Rightarrow> (store \<times> os, u64 \<times> u64) prog" where
  "store_append p = bnd get_st (\<lambda>(s, _). let pos = st_size s in
     andthen (on_buf (\<lambda>f. bufio_write f (put_uint64 (of_nat (length p)))))
       (bnd (on_buf (\<lambda>f. bufio_write f p)) (\<lambda>n. let w = of_nat n + LenWidth in
         andthen (upd_st (\<lambda>(s, os). (s\<lparr>st_size := st_size s + w\<rparr>, os)))
           (ret (w, pos)))))"

text \<open>\<open>make([]byte, n)\<close> panics when \<open>n\<close> is beyond the address space (48 bits on amd64).\<close>

definition max_alloc :: nat where
  "max_alloc = 2 ^ 48"

definition make_bytes :: "u64 \<Rightarrow> ('s, nat) prog" where
  "make_bytes n = (if unat n > max_alloc then fail (Panic MakeSliceLenOutOfRange) else ret (unat n))"

definition store_read :: "u64 \<Rightarrow> (store \<times> os, bytes) prog" where
  "store_read pos = andthen (on_buf bufio_flush) (bnd get_st (\<lambda>(s, _).
     bnd (on_os (file_read_at (st_file s) (unat LenWidth) (sint pos))) (\<lambda>size.
       bnd (make_bytes (get_uint64 size)) (\<lambda>n.
         on_os (file_read_at (st_file s) n (sint (pos + LenWidth)))))))"

text \<open>\<open>ReadAt\<close> fills a slice of length \<open>n\<close>: the bytes read so far come with the error.\<close>

definition store_readAt :: "nat \<Rightarrow> int \<Rightarrow> (store \<times> os, bytes \<times> goerr option) prog" where
  "store_readAt n off = iferr (on_buf bufio_flush) (\<lambda>e. ret ([], Some e))
     (\<lambda>_ (s, w). case file_pread (st_file s) n off w of (r, w') \<Rightarrow> (Inr r, (s, w')))"

definition store_close :: "(store \<times> os, unit) prog" where
  "store_close = andthen (on_buf bufio_flush) (\<lambda>(s, w). case file_close (st_file s, w) of
     (r, (f, w')) \<Rightarrow> (r, (s\<lparr>st_file := f\<rparr>, w')))"

section \<open>What a store holds\<close>

definition frame :: "bytes \<Rightarrow> bytes" where
  "frame p = put_uint64 (of_nat (length p)) @ p"

definition frames :: "bytes list \<Rightarrow> bytes" where
  "frames ps = concat (map frame ps)"

definition frame_pos :: "bytes list \<Rightarrow> nat \<Rightarrow> nat" where
  "frame_pos ps k = length (frames (take k ps))"

definition store_fits :: "bytes list \<Rightarrow> bytes \<Rightarrow> bool" where
  "store_fits ps p \<longleftrightarrow> length (frames ps) + 8 + length p < 2 ^ 63 \<and> length p \<le> max_alloc"

definition store_rep :: "bytes list \<Rightarrow> store \<times> os \<Rightarrow> bool" where
  "store_rep ps = (\<lambda>(s, w). writes_to (st_file s) (st_buf s) w (frames ps) \<and>
     st_size s = of_nat (length (frames ps)) \<and> length (frames ps) < 2 ^ 63 \<and>
     list_all (\<lambda>p. length p \<le> max_alloc) ps)"

lemma length_frame [simp]: "length (frame p) = 8 + length p"
  by (simp add: frame_def)

lemma frames_Nil [simp]: "frames [] = []"
  by (simp add: frames_def)

lemma frames_Cons [simp]: "frames (p # ps) = frame p @ frames ps"
  by (simp add: frames_def)

lemma frames_append [simp]: "frames (ps @ qs) = frames ps @ frames qs"
  by (simp add: frames_def)

lemma frame_pos_append [simp]: "k \<le> length ps \<Longrightarrow> frame_pos (ps @ qs) k = frame_pos ps k"
  by (simp add: frame_pos_def)

lemma frame_pos_length [simp]: "frame_pos ps (length ps) = length (frames ps)"
  by (simp add: frame_pos_def)

text \<open>The frames of a list split at every item.\<close>

lemma frames_split:
  assumes "k < length ps"
  shows "frames ps = frames (take k ps) @ frame (ps ! k) @ frames (drop (Suc k) ps)"
proof -
  have "ps = take k ps @ ps ! k # drop (Suc k) ps"
    using assms by (rule id_take_nth_drop)
  then have "frames ps = frames (take k ps @ ps ! k # drop (Suc k) ps)"
    by simp
  then show ?thesis by simp
qed

lemma frame_pos_bound:
  "k < length ps \<Longrightarrow> frame_pos ps k + 8 + length (ps ! k) \<le> length (frames ps)"
  using arg_cong [OF frames_split, of k ps length] by (simp add: frame_pos_def)

lemma frame_pos_mono_length: "k \<le> length ps \<Longrightarrow> frame_pos ps k \<le> length (frames ps)"
proof -
  have "frames ps = frames (take k ps) @ frames (drop k ps)"
    by (simp flip: frames_append)
  then show ?thesis by (simp add: frame_pos_def)
qed

lemma frames_header:
  "k < length ps \<Longrightarrow> take 8 (drop (frame_pos ps k) (frames ps)) = put_uint64 (of_nat (length (ps ! k)))"
  by (subst frames_split [of k]) (simp_all add: frame_pos_def frame_def)

lemma frames_payload:
  "k < length ps \<Longrightarrow> take (length (ps ! k)) (drop (frame_pos ps k + 8) (frames ps)) = ps ! k"
  by (subst frames_split [of k]) (simp_all add: frame_pos_def frame_def)

section \<open>The operations on a working disk\<close>

lemma on_buf_run [prog_simps]:
  "on_buf m (s, w) = (case m (st_file s) (st_buf s, w) of
     (r, (b, w')) \<Rightarrow> (r, (s\<lparr>st_buf := b\<rparr>, w')))"
  by (simp add: on_buf_def)

lemma store_append_rep:
  assumes rep: "store_rep ps (s, w)" and fits: "store_fits ps p"
  obtains b c where
    "store_append p (s, w) = (Inr (of_nat (length (frame p)), of_nat (frame_pos ps (length ps))),
       (s\<lparr>st_buf := b, st_size := of_nat (length (frames (ps @ [p])))\<rparr>, fwrite_all (st_file s) c w))"
    "store_rep (ps @ [p]) (s\<lparr>st_buf := b, st_size := of_nat (length (frames (ps @ [p])))\<rparr>,
       fwrite_all (st_file s) c w)"
proof -
  have w0: "writes_to (st_file s) (st_buf s) w (frames ps)" and sz: "st_size s = of_nat (length (frames ps))"
    and all: "list_all (\<lambda>p. length p \<le> max_alloc) ps"
    using rep by (auto simp: store_rep_def)
  obtain b1 c1 where h1: "bufio_write (st_file s) (put_uint64 (of_nat (length p))) (st_buf s, w) =
      (Inr 8, (b1, fwrite_all (st_file s) c1 w))"
    and w1: "writes_to (st_file s) b1 (fwrite_all (st_file s) c1 w)
      (frames ps @ put_uint64 (of_nat (length p)))"
    using bufio_write_healthy [OF w0, of "put_uint64 (of_nat (length p))"] by auto
  obtain b2 c2 where h2: "bufio_write (st_file s) p (b1, fwrite_all (st_file s) c1 w) =
      (Inr (length p), (b2, fwrite_all (st_file s) c2 w))"
    and w2: "writes_to (st_file s) b2 (fwrite_all (st_file s) c2 w)
      ((frames ps @ put_uint64 (of_nat (length p))) @ p)"
    using bufio_write_healthy [OF w1, of p] by auto
  show ?thesis
  proof (rule that [of b2 c2])
    show "store_append p (s, w) = (Inr (of_nat (length (frame p)), of_nat (frame_pos ps (length ps))),
       (s\<lparr>st_buf := b2, st_size := of_nat (length (frames (ps @ [p])))\<rparr>, fwrite_all (st_file s) c2 w))"
      using h1 h2 sz by (simp add: store_append_def prog_simps Let_def LenWidth_def ac_simps)
    show "store_rep (ps @ [p]) (s\<lparr>st_buf := b2, st_size := of_nat (length (frames (ps @ [p])))\<rparr>,
       fwrite_all (st_file s) c2 w)"
      using w2 all fits by (simp add: store_rep_def frame_def store_fits_def)
  qed
qed

lemma store_read_rep:
  assumes rep: "store_rep ps (s, w)" and k: "k < length ps"
  shows "store_read (of_nat (frame_pos ps k)) (s, w) = (Inr (ps ! k),
      (s\<lparr>st_buf := flushed (frames ps) (st_buf s)\<rparr>, fwrite_all (st_file s) (frames ps) w))"
    and "store_rep ps (s\<lparr>st_buf := flushed (frames ps) (st_buf s)\<rparr>, fwrite_all (st_file s) (frames ps) w)"
proof -
  have w0: "writes_to (st_file s) (st_buf s) w (frames ps)"
    and sz: "st_size s = of_nat (length (frames ps))" and lt: "length (frames ps) < 2 ^ 63"
    and all: "list_all (\<lambda>p. length p \<le> max_alloc) ps"
    using rep by (auto simp: store_rep_def)
  note fl = bufio_flush_healthy [OF w0]
  let ?w = "fwrite_all (st_file s) (frames ps) w"
  have f: "f_open (st_file s)" "healthy ?w" "fcontent (st_file s) ?w = Some (frames ps)"
    using fl(2) by (auto simp: writes_to_def)
  have b: "frame_pos ps k + 8 + length (ps ! k) \<le> length (frames ps)"
    using frame_pos_bound [OF k] .
  have p1: "sint (of_nat (frame_pos ps k) :: u64) = int (frame_pos ps k)"
    using b lt by (subst sint_u64_nonneg) (simp_all add: no_wrap)
  have p2: "sint (of_nat (frame_pos ps k) + LenWidth) = int (frame_pos ps k + 8)"
  proof -
    have "of_nat (frame_pos ps k) + LenWidth = (of_nat (frame_pos ps k + 8) :: u64)"
      by (simp add: LenWidth_def)
    then show ?thesis
      using b lt by (simp only:) (subst sint_u64_nonneg, simp_all add: no_wrap del: of_nat_add)
  qed
  have len: "length (ps ! k) \<le> max_alloc"
    using all k by (simp add: list_all_length)
  have u: "unat (of_nat (length (ps ! k)) :: u64) = length (ps ! k)"
    using b lt by (simp add: no_wrap)
  have r1: "file_read_at (st_file s) 8 (int (frame_pos ps k)) ?w =
      (Inr (put_uint64 (of_nat (length (ps ! k)))), ?w)"
    using file_read_at_healthy [OF f, of "frame_pos ps k" 8] b k by (simp add: frames_header)
  have r2: "file_read_at (st_file s) (length (ps ! k)) (int (frame_pos ps k) + 8) ?w = (Inr (ps ! k), ?w)"
    using file_read_at_healthy [OF f, of "frame_pos ps k + 8" "length (ps ! k)"] b k
    by (simp add: frames_payload)
  show "store_read (of_nat (frame_pos ps k)) (s, w) = (Inr (ps ! k),
      (s\<lparr>st_buf := flushed (frames ps) (st_buf s)\<rparr>, ?w))"
    using fl(1) len r1 r2 p1 p2 u
    by (simp add: store_read_def prog_simps LenWidth_def make_bytes_def)
  show "store_rep ps (s\<lparr>st_buf := flushed (frames ps) (st_buf s)\<rparr>, ?w)"
    using fl(2) sz lt all by (simp add: store_rep_def)
qed

lemma store_close_rep:
  assumes "store_rep ps (s, w)"
  shows "store_close (s, w) = (Inr (), (s\<lparr>st_buf := flushed (frames ps) (st_buf s),
      st_file := (st_file s)\<lparr>f_open := False\<rparr>\<rparr>, fwrite_all (st_file s) (frames ps) w))"
proof -
  have w0: "writes_to (st_file s) (st_buf s) w (frames ps)"
    using assms by (simp add: store_rep_def)
  then have "f_open (st_file s)" "healthy (fwrite_all (st_file s) (frames ps) w)"
    by (auto simp: writes_to_def)
  then show ?thesis
    using bufio_flush_healthy [OF w0] by (simp add: store_close_def prog_simps file_close_healthy)
qed

lemma newStore_rep:
  assumes "f_open f" "healthy w" "fcontent f w = Some (frames ps)"
    "length (frames ps) < 2 ^ 63" "list_all (\<lambda>p. length p \<le> max_alloc) ps"
  shows "newStore f w = (Inr \<lparr>st_file = f, st_buf = new_writer, st_size = of_nat (length (frames ps))\<rparr>, w)"
    and "store_rep ps (\<lparr>st_file = f, st_buf = new_writer, st_size = of_nat (length (frames ps))\<rparr>, w)"
  using assms
  by (simp_all add: newStore_def prog_simps file_size_healthy store_rep_def writes_to_def new_writer_def)

text \<open>The store provides the record interface, with positions as keys.\<close>

interpretation store_log: record_log store_rep store_fits "\<lambda>_ p. p"
  "\<lambda>ps k. of_nat (frame_pos ps k) :: u64"
  "\<lambda>p. bnd (store_append p) (\<lambda>(n, pos). ret pos)" store_read
proof unfold_locales
  fix ps x p
  assume r: "store_rep ps x" and f: "store_fits ps p"
  obtain s w where x: "x = (s, w)" by (cases x)
  obtain b c where
    "store_append p (s, w) = (Inr (of_nat (length (frame p)), of_nat (frame_pos ps (length ps))),
       (s\<lparr>st_buf := b, st_size := of_nat (length (frames (ps @ [p])))\<rparr>, fwrite_all (st_file s) c w))"
    "store_rep (ps @ [p]) (s\<lparr>st_buf := b, st_size := of_nat (length (frames (ps @ [p])))\<rparr>,
       fwrite_all (st_file s) c w)"
    using r f unfolding x by (rule store_append_rep)
  then show "\<exists>t. bnd (store_append p) (\<lambda>(n, pos). ret pos) x =
      (Inr (of_nat (frame_pos (ps @ [p]) (length ps))), t) \<and> store_rep (ps @ [p]) t"
    by (auto simp: x prog_simps)
next
  fix ps x k
  assume "store_rep ps x" "k < length ps"
  then show "\<exists>t. store_read (of_nat (frame_pos ps k)) x = (Inr (ps ! k), t) \<and> store_rep ps t"
    by (cases x) (use store_read_rep in blast)
next
  fix k and ps qs :: "bytes list"
  assume "k < length ps"
  then show "(of_nat (frame_pos (ps @ qs) k) :: u64) = of_nat (frame_pos ps k)"
    by simp
qed

section \<open>Failures\<close>

text \<open>
  The error of a buffered writer is sticky, so a store that failed once fails for good: it
  never returns a record whose frame was cut.
\<close>

lemma bufio_flush_error:
  "bufio_flush f (b, w) = (Inl e, (b', w')) \<Longrightarrow> \<exists>err. e = Error err \<and> bw_err b' = Some err"
  by (auto simp: bufio_flush_def split: option.splits if_splits prod.splits)

lemma bufio_write_error:
  "bufio_write f p (b, w) = (Inl e, (b', w')) \<Longrightarrow> \<exists>err. e = Error err \<and> bw_err b' = Some err"
  by (auto simp: bufio_write_def split: option.splits if_splits prod.splits)

lemma bufio_write_failed:
  "bw_err b = Some e \<Longrightarrow> bufio_write f p (b, w) = (Inl (Error e), (b, w))"
  by (simp add: bufio_write_def bufio_fill_def bufio_direct_def)

lemma bufio_flush_failed:
  "bw_err b = Some e \<Longrightarrow> bufio_flush f (b, w) = (Inl (Error e), (b, w))"
  by (simp add: bufio_flush_def)

lemmas bufio_failed = bufio_write_failed bufio_flush_failed

lemma store_append_error:
  assumes "store_append p (s, w) = (Inl e, (s', w'))"
  shows "st_size s' = st_size s" and "\<exists>err. e = Error err \<and> bw_err (st_buf s') = Some err"
  using assms
  by (auto simp: store_append_def prog_simps Let_def split: prod.splits sum.splits)
    (use bufio_write_error in blast)+

lemma store_read_beyond:
  assumes rep: "store_rep ps (s, w)" and pos: "length (frames ps) \<le> unat pos" "unat pos < 2 ^ 63"
  shows "\<exists>y. store_read pos (s, w) = (Inl (Error EOF), y)"
proof -
  have w0: "writes_to (st_file s) (st_buf s) w (frames ps)"
    using rep by (simp add: store_rep_def)
  have f: "f_open (st_file s)" "healthy w"
    "fcontent (st_file s) (fwrite_all (st_file s) (frames ps) w) = Some (frames ps)"
    using bufio_flush_healthy(2) [OF w0] by (auto simp: writes_to_def)
  have "sint pos = int (unat pos)"
    using pos(2) by (rule sint_u64_nonneg)
  then show ?thesis
    using bufio_flush_healthy(1) [OF w0] f pos(1)
    by (simp add: store_read_def prog_simps LenWidth_def file_read_at_def file_pread_def Let_def)
qed

section \<open>Properties\<close>

text \<open>
  Appending a record returns the size of its frame and the position where it begins, and
  afterwards every record of the store, the new one and those before it, is read back whole
  at its position.
\<close>

theorem store_append_read:
  assumes "store_rep ps x" and "store_fits ps p"
  shows "\<exists>y. store_append p x =
      (Inr (of_nat (8 + length p), of_nat (length (frames ps))), y) \<and>
      (\<forall>k \<le> length ps. \<exists>z. store_read (of_nat (frame_pos (ps @ [p]) k)) y =
        (Inr ((ps @ [p]) ! k), z) \<and> store_rep (ps @ [p]) z)"
proof -
  obtain s w where x: "x = (s, w)" by (cases x)
  obtain b c where
    a: "store_append p (s, w) = (Inr (of_nat (length (frame p)), of_nat (frame_pos ps (length ps))),
       (s\<lparr>st_buf := b, st_size := of_nat (length (frames (ps @ [p])))\<rparr>, fwrite_all (st_file s) c w))"
    and r: "store_rep (ps @ [p]) (s\<lparr>st_buf := b, st_size := of_nat (length (frames (ps @ [p])))\<rparr>,
       fwrite_all (st_file s) c w)"
    using assms unfolding x by (rule store_append_rep)
  have "\<exists>z. store_read (of_nat (frame_pos (ps @ [p]) k))
      (s\<lparr>st_buf := b, st_size := of_nat (length (frames (ps @ [p])))\<rparr>, fwrite_all (st_file s) c w) =
        (Inr ((ps @ [p]) ! k), z) \<and> store_rep (ps @ [p]) z" if "k \<le> length ps" for k
    using store_log.read_law [OF r, of k] that by auto
  with a show ?thesis by (auto simp: x)
qed

definition demo_store :: "store \<times> os" where
  "demo_store =
     (\<lparr>st_file = \<lparr>f_dir = ''d'', f_name = ''0.store'', f_open = True\<rparr>, st_buf = new_writer, st_size = 0\<rparr>,
      \<lparr>os_dirs = [''d'' \<mapsto> [(''0.store'', [])]], os_faults = []\<rparr>)"

lemma demo_store_rep: "store_rep [] demo_store"
  by (simp add: store_rep_def demo_store_def writes_to_def new_writer_def fget_def)

theorem store_append_read_witness:
  "\<exists>y. store_append [1, 2, 3] demo_store = (Inr (11, 0), y) \<and>
     (\<exists>z. store_read 0 y = (Inr [1, 2, 3], z))"
proof -
  have f: "store_fits [] [1, 2, 3]"
    by (simp add: store_fits_def max_alloc_def)
  show ?thesis
    using store_append_read [OF demo_store_rep f] by (force simp: frame_pos_def)
qed

text \<open>
  An append that fails leaves the recorded size as it was, and from then on every append,
  read and close of that store fails with the same error and writes nothing, whatever the
  state of the disk: no later call sees the cut frame.
\<close>

theorem store_append_failure_is_final:
  assumes "store_append p (s, w) = (Inl e, (s', w'))"
  shows "st_size s' = st_size s \<and>
    store_append q (s', v) = (Inl e, (s', v)) \<and>
    store_read pos (s', v) = (Inl e, (s', v)) \<and>
    store_close (s', v) = (Inl e, (s', v))"
proof -
  obtain err where "e = Error err" "bw_err (st_buf s') = Some err"
    using store_append_error(2) [OF assms] by blast
  then show ?thesis
    using store_append_error(1) [OF assms]
    by (simp add: store_append_def store_read_def store_close_def prog_simps Let_def bufio_failed)
qed

theorem store_append_failure_is_final_witness:
  "\<exists>s' w'. store_append (replicate 4090 7) (fst demo_store, (snd demo_store)\<lparr>os_faults := [Some 5]\<rparr>) =
       (Inl (Error EIO), (s', w')) \<and> st_size s' = 0 \<and>
     store_read 0 (s', snd demo_store) = (Inl (Error EIO), (s', snd demo_store))"
proof -
  let ?x = "(fst demo_store, (snd demo_store)\<lparr>os_faults := [Some 5]\<rparr>)"
  obtain s' w' where a: "store_append (replicate 4090 7) ?x = (Inl (Error EIO), (s', w'))"
    by (simp add: demo_store_def store_append_def prog_simps Let_def bufio_write_def bufio_fill_def
        bufio_direct_def available_def buf_size_def new_writer_def bufio_flush_def file_write_def
        next_fault_def fget_def fput_def)
  from store_append_failure_is_final [OF a, of "[]" "snd demo_store" 0] a show ?thesis
    by (auto simp: demo_store_def)
qed

end
