(* ===== verification/Index.thy ===== *)
theory Index
  imports Encoding Files RecordLog
begin

text \<open>
  The index file of a segment, \<open>internal/log/index.go\<close>: entries of twelve bytes, the relative
  offset of a record and its position in the store, in a file that is mapped into memory.
\<close>

section \<open>The index\<close>

definition offWidth :: u64 where
  "offWidth = 4"

definition posWidth :: u64 where
  "posWidth = 8"

definition entryWidth :: u64 where
  "entryWidth = offWidth + posWidth"

text \<open>
  The mapping is shared, so the bytes of \<open>i.mmap\<close> are the bytes of the file; the record holds
  the length of the slice and whether the mapping is still there.
\<close>

record index =
  ix_file :: os_file
  ix_maplen :: nat
  ix_mapped :: bool
  ix_size :: u64

definition newIndex :: "os_file \<Rightarrow> u64 \<Rightarrow> (os, index) prog" where
  "newIndex f maxIndexBytes = bnd (wrapf ''stat'' (file_size f)) (\<lambda>size.
     andthen (file_truncate f (sint maxIndexBytes))
       (andthen (wrapf ''mmap'' (file_mmap f (sint maxIndexBytes)))
         (ret \<lparr>ix_file = f, ix_maplen = unat maxIndexBytes, ix_mapped = True, ix_size = size\<rparr>)))"

text \<open>
  The slice expression \<open>i.mmap[lo:hi]\<close> checks its bounds; touching its bytes faults when the
  mapping is gone or the file has become shorter.
\<close>

definition mmap_load :: "u64 \<Rightarrow> u64 \<Rightarrow> (index \<times> os, bytes) prog" where
  "mmap_load lo hi = (\<lambda>(i, w).
     if \<not> (lo \<le> hi \<and> unat hi \<le> ix_maplen i) then (Inl (Panic SliceBoundsOutOfRange), (i, w))
     else if \<not> ix_mapped i then (Inl (Panic MemoryFault), (i, w))
     else (case fcontent (ix_file i) w of
         None \<Rightarrow> (Inl (Panic MemoryFault), (i, w))
       | Some c \<Rightarrow>
           if length c < unat hi then (Inl (Panic MemoryFault), (i, w))
           else (Inr (take (unat hi - unat lo) (drop (unat lo) c)), (i, w))))"

definition mmap_store :: "u64 \<Rightarrow> u64 \<Rightarrow> bytes \<Rightarrow> (index \<times> os, unit) prog" where
  "mmap_store lo hi b = (\<lambda>(i, w).
     if \<not> (lo \<le> hi \<and> unat hi \<le> ix_maplen i) then (Inl (Panic SliceBoundsOutOfRange), (i, w))
     else if \<not> ix_mapped i then (Inl (Panic MemoryFault), (i, w))
     else (case fcontent (ix_file i) w of
         None \<Rightarrow> (Inl (Panic MemoryFault), (i, w))
       | Some c \<Rightarrow>
           if length c < unat hi then (Inl (Panic MemoryFault), (i, w))
           else (Inr (), (i, fwrite_all (ix_file i) (take (unat lo) c @ b @ drop (unat hi) c) w))))"

text \<open>\<open>in\<close> is an \<open>int64\<close>, given by its bits: \<open>-1\<close> asks for the last entry.\<close>

definition index_read :: "u64 \<Rightarrow> (index \<times> os, u32 \<times> u64) prog" where
  "index_read inn = bnd get_st (\<lambda>(i, _).
     if ix_size i = 0 then fail (Error EOF)
     else
       let out = (if inn = - 1 then ucast (ix_size i div entryWidth - 1) else ucast inn) :: u32;
           pos = ucast out * entryWidth
       in if ix_size i < pos + entryWidth then fail (Error EOF)
          else bnd (mmap_load pos (pos + offWidth)) (\<lambda>a.
            bnd (mmap_load (pos + offWidth) (pos + entryWidth)) (\<lambda>b.
              ret (get_uint32 a, get_uint64 b))))"

definition index_write :: "u32 \<Rightarrow> u64 \<Rightarrow> (index \<times> os, unit) prog" where
  "index_write off pos = bnd get_st (\<lambda>(i, _). let size = ix_size i in
     if of_nat (ix_maplen i) < size + entryWidth then fail (Error EOF)
     else andthen (mmap_store size (size + offWidth) (put_uint32 off))
       (andthen (mmap_store (size + offWidth) (size + entryWidth) (put_uint64 pos))
         (upd_st (\<lambda>(i, w). (i\<lparr>ix_size := ix_size i + entryWidth\<rparr>, w)))))"

text \<open>
  \<open>Close\<close> flushes the mapping, removes it, flushes the file, cuts it to the size in use and
  closes it. Taking the address of the first byte of an empty mapping panics, and \<open>msync\<close> of no
  bytes does not look at the mapping.
\<close>

definition msync :: "(index \<times> os, unit) prog" where
  "msync = bnd get_st (\<lambda>(i, _).
     if ix_maplen i = 0 then fail (Panic IndexOutOfRange)
     else wrapf ''msync'' (andthen (on_os sys)
       (if ix_mapped i \<or> ix_size i = 0 then ret () else fail (Error ENOMEM))))"

definition munmap :: "(index \<times> os, unit) prog" where
  "munmap = wrapf ''unmap'' (andthen (on_os sys) (\<lambda>(i, w).
     if ix_mapped i then (Inr (), (i\<lparr>ix_mapped := False\<rparr>, w)) else (Inl (Error EINVAL), (i, w))))"

definition index_close :: "(index \<times> os, unit) prog" where
  "index_close = andthen msync (andthen munmap (bnd get_st (\<lambda>(i, _).
     andthen (on_os (wrapf ''sync'' (file_sync (ix_file i))))
       (andthen (on_os (wrapf ''truncate'' (file_truncate (ix_file i) (sint (ix_size i)))))
         (\<lambda>(i, w). case file_close (ix_file i, w) of
           (r, (f, w')) \<Rightarrow> (r, (i\<lparr>ix_file := f\<rparr>, w')))))))"

definition index_name :: "index \<Rightarrow> string \<times> string" where
  "index_name i = (f_dir (ix_file i), f_name (ix_file i))"

section \<open>What an index holds\<close>

definition ientry :: "u32 \<times> u64 \<Rightarrow> bytes" where
  "ientry e = put_uint32 (fst e) @ put_uint64 (snd e)"

definition ientries :: "(u32 \<times> u64) list \<Rightarrow> bytes" where
  "ientries es = concat (map ientry es)"

definition index_rep :: "nat \<Rightarrow> (u32 \<times> u64) list \<Rightarrow> index \<times> os \<Rightarrow> bool" where
  "index_rep m es = (\<lambda>(i, w). f_open (ix_file i) \<and> healthy w \<and> ix_mapped i \<and> ix_maplen i = m \<and>
     0 < m \<and> m < 2 ^ 63 \<and> length es * 12 \<le> m \<and> length es \<le> 2 ^ 32 \<and>
     ix_size i = of_nat (length es * 12) \<and>
     (\<exists>c. fcontent (ix_file i) w = Some c \<and> length c = m \<and> take (length es * 12) c = ientries es))"

lemma entryWidth_simp [simp]: "entryWidth = 12"
  by (simp add: entryWidth_def offWidth_def posWidth_def)

lemma length_ientry [simp]: "length (ientry e) = 12"
  by (simp add: ientry_def)

lemma length_ientries [simp]: "length (ientries es) = length es * 12"
  by (induction es) (simp_all add: ientries_def)

lemma ientries_append [simp]: "ientries (es @ fs) = ientries es @ ientries fs"
  by (simp add: ientries_def)

lemma ientries_Nil [simp]: "ientries [] = []"
  by (simp add: ientries_def)

lemma ientries_single [simp]: "ientries [e] = ientry e"
  by (simp add: ientries_def)

lemma ientries_nth:
  assumes "k < length es"
  shows "take 4 (drop (k * 12) (ientries es)) = put_uint32 (fst (es ! k))"
    and "take 8 (drop (k * 12 + 4) (ientries es)) = put_uint64 (snd (es ! k))"
proof -
  have e: "es = take k es @ [es ! k] @ drop (Suc k) es"
    using assms by (simp add: id_take_nth_drop)
  have s: "ientries es = ientries (take k es) @ ientry (es ! k) @ ientries (drop (Suc k) es)"
    by (subst e) (simp del: append_Cons append_Nil)
  show "take 4 (drop (k * 12) (ientries es)) = put_uint32 (fst (es ! k))"
    and "take 8 (drop (k * 12 + 4) (ientries es)) = put_uint64 (snd (es ! k))"
    using assms by (simp_all add: s ientry_def)
qed

section \<open>The operations on a working disk\<close>

lemma ucast_u32_of_nat: "k < 2 ^ 32 \<Longrightarrow> (ucast (of_nat k :: u32) :: u64) = of_nat k"
  by (rule word_unat_eq_iff [THEN iffD2])
    (simp add: unsigned_ucast_eq unsigned_of_nat take_bit_nat_eq_self)

lemma ucast_u64_of_nat: "(ucast (of_nat k :: u64) :: u32) = of_nat k"
  by (rule word_unat_eq_iff [THEN iffD2])
    (simp add: unsigned_ucast_eq unsigned_of_nat take_bit_take_bit)

lemma index_repE:
  assumes "index_rep m es (i, w)"
  obtains c where "f_open (ix_file i)" "healthy w" "ix_mapped i" "ix_maplen i = m" "0 < m" "m < 2 ^ 63"
    "length es * 12 \<le> m" "length es \<le> 2 ^ 32" "ix_size i = of_nat (length es * 12)"
    "fcontent (ix_file i) w = Some c" "length c = m" "take (length es * 12) c = ientries es"
  using assms by (auto simp: index_rep_def)

text \<open>
  What \<open>Read\<close> needs: the entries fill the size of the index up to a remainder that is shorter than
  an entry. The remainder is empty while the index is in use.
\<close>

definition index_view :: "(u32 \<times> u64) list \<Rightarrow> index \<times> os \<Rightarrow> bool" where
  "index_view es = (\<lambda>(i, w). ix_mapped i \<and> length es \<le> 2 ^ 32 \<and> ix_maplen i < 2 ^ 63 \<and>
     unat (ix_size i) \<le> ix_maplen i \<and> unat (ix_size i) div 12 = length es \<and>
     (\<exists>c. fcontent (ix_file i) w = Some c \<and> length c = ix_maplen i \<and> take (length es * 12) c = ientries es))"

lemma index_viewE:
  assumes "index_view es (i, w)"
  obtains c where "ix_mapped i" "length es \<le> 2 ^ 32" "ix_maplen i < 2 ^ 63" "unat (ix_size i) \<le> ix_maplen i"
    "unat (ix_size i) div 12 = length es" "fcontent (ix_file i) w = Some c" "length c = ix_maplen i"
    "take (length es * 12) c = ientries es"
  using assms by (auto simp: index_view_def)

lemma index_rep_view: "index_rep m es (i, w) \<Longrightarrow> index_view es (i, w)"
  by (elim index_repE) (simp add: index_view_def no_wrap del: of_nat_mult)

lemma mmap_load_view:
  assumes view: "index_view es (i, w)" and b: "lo + n \<le> length es * 12"
    and e: "a = of_nat lo" "b = of_nat (lo + n)"
  shows "mmap_load a b (i, w) = (Inr (take n (drop lo (ientries es))), (i, w))"
proof -
  obtain c where v: "ix_mapped i" "ix_maplen i < 2 ^ 63" "unat (ix_size i) \<le> ix_maplen i" "unat (ix_size i) div 12 = length es"
      "fcontent (ix_file i) w = Some c" "length c = ix_maplen i" "take (length es * 12) c = ientries es"
    using view by (rule index_viewE)
  moreover define m where "m = ix_maplen i"
  moreover have "length es * 12 \<le> ix_maplen i"
    using v(3,4) by linarith
  ultimately have c: "ix_mapped i" "ix_maplen i = m" "m < 2 ^ 63" "length es * 12 \<le> m"
      "fcontent (ix_file i) w = Some c" "length c = m" "take (length es * 12) c = ientries es"
    by simp_all
  have u: "unat a = lo" "unat b = lo + n"
    using b c(3,4) unfolding e by (simp_all add: no_wrap del: of_nat_add)
  have "take n (drop lo c) = take n (drop lo (ientries es))"
    using b by (simp add: take_drop_take flip: c(7))
  with c b u show ?thesis
    by (simp add: mmap_load_def word_le_nat_alt)
qed

text \<open>Reading the entry that the code computed from its argument.\<close>

lemma index_read_at:
  assumes view: "index_view es (i, w)" and k: "k < length es"
    and out: "(if inn = - 1 then ucast (ix_size i div entryWidth - 1) else ucast inn) = (of_nat k :: u32)"
  shows "index_read inn (i, w) = (Inr (es ! k), (i, w))"
proof -
  obtain c where c: "length es \<le> 2 ^ 32" "unat (ix_size i) div 12 = length es"
    using view by (rule index_viewE)
  have p: "ucast (of_nat k :: u32) * entryWidth = (of_nat (k * 12) :: u64)"
    using k c(1) by (subst ucast_u32_of_nat) simp_all
  have p1: "(of_nat (k * 12) :: u64) + offWidth = of_nat (k * 12 + 4)"
    and p2: "(of_nat (k * 12) :: u64) + entryWidth = of_nat (k * 12 + 12)"
    by (simp_all add: offWidth_def)
  have sz: "k * 12 + 12 \<le> unat (ix_size i)"
    using k c(2) by linarith
  have nz: "ix_size i \<noteq> 0"
    using sz by auto
  have lt: "\<not> ix_size i < of_nat (k * 12 + 12)"
    using sz k c(1) by (simp add: word_less_nat_alt no_wrap del: of_nat_add of_nat_mult)
  have "mmap_load (of_nat (k * 12)) (of_nat (k * 12 + 4)) (i, w) =
      (Inr (put_uint32 (fst (es ! k))), (i, w))"
    using k by (subst mmap_load_view [OF view, of "k * 12" 4]) (simp_all add: ientries_nth)
  moreover have "mmap_load (of_nat (k * 12 + 4)) (of_nat (k * 12 + 12)) (i, w) =
      (Inr (put_uint64 (snd (es ! k))), (i, w))"
    using k by (subst mmap_load_view [OF view, of "k * 12 + 4" 8]) (simp_all add: ientries_nth)
  ultimately show ?thesis
    using nz lt unfolding index_read_def get_st_def bnd_def
    by (simp add: Let_def out p p1 p2 prog_simps del: of_nat_add of_nat_mult entryWidth_simp)
qed

lemma index_read_view:
  assumes "index_view es (i, w)" and "k < length es"
  shows "index_read (of_nat k) (i, w) = (Inr (es ! k), (i, w))"
proof (rule index_read_at [OF assms])
  have "k < 2 ^ 32"
    using assms by (auto elim: index_viewE)
  then have "unat (of_nat k :: u64) \<noteq> unat (- 1 :: u64)"
    by (simp add: no_wrap unsigned_minus_1_eq_mask mask_eq_exp_minus_1)
  then have "of_nat k \<noteq> (- 1 :: u64)"
    by auto
  then show "(if of_nat k = (- 1 :: u64) then ucast (ix_size i div entryWidth - 1)
      else ucast (of_nat k :: u64)) = (of_nat k :: u32)"
    by (simp add: ucast_u64_of_nat)
qed

lemma index_read_last_view:
  assumes view: "index_view es (i, w)" and "es \<noteq> []"
  shows "index_read (- 1) (i, w) = (Inr (last es), (i, w))"
proof -
  obtain n where n: "length es = Suc n"
    using assms(2) by (cases es) auto
  have "unat (ix_size i) div 12 = length es" "length es \<le> 2 ^ 32"
    using view by (auto elim: index_viewE)
  then have "ix_size i div entryWidth = of_nat (length es)"
    by (simp add: word_unat_eq_iff unat_div no_wrap)
  then have "ix_size i div entryWidth - 1 = (of_nat n :: u64)"
    by (simp add: n)
  then have "index_read (- 1) (i, w) = (Inr (es ! n), (i, w))"
    by (intro index_read_at [OF view]) (simp_all add: n ucast_u64_of_nat)
  then show ?thesis
    using assms(2) n by (simp add: last_conv_nth)
qed

lemmas index_read_rep = index_read_view [OF index_rep_view]
  and index_read_last = index_read_last_view [OF index_rep_view]

lemma index_write_rep:
  assumes rep: "index_rep m es (i, w)" and room: "(length es + 1) * 12 \<le> m" "length es < 2 ^ 32"
  obtains c where
    "index_write off pos (i, w) =
       (Inr (), (i\<lparr>ix_size := of_nat ((length es + 1) * 12)\<rparr>, fwrite_all (ix_file i) c w))"
    "index_rep m (es @ [(off, pos)])
       (i\<lparr>ix_size := of_nat ((length es + 1) * 12)\<rparr>, fwrite_all (ix_file i) c w)"
    "\<And>c'. fcontent (ix_file i) w = Some c' \<Longrightarrow> c = ientries (es @ [(off, pos)]) @ drop ((length es + 1) * 12) c'"
proof -
  obtain c where c: "f_open (ix_file i)" "healthy w" "ix_mapped i" "ix_maplen i = m" "0 < m" "m < 2 ^ 63"
      "ix_size i = of_nat (length es * 12)"
      "fcontent (ix_file i) w = Some c" "length c = m" "take (length es * 12) c = ientries es"
    using rep by (rule index_repE)
  let ?n = "length es * 12"
  let ?c1 = "ientries es @ put_uint32 off @ drop (?n + 4) c"
  let ?c2 = "ientries es @ ientry (off, pos) @ drop (?n + 12) c"
  have u: "unat (of_nat ?n :: u64) = ?n" "unat (of_nat (?n + 4) :: u64) = ?n + 4"
      "unat (of_nat (?n + 12) :: u64) = ?n + 12" "unat (of_nat m :: u64) = m"
    using room(1) c(6) by (simp_all add: no_wrap del: of_nat_add of_nat_mult)
  have p: "(of_nat ?n :: u64) + offWidth = of_nat (?n + 4)" "(of_nat ?n :: u64) + entryWidth = of_nat (?n + 12)"
    by (simp_all add: offWidth_def)
  have s1: "mmap_store (of_nat ?n) (of_nat (?n + 4)) (put_uint32 off) (i, w) =
      (Inr (), (i, fwrite_all (ix_file i) ?c1 w))"
    using c room(1) u by (simp add: mmap_store_def word_le_nat_alt)
  have s2: "mmap_store (of_nat (?n + 4)) (of_nat (?n + 12)) (put_uint64 pos) (i, fwrite_all (ix_file i) ?c1 w) =
      (Inr (), (i, fwrite_all (ix_file i) ?c2 w))"
    using c room(1) u by (simp add: mmap_store_def word_le_nat_alt ientry_def add.commute)
  have full: "\<not> of_nat m < (of_nat (?n + 12) :: u64)"
    using room(1) u by (simp add: word_less_nat_alt)
  show ?thesis
  proof (rule that [of ?c2])
    show "index_write off pos (i, w) =
        (Inr (), (i\<lparr>ix_size := of_nat ((length es + 1) * 12)\<rparr>, fwrite_all (ix_file i) ?c2 w))"
      using s1 s2 full unfolding index_write_def get_st_def bnd_def
      by (simp add: Let_def c(4,7) p prog_simps del: of_nat_add of_nat_mult entryWidth_simp)
        (simp add: ac_simps)
    show "index_rep m (es @ [(off, pos)])
       (i\<lparr>ix_size := of_nat ((length es + 1) * 12)\<rparr>, fwrite_all (ix_file i) ?c2 w)"
      using c room by (simp add: index_rep_def)
    show "?c2 = ientries (es @ [(off, pos)]) @ drop ((length es + 1) * 12) c'" if "fcontent (ix_file i) w = Some c'" for c'
      using that c(8) by (simp add: ac_simps)
  qed
qed

lemma index_write_ex:
  assumes "index_rep m es x" and "(length es + 1) * 12 \<le> m" "length es < 2 ^ 32"
  shows "\<exists>y. index_write off pos x = (Inr (), y) \<and> index_rep m (es @ [(off, pos)]) y"
proof (cases x)
  case (Pair i w)
  show ?thesis
    using assms unfolding Pair by (rule index_write_rep [of _ _ _ _ off pos]) blast
qed

lemma index_write_full:
  assumes rep: "index_rep m es (i, w)" and full: "m < length es * 12 + 12"
  shows "index_write off pos (i, w) = (Inl (Error EOF), (i, w))"
proof -
  obtain c where c: "ix_maplen i = m" "m < 2 ^ 63" "length es * 12 \<le> m" "ix_size i = of_nat (length es * 12)"
    using rep by (rule index_repE)
  have "(of_nat (length es * 12) :: u64) + entryWidth = of_nat (length es * 12 + 12)"
    by simp
  then have "of_nat m < ix_size i + entryWidth"
    using full c(2,3) by (simp add: c(4) word_less_nat_alt no_wrap del: of_nat_add of_nat_mult entryWidth_simp)
  then show ?thesis
    by (simp add: index_write_def prog_simps Let_def c(1) del: entryWidth_simp)
qed

lemma index_close_rep:
  assumes rep: "index_rep m es (i, w)"
  shows "index_close (i, w) = (Inr (), (i\<lparr>ix_mapped := False, ix_file := (ix_file i)\<lparr>f_open := False\<rparr>\<rparr>,
      fwrite_all (ix_file i) (ientries es) w))"
proof -
  obtain c where c: "f_open (ix_file i)" "healthy w" "ix_mapped i" "ix_maplen i = m" "0 < m" "m < 2 ^ 63"
      "length es * 12 \<le> m" "ix_size i = of_nat (length es * 12)"
      "fcontent (ix_file i) w = Some c" "length c = m" "take (length es * 12) c = ientries es"
    using rep by (rule index_repE)
  have "sint (ix_size i) = int (length es * 12)"
    using c(6,7) unfolding c(8) by (subst sint_u64_nonneg) (simp_all add: no_wrap del: of_nat_mult)
  then show ?thesis
    using c by (simp add: index_close_def msync_def munmap_def prog_simps files_healthy resize_shrink
        del: of_nat_mult)
qed

lemma newIndex_rep:
  assumes f: "f_open f" "healthy w" "fcontent f w = Some (ientries es)"
    and m: "0 < unat maxb" "unat maxb < 2 ^ 63" "length es * 12 \<le> unat maxb" "length es \<le> 2 ^ 32"
  defines "i \<equiv> \<lparr>ix_file = f, ix_maplen = unat maxb, ix_mapped = True, ix_size = of_nat (length es * 12)\<rparr>"
    and "w' \<equiv> fwrite_all f (resize (unat maxb) (ientries es)) w"
  shows "newIndex f maxb w = (Inr i, w')" and "index_rep (unat maxb) es (i, w')"
proof -
  have s: "sint maxb = int (unat maxb)"
    using m(2) by (rule sint_u64_nonneg)
  have c: "fcontent f w' = Some (resize (unat maxb) (ientries es))" "healthy w'"
    using f by (simp_all add: w'_def)
  have "file_truncate f (sint maxb) w = (Inr (), w')"
    using f by (simp add: file_truncate_healthy s w'_def)
  moreover have "0 < sint maxb"
    using m(1) unfolding s of_nat_0_less_iff .
  then have "file_mmap f (sint maxb) w' = (Inr (), w')"
    using f(1) c by (intro file_mmap_healthy)
  ultimately show "newIndex f maxb w = (Inr i, w')"
    using f by (simp add: newIndex_def prog_simps file_size_healthy i_def)
  show "index_rep (unat maxb) es (i, w')"
    using f(1) m c by (simp add: index_rep_def i_def resize_pad)
qed

text \<open>Reading an entry changes nothing.\<close>

lemma keeps_mmap_load: "keeps I (mmap_load lo hi)"
  by (rule keepsI) (auto simp: mmap_load_def split: if_splits option.splits)

lemma keeps_index_read: "keeps I (index_read i)"
  unfolding index_read_def by (intro keeps_intros keeps_mmap_load)

lemma index_read_world: "index_read i (x, w) = (r, (x', w')) \<Longrightarrow> x' = x \<and> w' = w"
  using keepsD [OF keeps_index_read [of "(=) (x, w)"], of i "(x, w)" r "(x', w')"] by simp

section \<open>Properties\<close>

text \<open>
  While there is room, writing an entry makes it the last one, keeps every entry before
  it, and each of them is read back by its number.
\<close>

theorem index_write_then_read:
  assumes "index_rep m es x" and "(length es + 1) * 12 \<le> m" and "length es < 2 ^ 32"
  shows "\<exists>y. index_write off pos x = (Inr (), y) \<and> index_rep m (es @ [(off, pos)]) y \<and>
    index_read (- 1) y = (Inr (off, pos), y) \<and>
    (\<forall>k \<le> length es. index_read (of_nat k) y = (Inr ((es @ [(off, pos)]) ! k), y))"
proof -
  obtain i w where y: "index_write off pos x = (Inr (), (i, w))" "index_rep m (es @ [(off, pos)]) (i, w)"
    using index_write_ex [OF assms] by fastforce
  then show ?thesis
    using index_read_last [OF y(2)] index_read_rep [OF y(2)] by auto
qed

definition demo_index :: "index \<times> os" where
  "demo_index =
     (\<lparr>ix_file = \<lparr>f_dir = ''d'', f_name = ''0.index'', f_open = True\<rparr>, ix_maplen = 30, ix_mapped = True,
        ix_size = 0\<rparr>,
      \<lparr>os_dirs = [''d'' \<mapsto> [(''0.index'', replicate 30 0)]], os_faults = []\<rparr>)"

lemma demo_index_rep: "index_rep 30 [] demo_index"
  by (simp add: index_rep_def demo_index_def fget_def)

theorem index_write_then_read_witness:
  "\<exists>y. index_write 0 17 demo_index = (Inr (), y) \<and> index_read (- 1) y = (Inr (0, 17), y) \<and>
     index_read 0 y = (Inr (0, 17), y)"
  using index_write_then_read [OF demo_index_rep, of 0 17] by auto

text \<open>
  A write that does not fit the mapping is refused with \<open>io.EOF\<close> and changes nothing, and
  so is a read of an entry that is not there.
\<close>

theorem index_bounds:
  assumes "index_rep m es (i, w)"
  shows "(m < (length es + 1) * 12 \<longrightarrow> index_write off pos (i, w) = (Inl (Error EOF), (i, w))) \<and>
    (length es \<le> k \<and> k < 2 ^ 32 \<longrightarrow> index_read (of_nat k) (i, w) = (Inl (Error EOF), (i, w))) \<and>
    (es = [] \<longrightarrow> index_read (- 1) (i, w) = (Inl (Error EOF), (i, w)))"
proof (intro conjI impI)
  assume "m < (length es + 1) * 12"
  then show "index_write off pos (i, w) = (Inl (Error EOF), (i, w))"
    by (intro index_write_full [OF assms]) simp
next
  assume k: "length es \<le> k \<and> k < 2 ^ 32"
  obtain c where c: "length es * 12 \<le> m" "m < 2 ^ 63" "ix_size i = of_nat (length es * 12)"
    using assms by (rule index_repE)
  have "unat (of_nat k :: u64) \<noteq> unat (- 1 :: u64)"
    using k by (simp add: no_wrap unsigned_minus_1_eq_mask mask_eq_exp_minus_1)
  then have "of_nat k \<noteq> (- 1 :: u64)"
    by auto
  moreover have "ucast (of_nat k :: u32) * entryWidth + entryWidth = (of_nat (k * 12 + 12) :: u64)"
    using k by (subst ucast_u32_of_nat) simp_all
  moreover have "ix_size i < of_nat (k * 12 + 12)"
    unfolding c(3) using k c(1,2) by (simp add: word_less_nat_alt no_wrap del: of_nat_add of_nat_mult)
  ultimately show "index_read (of_nat k) (i, w) = (Inl (Error EOF), (i, w))"
    unfolding index_read_def get_st_def bnd_def
    by (simp add: Let_def ucast_u64_of_nat prog_simps del: of_nat_add of_nat_mult entryWidth_simp)
next
  assume "es = []"
  then show "index_read (- 1) (i, w) = (Inl (Error EOF), (i, w))"
    using assms by (auto elim!: index_repE simp: index_read_def prog_simps)
qed

theorem index_bounds_witness:
  "index_read 5 demo_index = (Inl (Error EOF), demo_index) \<and>
   index_read (- 1) demo_index = (Inl (Error EOF), demo_index)"
  using index_bounds [of 30 "[]" "fst demo_index" "snd demo_index" _ _ 5] demo_index_rep by simp

text \<open>
  C25: closing an index and opening its file again, also with another limit that still fits,
  gives back the same entries.
\<close>

theorem index_close_reopen:
  assumes "index_rep m es (i, w)"
    and "0 < unat maxb" "unat maxb < 2 ^ 63" "length es * 12 \<le> unat maxb"
  shows "\<exists>i' w' j v. index_close (i, w) = (Inr (), (i', w')) \<and>
    newIndex (ix_file i) maxb w' = (Inr j, v) \<and> index_rep (unat maxb) es (j, v)"
proof -
  obtain c where "f_open (ix_file i)" "healthy w" "fcontent (ix_file i) w = Some c" "length es \<le> 2 ^ 32"
    using assms(1) by (rule index_repE)
  then show ?thesis
    using index_close_rep [OF assms(1)] newIndex_rep [of "ix_file i" "fwrite_all (ix_file i) (ientries es) w" es maxb]
      assms(2-4)
    by simp
qed

theorem index_close_reopen_witness:
  "\<exists>y i' w' j v. index_write 0 17 demo_index = (Inr (), y) \<and>
     index_close y = (Inr (), (i', w')) \<and> newIndex (ix_file (fst y)) 24 w' = (Inr j, v) \<and>
     index_read (- 1) (j, v) = (Inr (0, 17), (j, v))"
proof -
  obtain y where y: "index_write 0 17 demo_index = (Inr (), y)" "index_rep 30 [(0, 17)] y"
    using index_write_ex [OF demo_index_rep, of 0 17] by auto
  then have "index_rep 30 [(0, 17)] (fst y, snd y)" by simp
  from index_close_reopen [OF this, of 24] y(1) show ?thesis
    using index_read_last [of 24 "[(0, 17)]"] by auto
qed

text \<open>Behind the entries the mapping holds zeros.\<close>

definition zero_tail :: "(u32 \<times> u64) list \<Rightarrow> index \<times> os \<Rightarrow> bool" where
  "zero_tail es = (\<lambda>(i, w). fcontent (ix_file i) w = Some (ientries es @ replicate (ix_maplen i - length es * 12) 0))"

lemma index_write_zero_tail:
  assumes rep: "index_rep m es (i, w)" and tail: "zero_tail es (i, w)" and room: "(length es + 1) * 12 \<le> m" "length es < 2 ^ 32"
  shows "\<exists>i' w'. index_write off pos (i, w) = (Inr (), (i', w')) \<and> ix_file i' = ix_file i \<and>
    index_rep m (es @ [(off, pos)]) (i', w') \<and> zero_tail (es @ [(off, pos)]) (i', w')"
proof -
  obtain c where c: "index_write off pos (i, w) =
       (Inr (), (i\<lparr>ix_size := of_nat ((length es + 1) * 12)\<rparr>, fwrite_all (ix_file i) c w))"
    "index_rep m (es @ [(off, pos)]) (i\<lparr>ix_size := of_nat ((length es + 1) * 12)\<rparr>, fwrite_all (ix_file i) c w)"
    "\<And>c'. fcontent (ix_file i) w = Some c' \<Longrightarrow> c = ientries (es @ [(off, pos)]) @ drop ((length es + 1) * 12) c'"
    using index_write_rep [OF rep room] by blast
  have "c = ientries (es @ [(off, pos)]) @ replicate (ix_maplen i - (length es + 1) * 12) 0"
    using c(3) tail by (simp add: zero_tail_def)
  then have "zero_tail (es @ [(off, pos)]) (i\<lparr>ix_size := of_nat ((length es + 1) * 12)\<rparr>, fwrite_all (ix_file i) c w)"
    using tail by (simp add: zero_tail_def)
  with c(1,2) show ?thesis by fastforce
qed

lemma index_writes_zero_tail:
  assumes "index_rep m es (i, w)" and "zero_tail es (i, w)" and "length (es @ fs) * 12 \<le> m" "length (es @ fs) \<le> 2 ^ 32"
  shows "\<exists>i' w'. prog_iter (\<lambda>(off, pos). index_write off pos) fs (i, w) = (Inr (), (i', w')) \<and> ix_file i' = ix_file i \<and>
    index_rep m (es @ fs) (i', w') \<and> zero_tail (es @ fs) (i', w')"
  using assms
proof (induction fs arbitrary: es i w)
  case (Cons e fs)
  obtain i' w' where w: "index_write (fst e) (snd e) (i, w) = (Inr (), (i', w'))" "ix_file i' = ix_file i"
      "index_rep m (es @ [e]) (i', w')" "zero_tail (es @ [e]) (i', w')"
    using index_write_zero_tail [OF Cons.prems(1,2), of "fst e" "snd e"] Cons.prems(3,4) by auto
  then show ?case
    using Cons.IH [OF w(3,4)] Cons.prems(3,4) by (simp add: prog_simps split_beta)
qed (simp add: prog_simps)

lemma ientries_zeros: "ientries (replicate n (0, 0)) = replicate (n * 12) 0"
  by (induction n) (simp_all add: ientries_def ientry_def put_uint32_def put_uint64_def replicate_add [symmetric] eval_nat_numeral)

lemma newIndex_again:
  assumes rep: "index_rep (unat maxb) es (i, w)" and tail: "zero_tail es (i, w)" and cap: "unat maxb div 12 \<le> 2 ^ 32"
  defines "j \<equiv> \<lparr>ix_file = ix_file i, ix_maplen = unat maxb, ix_mapped = True, ix_size = maxb\<rparr>"
  shows "newIndex (ix_file i) maxb w = (Inr j, w)" and "index_view (es @ replicate (unat maxb div 12 - length es) (0, 0)) (j, w)"
proof -
  obtain c where c: "f_open (ix_file i)" "healthy w" "0 < unat maxb" "unat maxb < 2 ^ 63" "ix_maplen i = unat maxb"
      "length es * 12 \<le> unat maxb" "fcontent (ix_file i) w = Some c" "length c = unat maxb"
    using rep by (rule index_repE)
  have s: "sint maxb = int (unat maxb)"
    using c(4) by (rule sint_u64_nonneg)
  have "file_truncate (ix_file i) (sint maxb) w = (Inr (), w)"
    using c by (simp add: file_truncate_healthy s resize_shrink fput_same)
  moreover have "0 < sint maxb"
    using c(3) unfolding s of_nat_0_less_iff .
  then have "file_mmap (ix_file i) (sint maxb) w = (Inr (), w)"
    using c by (intro file_mmap_healthy)
  ultimately show "newIndex (ix_file i) maxb w = (Inr j, w)"
    using c by (simp add: newIndex_def prog_simps file_size_healthy j_def)
  let ?z = "replicate (unat maxb div 12 - length es) (0, 0) :: (u32 \<times> u64) list"
  have "length (es @ ?z) = unat maxb div 12"
    using c(6) by simp
  moreover have "take ((unat maxb div 12) * 12) c = ientries (es @ ?z)"
    using tail c by (simp add: zero_tail_def ientries_zeros diff_mult_distrib min_def)
  ultimately show "index_view (es @ ?z) (j, w)"
    using c cap by (simp add: index_view_def j_def)
qed

text \<open>
  C26: an index that was not closed is taken for a full one. A file of entries is opened and
  entries are written while they fit; then the process stops without \<open>Close\<close>, and the file is
  opened again with the same limit. The size of the index is the limit, so no entry can be written
  any more. The entries are still read by their numbers, but behind them are zero entries up to the
  limit, so that \<open>Read(-1)\<close>, from which a segment takes its next offset, returns a zero entry
  unless the index really was full.
\<close>

theorem index_after_crash:
  assumes "f_open f" and "healthy w" and "fcontent f w = Some (ientries es)"
    and "0 < unat maxb" and "unat maxb < 2 ^ 63" and "unat maxb div 12 \<le> 2 ^ 32" and "length (es @ fs) \<le> unat maxb div 12"
  shows "\<exists>i w1 i2 w2 j v. newIndex f maxb w = (Inr i, w1) \<and>
    prog_iter (\<lambda>(off, pos). index_write off pos) fs (i, w1) = (Inr (), (i2, w2)) \<and>
    newIndex f maxb w2 = (Inr j, v) \<and> ix_size j = maxb \<and>
    (\<forall>off pos. index_write off pos (j, v) = (Inl (Error EOF), (j, v))) \<and>
    (\<forall>k < unat maxb div 12. index_read (of_nat k) (j, v) = (Inr (if k < length (es @ fs) then (es @ fs) ! k else (0, 0)), (j, v))) \<and>
    (12 \<le> unat maxb \<longrightarrow>
       index_read (- 1) (j, v) = (Inr (if length (es @ fs) = unat maxb div 12 then last (es @ fs) else (0, 0)), (j, v)))"
proof -
  let ?n = "unat maxb div 12" and ?z = "\<lambda>n. replicate n (0, 0) :: (u32 \<times> u64) list"
  have "length (es @ fs) * 12 \<le> unat maxb" and len: "length (es @ fs) \<le> 2 ^ 32"
    using assms(6,7) div_times_less_eq_dividend [of "unat maxb" 12] by linarith+
  moreover define i where "i = \<lparr>ix_file = f, ix_maplen = unat maxb, ix_mapped = True, ix_size = of_nat (length es * 12)\<rparr>"
  moreover define w1 where "w1 = fwrite_all f (resize (unat maxb) (ientries es)) w"
  moreover have new: "newIndex f maxb w = (Inr i, w1)" "index_rep (unat maxb) es (i, w1)"
    unfolding i_def w1_def using newIndex_rep [OF assms(1-5)] calculation(1,2) by simp_all
  moreover have "zero_tail es (i, w1)"
    using calculation(1) assms(3) by (simp add: zero_tail_def i_def w1_def resize_pad)
  ultimately obtain i2 w2 where wr: "prog_iter (\<lambda>(off, pos). index_write off pos) fs (i, w1) = (Inr (), (i2, w2))"
      "ix_file i2 = f" "index_rep (unat maxb) (es @ fs) (i2, w2)" "zero_tail (es @ fs) (i2, w2)"
    using index_writes_zero_tail [OF new(2), of fs] by auto
  define j where "j = \<lparr>ix_file = f, ix_maplen = unat maxb, ix_mapped = True, ix_size = maxb\<rparr>"
  let ?all = "(es @ fs) @ ?z (?n - length (es @ fs))"
  have again: "newIndex f maxb w2 = (Inr j, w2)" and view: "index_view ?all (j, w2)"
    using newIndex_again [OF wr(3,4) assms(6)] wr(2) by (simp_all add: j_def)
  have all: "length ?all = ?n"
    using assms(7) by simp
  have "index_write off pos (j, w2) = (Inl (Error EOF), (j, w2))" for off pos
  proof -
    have "maxb < maxb + entryWidth"
      using assms(5) by (simp add: word_less_nat_alt unat_word_ariths take_bit_nat_eq_self)
    then show ?thesis
      by (simp add: index_write_def prog_simps Let_def j_def del: entryWidth_simp)
  qed
  moreover have "index_read (of_nat k) (j, w2) = (Inr (if k < length (es @ fs) then (es @ fs) ! k else (0, 0)), (j, w2))" if "k < ?n" for k
  proof -
    have "?all ! k = (if k < length (es @ fs) then (es @ fs) ! k else (0, 0))"
      using that assms(7) by (subst nth_append) (simp del: length_append)
    then show ?thesis
      using index_read_view [OF view, of k] that all by simp
  qed
  moreover have "index_read (- 1) (j, w2) = (Inr (if length (es @ fs) = ?n then last (es @ fs) else (0, 0)), (j, w2))" if "12 \<le> unat maxb"
  proof -
    have "?all \<noteq> []"
      using that all by (metis div_greater_zero_iff length_greater_0_conv zero_less_numeral)
    then show ?thesis
      using index_read_last_view [OF view] assms(7) by (auto simp: last_append)
  qed
  ultimately show ?thesis
    using new(1) wr(1) again by (intro exI [of _ i] exI [of _ w1] exI [of _ i2] exI [of _ w2] exI [of _ j]) (simp add: j_def)
qed

theorem index_after_crash_witness:
  "\<exists>i w1 i2 w2 j v. newIndex (ix_file (fst demo_index)) 30 (fwrite_all (ix_file (fst demo_index)) [] (snd demo_index)) = (Inr i, w1) \<and>
     prog_iter (\<lambda>(off, pos). index_write off pos) [(0, 17)] (i, w1) = (Inr (), (i2, w2)) \<and>
     newIndex (ix_file (fst demo_index)) 30 w2 = (Inr j, v) \<and>
     index_write 1 40 (j, v) = (Inl (Error EOF), (j, v)) \<and> index_read 0 (j, v) = (Inr (0, 17), (j, v)) \<and>
     index_read (- 1) (j, v) = (Inr (0, 0), (j, v))"
proof -
  let ?f = "ix_file (fst demo_index)" and ?w = "fwrite_all (ix_file (fst demo_index)) [] (snd demo_index)"
  have "f_open ?f" "healthy ?w" "fcontent ?f ?w = Some (ientries [])"
    using demo_index_rep by (auto simp: index_rep_def split_beta)
  from index_after_crash [OF this, of 30 "[(0, 17)]"] show ?thesis
    by (auto simp del: ientries_Nil) fastforce
qed

end
