(* ===== verification/FileNames.thy ===== *)
theory FileNames
  imports Prelude
begin

text \<open>
  The names of the segment files. A segment writes \<open>%d.store\<close> and \<open>%d.index\<close>
  (\<open>internal/log/segment.go\<close>), and \<open>Log.setup\<close> reads the base offsets back from the
  directory (\<open>internal/log/log.go\<close>).
\<close>

section \<open>Printing and parsing offsets\<close>

definition digit :: "nat \<Rightarrow> char" where
  "digit n = char_of (48 + n)"

fun show_nat :: "nat \<Rightarrow> string" where
  "show_nat n = (if n < 10 then [digit n] else show_nat (n div 10) @ [digit (n mod 10)])"

declare show_nat.simps [simp del]

definition store_file_name :: "u64 \<Rightarrow> string" where
  "store_file_name base = show_nat (unat base) @ ''.store''"

definition index_file_name :: "u64 \<Rightarrow> string" where
  "index_file_name base = show_nat (unat base) @ ''.index''"

text \<open>\<open>path.Ext\<close> (with its dot) and \<open>strings.TrimSuffix\<close> of it.\<close>

definition path_ext :: "string \<Rightarrow> string" where
  "path_ext s =
     (let t = takeWhile (\<lambda>c. c \<noteq> CHR ''.'' \<and> c \<noteq> CHR ''/'') (rev s) in
      case drop (length t) (rev s) of
        [] \<Rightarrow> []
      | c # _ \<Rightarrow> if c = CHR ''.'' then c # rev t else [])"

definition trim_suffix :: "string \<Rightarrow> string \<Rightarrow> string" where
  "trim_suffix s suf =
     (if length suf \<le> length s \<and> drop (length s - length suf) s = suf
      then take (length s - length suf) s else s)"

text \<open>
  The value that \<open>strconv.ParseUint(s, 10, 0)\<close> returns, its error ignored as the source does:
  zero for a string that is not a number, the largest value for one that is too large.
\<close>

definition is_digit :: "char \<Rightarrow> bool" where
  "is_digit c \<longleftrightarrow> 48 \<le> (of_char c :: nat) \<and> (of_char c :: nat) \<le> 57"

fun parse_digits :: "nat \<Rightarrow> string \<Rightarrow> nat" where
  "parse_digits n [] = n"
| "parse_digits n (c # cs) =
     (if \<not> is_digit c then 0
      else let m = n * 10 + (of_char c - 48) in
        if m > 2 ^ 64 - 1 then 2 ^ 64 - 1 else parse_digits m cs)"

definition parse_uint :: "string \<Rightarrow> u64" where
  "parse_uint s = (if s = [] then 0 else of_nat (parse_digits 0 s))"

definition base_offset_of :: "string \<Rightarrow> u64" where
  "base_offset_of name = parse_uint (trim_suffix name (path_ext name))"

section \<open>Round trip\<close>

lemma of_char_digit [simp]: "n < 10 \<Longrightarrow> of_char (digit n) = 48 + n"
  by (simp add: digit_def)

lemma is_digit_digit [simp]: "n < 10 \<Longrightarrow> is_digit (digit n)"
  by (simp add: is_digit_def)

lemma show_nat_digits: "\<forall>c \<in> set (show_nat n). is_digit c"
proof (induction n rule: show_nat.induct)
  case (1 n)
  then show ?case by (cases "n < 10") (auto simp: show_nat.simps [of n])
qed

lemma show_nat_nonempty [simp]: "show_nat n \<noteq> []"
  by (subst show_nat.simps) simp

lemma parse_digits_show:
  "n < 2 ^ 64 \<Longrightarrow> parse_digits 0 (show_nat n @ cs) = parse_digits n cs"
proof (induction n arbitrary: cs rule: show_nat.induct)
  case (1 n)
  show ?case
  proof (cases "n < 10")
    case True
    then show ?thesis by (simp add: show_nat.simps [of n])
  next
    case False
    have "parse_digits 0 (show_nat (n div 10) @ digit (n mod 10) # cs) =
        parse_digits (n div 10) (digit (n mod 10) # cs)"
      using "1.IH" [OF False, of "digit (n mod 10) # cs"] "1.prems" by simp
    also have "\<dots> = parse_digits n cs"
    proof -
      have "n div 10 * 10 + n mod 10 = n"
        by presburger
      then show ?thesis
        using "1.prems" by (simp add: Let_def)
    qed
    finally show ?thesis
      using False by (simp add: show_nat.simps [of n])
  qed
qed

lemma parse_uint_show [simp]: "parse_uint (show_nat (unat (b :: u64))) = b"
  using parse_digits_show [of "unat b" "[]"] unat_u64_less [of b] by (simp add: parse_uint_def)

lemma trim_ext:
  assumes "CHR ''.'' \<notin> set e" and "CHR ''/'' \<notin> set e"
  shows "trim_suffix (s @ CHR ''.'' # e) (path_ext (s @ CHR ''.'' # e)) = s"
proof -
  have "takeWhile (\<lambda>c. c \<noteq> CHR ''.'' \<and> c \<noteq> CHR ''/'') (rev e @ CHR ''.'' # rev s) = rev e"
    using assms by (subst takeWhile_append2) auto
  then have "path_ext (s @ CHR ''.'' # e) = CHR ''.'' # e"
    by (simp add: path_ext_def)
  then show ?thesis
    by (simp add: trim_suffix_def)
qed

lemma base_offset_of_store [simp]: "base_offset_of (store_file_name b) = b"
  and base_offset_of_index [simp]: "base_offset_of (index_file_name b) = b"
  using trim_ext [of "''store''" "show_nat (unat b)"] trim_ext [of "''index''" "show_nat (unat b)"]
  by (simp_all add: base_offset_of_def store_file_name_def index_file_name_def)

lemma store_file_name_inject [simp]: "store_file_name a = store_file_name b \<longleftrightarrow> a = b"
  using base_offset_of_store by metis

lemma index_file_name_inject [simp]: "index_file_name a = index_file_name b \<longleftrightarrow> a = b"
  using base_offset_of_index by metis

lemma store_index_file_name [simp]:
  "store_file_name a \<noteq> index_file_name b" "index_file_name b \<noteq> store_file_name a"
proof -
  have "last (butlast (store_file_name a)) \<noteq> last (butlast (index_file_name b))"
    by (simp add: store_file_name_def index_file_name_def butlast_append)
  then show "store_file_name a \<noteq> index_file_name b" "index_file_name b \<noteq> store_file_name a"
    by auto
qed

section \<open>Properties\<close>

text \<open>
  C27: the base offset that \<open>setup\<close> reads from the name of a store or index file is the base
  offset of the segment that created the file, for every 64-bit offset, and no two segments
  share a file.
\<close>

theorem file_name_roundtrip:
  "base_offset_of (store_file_name a) = a \<and> base_offset_of (index_file_name a) = a \<and>
   (store_file_name a = store_file_name b \<longleftrightarrow> a = b) \<and>
   (index_file_name a = index_file_name b \<longleftrightarrow> a = b) \<and>
   store_file_name a \<noteq> index_file_name b"
  by simp

end
