(* ===== verification/Segment.thy ===== *)
theory Segment
  imports Store Index FileNames
begin

text \<open>
  A segment, \<open>internal/log/segment.go\<close>: a store and the index over it, for the records from a
  base offset on.
\<close>

section \<open>Records and configuration\<close>

text \<open>\<open>logv1.Record\<close> of \<open>gen/log/v1/log.pb.go\<close>.\<close>

record log_record =
  r_value :: bytes
  r_offset :: u64
  r_term :: u64
  r_type :: u32

text \<open>
  \<open>proto.Marshal\<close> and \<open>proto.Unmarshal\<close> are not part of the repository: they are a parameter
  of the model. What the log relies on is that what was marshalled is unmarshalled to the same
  record.
\<close>

record codec =
  c_marshal :: "log_record \<Rightarrow> goerr + bytes"
  c_unmarshal :: "bytes \<Rightarrow> goerr + log_record"

definition codec_ok :: "codec \<Rightarrow> bool" where
  "codec_ok cdc \<longleftrightarrow> (\<forall>r p. c_marshal cdc r = Inr p \<longrightarrow> c_unmarshal cdc p = Inr r)"

text \<open>The \<open>Segment\<close> part of \<open>internal/log/config.go\<close>.\<close>

record seg_config =
  MaxStoreBytes :: u64
  MaxIndexBytes :: u64
  InitialOffset :: u64

section \<open>The segment\<close>

record segment =
  sg_store :: store
  sg_index :: index
  baseOffset :: u64
  nextOffset :: u64
  sg_config :: seg_config

definition on_store :: "(store \<times> os, 'a) prog \<Rightarrow> (segment \<times> os, 'a) prog" where
  "on_store m = (\<lambda>(s, w). case m (sg_store s, w) of (r, (st, w')) \<Rightarrow> (r, (s\<lparr>sg_store := st\<rparr>, w')))"

definition on_index :: "(index \<times> os, 'a) prog \<Rightarrow> (segment \<times> os, 'a) prog" where
  "on_index m = (\<lambda>(s, w). case m (sg_index s, w) of (r, (ix, w')) \<Rightarrow> (r, (s\<lparr>sg_index := ix\<rparr>, w')))"

definition newSegment :: "string \<Rightarrow> u64 \<Rightarrow> seg_config \<Rightarrow> (os, segment) prog" where
  "newSegment dir base c =
     bnd (wrapf ''open store'' (open_file dir (store_file_name base))) (\<lambda>storeFile.
     bnd (wrapf ''new store'' (newStore storeFile)) (\<lambda>st.
     bnd (wrapf ''open index'' (open_file dir (index_file_name base))) (\<lambda>indexFile.
     bnd (wrapf ''new index'' (newIndex indexFile (MaxIndexBytes c))) (\<lambda>ix w.
       case index_read (- 1) (ix, w) of
         (Inl (Panic p), (_, w')) \<Rightarrow> (Inl (Panic p), w')
       | (Inl (Error _), (ix', w')) \<Rightarrow>
           (Inr \<lparr>sg_store = st, sg_index = ix', baseOffset = base, nextOffset = base, sg_config = c\<rparr>, w')
       | (Inr (off, _), (ix', w')) \<Rightarrow>
           (Inr \<lparr>sg_store = st, sg_index = ix', baseOffset = base,
              nextOffset = base + ucast off + 1, sg_config = c\<rparr>, w')))))"

text \<open>
  The argument is a pointer, which may be nil. The source writes the offset into the caller's
  record; no caller of the repository reads it there, so the model returns the offset only.
\<close>

definition segment_append :: "codec \<Rightarrow> log_record option \<Rightarrow> (segment \<times> os, u64) prog" where
  "segment_append cdc record = bnd get_st (\<lambda>(s, _). let cur = nextOffset s in
     case record of
       None \<Rightarrow> fail (Panic NilDereference)
     | Some r \<Rightarrow> (case c_marshal cdc (r\<lparr>r_offset := cur\<rparr>) of
         Inl e \<Rightarrow> fail (Error e)
       | Inr p \<Rightarrow> bnd (on_store (store_append p)) (\<lambda>(_, pos).
           andthen (on_index (index_write (ucast (nextOffset s - baseOffset s)) pos))
             (andthen (upd_st (\<lambda>(s, w). (s\<lparr>nextOffset := nextOffset s + 1\<rparr>, w)))
               (ret cur)))))"

definition segment_read :: "codec \<Rightarrow> u64 \<Rightarrow> (segment \<times> os, log_record) prog" where
  "segment_read cdc off = bnd get_st (\<lambda>(s, _).
     bnd (on_index (index_read (off - baseOffset s))) (\<lambda>(_, pos).
     bnd (on_store (store_read pos)) (\<lambda>p.
       case c_unmarshal cdc p of Inl e \<Rightarrow> fail (Error e) | Inr r \<Rightarrow> ret r)))"

definition IsMaxed :: "segment \<Rightarrow> bool" where
  "IsMaxed s \<longleftrightarrow> st_size (sg_store s) \<ge> MaxStoreBytes (sg_config s) \<or>
     ix_size (sg_index s) \<ge> MaxIndexBytes (sg_config s)"

definition segment_close :: "(segment \<times> os, unit) prog" where
  "segment_close = andthen (on_index index_close) (on_store store_close)"

definition segment_remove :: "(segment \<times> os, unit) prog" where
  "segment_remove = andthen segment_close (bnd get_st (\<lambda>(s, _).
     andthen (on_os (remove_file (f_dir (ix_file (sg_index s))) (f_name (ix_file (sg_index s)))))
       (on_os (remove_file (f_dir (st_file (sg_store s))) (f_name (st_file (sg_store s)))))))"

definition nearestMultiple :: "u64 \<Rightarrow> u64 \<Rightarrow> u64 res" where
  "nearestMultiple j k =
     (if k = 0 then Inl (Panic DivideByZero) else Inr (((j - k + 1) div k) * k))"

section \<open>What a segment holds\<close>

text \<open>The payload of a record, and that it is marshalled and unmarshalled faithfully.\<close>

definition enc :: "codec \<Rightarrow> log_record \<Rightarrow> bytes" where
  "enc cdc r = (case c_marshal cdc r of Inl _ \<Rightarrow> [] | Inr p \<Rightarrow> p)"

definition encodable :: "codec \<Rightarrow> log_record \<Rightarrow> bool" where
  "encodable cdc r \<longleftrightarrow> c_marshal cdc r = Inr (enc cdc r) \<and> c_unmarshal cdc (enc cdc r) = Inr r"

definition seg_entries :: "bytes list \<Rightarrow> (u32 \<times> u64) list" where
  "seg_entries ps = map (\<lambda>k. (of_nat k, of_nat (frame_pos ps k))) [0 ..< length ps]"

abbreviation seg_item :: "u64 \<Rightarrow> log_record list \<Rightarrow> log_record \<Rightarrow> log_record" where
  "seg_item base rs r \<equiv> r\<lparr>r_offset := base + of_nat (length rs)\<rparr>"

definition seg_rep :: "codec \<Rightarrow> string \<Rightarrow> seg_config \<Rightarrow> u64 \<Rightarrow> log_record list \<Rightarrow> segment \<times> os \<Rightarrow> bool" where
  "seg_rep cdc d c base rs = (\<lambda>(s, w).
     sg_config s = c \<and> baseOffset s = base \<and> nextOffset s = base + of_nat (length rs) \<and>
     unat base + length rs < 2 ^ 64 \<and>
     f_dir (st_file (sg_store s)) = d \<and> f_name (st_file (sg_store s)) = store_file_name base \<and>
     f_dir (ix_file (sg_index s)) = d \<and> f_name (ix_file (sg_index s)) = index_file_name base \<and>
     list_all (encodable cdc) rs \<and>
     (\<forall>k < length rs. r_offset (rs ! k) = base + of_nat k) \<and>
     store_rep (map (enc cdc) rs) (sg_store s, w) \<and>
     index_rep (unat (MaxIndexBytes c)) (seg_entries (map (enc cdc) rs)) (sg_index s, w))"

definition seg_fits :: "codec \<Rightarrow> seg_config \<Rightarrow> u64 \<Rightarrow> log_record list \<Rightarrow> log_record \<Rightarrow> bool" where
  "seg_fits cdc c base rs r \<longleftrightarrow> encodable cdc (seg_item base rs r) \<and>
     store_fits (map (enc cdc) rs) (enc cdc (seg_item base rs r)) \<and>
     (length rs + 1) * 12 \<le> unat (MaxIndexBytes c) \<and> length rs < 2 ^ 32 \<and>
     unat base + length rs + 1 < 2 ^ 64"

lemma length_seg_entries [simp]: "length (seg_entries ps) = length ps"
  by (simp add: seg_entries_def)

lemma seg_entries_snoc [simp]:
  "seg_entries (ps @ [p]) = seg_entries ps @ [(of_nat (length ps), of_nat (length (frames ps)))]"
  by (simp add: seg_entries_def)

lemma seg_entries_nth [simp]:
  "k < length ps \<Longrightarrow> seg_entries ps ! k = (of_nat k, of_nat (frame_pos ps k))"
  by (simp add: seg_entries_def)

text \<open>Writing to another file does not disturb a store, an index or a segment.\<close>

lemma store_rep_frame:
  "(f_dir (st_file s), f_name (st_file s)) \<noteq> (d, n) \<Longrightarrow>
     store_rep ps (s, fput d n c w) \<longleftrightarrow> store_rep ps (s, w)"
  by (auto simp: store_rep_def writes_to_def)

lemma index_rep_frame:
  "(f_dir (ix_file i), f_name (ix_file i)) \<noteq> (d, n) \<Longrightarrow>
     index_rep m es (i, fput d n c w) \<longleftrightarrow> index_rep m es (i, w)"
  by (auto simp: index_rep_def)

lemma seg_rep_frame:
  "d' \<noteq> d \<or> (n \<noteq> store_file_name base \<and> n \<noteq> index_file_name base) \<Longrightarrow>
     seg_rep cdc d c base rs (s, fput d' n x w) \<longleftrightarrow> seg_rep cdc d c base rs (s, w)"
  by (auto simp: seg_rep_def store_rep_frame index_rep_frame)

lemma on_store_run [prog_simps]:
  "on_store m (s, w) = (case m (sg_store s, w) of (r, (st, w')) \<Rightarrow> (r, (s\<lparr>sg_store := st\<rparr>, w')))"
  by (simp add: on_store_def)

lemma on_index_run [prog_simps]:
  "on_index m (s, w) = (case m (sg_index s, w) of (r, (ix, w')) \<Rightarrow> (r, (s\<lparr>sg_index := ix\<rparr>, w')))"
  by (simp add: on_index_def)

lemma newStore_file: "wrapf m (newStore f) w = (Inr st, w') \<Longrightarrow> st_file st = f"
  by (auto simp: newStore_def prog_simps split: prod.splits sum.splits failure.splits)

lemma newSegment_file:
  assumes "newSegment d b c w = (Inr s, w')"
  shows "st_file (sg_store s) = \<lparr>f_dir = d, f_name = store_file_name b, f_open = True\<rparr>"
  using assms unfolding newSegment_def
  by (elim bnd_InrE) (auto dest!: newStore_file open_file_name split: prod.splits sum.splits failure.splits)

section \<open>The operations on a working disk\<close>

lemma seg_repE:
  assumes "seg_rep cdc d c base rs (s, w)"
  obtains "sg_config s = c" "baseOffset s = base" "nextOffset s = base + of_nat (length rs)"
    "unat base + length rs < 2 ^ 64"
    "f_dir (st_file (sg_store s)) = d" "f_name (st_file (sg_store s)) = store_file_name base"
    "f_dir (ix_file (sg_index s)) = d" "f_name (ix_file (sg_index s)) = index_file_name base"
    "list_all (encodable cdc) rs" "\<forall>k < length rs. r_offset (rs ! k) = base + of_nat k"
    "store_rep (map (enc cdc) rs) (sg_store s, w)"
    "index_rep (unat (MaxIndexBytes c)) (seg_entries (map (enc cdc) rs)) (sg_index s, w)"
  using assms by (auto simp: seg_rep_def)

lemma segment_append_rep:
  assumes rep: "seg_rep cdc d c base rs (s, w)" and fits: "seg_fits cdc c base rs r"
  obtains s' cs ci where
    "segment_append cdc (Some r) (s, w) = (Inr (base + of_nat (length rs)),
       (s', fput d (index_file_name base) ci (fput d (store_file_name base) cs w)))"
    "seg_rep cdc d c base (rs @ [seg_item base rs r])
       (s', fput d (index_file_name base) ci (fput d (store_file_name base) cs w))"
proof -
  let ?r = "seg_item base rs r" and ?ps = "map (enc cdc) rs"
  have f: "encodable cdc ?r" "store_fits ?ps (enc cdc ?r)" "(length rs + 1) * 12 \<le> unat (MaxIndexBytes c)"
    "length rs < 2 ^ 32" "unat base + length rs + 1 < 2 ^ 64"
    using fits by (auto simp: seg_fits_def)
  have st: "store_rep ?ps (sg_store s, w)" and ix: "index_rep (unat (MaxIndexBytes c)) (seg_entries ?ps) (sg_index s, w)"
    and nx: "nextOffset s = base + of_nat (length rs)" and bs: "baseOffset s = base"
    using rep by (auto elim: seg_repE)
  have files: "f_dir (st_file (sg_store s)) = d" "f_name (st_file (sg_store s)) = store_file_name base"
    "f_dir (ix_file (sg_index s)) = d" "f_name (ix_file (sg_index s)) = index_file_name base"
    using rep by (auto elim: seg_repE)
  obtain b cs where a: "store_append (enc cdc ?r) (sg_store s, w) =
      (Inr (of_nat (length (frame (enc cdc ?r))), of_nat (frame_pos ?ps (length ?ps))),
       ((sg_store s)\<lparr>st_buf := b, st_size := of_nat (length (frames (?ps @ [enc cdc ?r])))\<rparr>,
        fwrite_all (st_file (sg_store s)) cs w))"
    and a': "store_rep (?ps @ [enc cdc ?r])
       ((sg_store s)\<lparr>st_buf := b, st_size := of_nat (length (frames (?ps @ [enc cdc ?r])))\<rparr>,
        fwrite_all (st_file (sg_store s)) cs w)"
    using st f(2) by (rule store_append_rep)
  let ?st = "(sg_store s)\<lparr>st_buf := b, st_size := of_nat (length (frames (?ps @ [enc cdc ?r])))\<rparr>"
  let ?w1 = "fput d (store_file_name base) cs w"
  have ix1: "index_rep (unat (MaxIndexBytes c)) (seg_entries ?ps) (sg_index s, ?w1)"
    using ix files by (simp add: index_rep_frame)
  obtain ci where i: "index_write (of_nat (length rs)) (of_nat (length (frames ?ps))) (sg_index s, ?w1) =
      (Inr (), ((sg_index s)\<lparr>ix_size := of_nat ((length rs + 1) * 12)\<rparr>, fput d (index_file_name base) ci ?w1))"
    and i': "index_rep (unat (MaxIndexBytes c))
       (seg_entries ?ps @ [(of_nat (length rs), of_nat (length (frames ?ps)))])
       ((sg_index s)\<lparr>ix_size := of_nat ((length rs + 1) * 12)\<rparr>, fput d (index_file_name base) ci ?w1)"
    using index_write_rep [OF ix1, of "of_nat (length rs)" "of_nat (length (frames ?ps))"] f(3,4) files
    by auto
  let ?ix = "(sg_index s)\<lparr>ix_size := of_nat ((length rs + 1) * 12)\<rparr>"
  let ?s = "s\<lparr>sg_store := ?st, sg_index := ?ix, nextOffset := base + of_nat (length rs) + 1\<rparr>"
  have pos: "frame_pos ?ps (length rs) = length (frames ?ps)"
    using frame_pos_length [of ?ps] by simp
  have u: "(ucast (nextOffset s - baseOffset s) :: u32) = of_nat (length rs)"
    by (simp add: nx bs ucast_u64_of_nat)
  show ?thesis
  proof (rule that [of ?s ci cs])
    have "c_marshal cdc ?r = Inr (enc cdc ?r)"
      using f(1) by (simp add: encodable_def)
    then show "segment_append cdc (Some r) (s, w) = (Inr (base + of_nat (length rs)),
       (?s, fput d (index_file_name base) ci ?w1))"
      using a i u pos files by (simp add: segment_append_def prog_simps nx Let_def)
    show "seg_rep cdc d c base (rs @ [?r]) (?s, fput d (index_file_name base) ci ?w1)"
      using rep f(1,5) a' i' files
      by (auto elim!: seg_repE simp: seg_rep_def store_rep_frame nth_append less_Suc_eq)
  qed
qed

lemma segment_read_rep:
  assumes rep: "seg_rep cdc d c base rs (s, w)" and k: "k < length rs"
  obtains s' cs where
    "segment_read cdc (base + of_nat k) (s, w) = (Inr (rs ! k), (s', fput d (store_file_name base) cs w))"
    "seg_rep cdc d c base rs (s', fput d (store_file_name base) cs w)"
proof -
  let ?ps = "map (enc cdc) rs"
  have st: "store_rep ?ps (sg_store s, w)" and ix: "index_rep (unat (MaxIndexBytes c)) (seg_entries ?ps) (sg_index s, w)"
    and bs: "baseOffset s = base" and all: "list_all (encodable cdc) rs"
    and files: "f_dir (st_file (sg_store s)) = d" "f_name (st_file (sg_store s)) = store_file_name base"
    "f_dir (ix_file (sg_index s)) = d" "f_name (ix_file (sg_index s)) = index_file_name base"
    using rep by (auto elim: seg_repE)
  let ?st = "(sg_store s)\<lparr>st_buf := flushed (frames ?ps) (st_buf (sg_store s))\<rparr>"
  let ?w = "fput d (store_file_name base) (frames ?ps) w"
  have i: "index_read (of_nat k) (sg_index s, w) =
      (Inr (of_nat k, of_nat (frame_pos ?ps k)), (sg_index s, w))"
    using index_read_rep [OF ix, of k] k by simp
  have r: "store_read (of_nat (frame_pos ?ps k)) (sg_store s, w) = (Inr (?ps ! k), (?st, ?w))"
    and r': "store_rep ?ps (?st, ?w)"
    using store_read_rep [OF st, of k] k files by auto
  show ?thesis
  proof (rule that [of "s\<lparr>sg_store := ?st\<rparr>" "frames ?ps"])
    have "c_unmarshal cdc (?ps ! k) = Inr (rs ! k)"
      using all k by (simp add: list_all_length encodable_def)
    then show "segment_read cdc (base + of_nat k) (s, w) = (Inr (rs ! k), (s\<lparr>sg_store := ?st\<rparr>, ?w))"
      using i r bs by (simp add: segment_read_def prog_simps)
    show "seg_rep cdc d c base rs (s\<lparr>sg_store := ?st\<rparr>, ?w)"
      using rep r' files by (auto elim!: seg_repE simp: seg_rep_def index_rep_frame)
  qed
qed

lemma segment_close_rep:
  assumes rep: "seg_rep cdc d c base rs (s, w)"
  shows "\<exists>s'. segment_close (s, w) = (Inr (), (s', fput d (store_file_name base) (frames (map (enc cdc) rs))
      (fput d (index_file_name base) (ientries (seg_entries (map (enc cdc) rs))) w))) \<and>
    sg_store s' = (sg_store s)\<lparr>st_buf := flushed (frames (map (enc cdc) rs)) (st_buf (sg_store s)),
      st_file := (st_file (sg_store s))\<lparr>f_open := False\<rparr>\<rparr> \<and>
    ix_file (sg_index s') = (ix_file (sg_index s))\<lparr>f_open := False\<rparr>"
proof -
  have st: "store_rep (map (enc cdc) rs) (sg_store s, w)"
    and ix: "index_rep (unat (MaxIndexBytes c)) (seg_entries (map (enc cdc) rs)) (sg_index s, w)"
    and files: "f_dir (st_file (sg_store s)) = d" "f_name (st_file (sg_store s)) = store_file_name base"
    "f_dir (ix_file (sg_index s)) = d" "f_name (ix_file (sg_index s)) = index_file_name base"
    using rep by (auto elim: seg_repE)
  have "store_rep (map (enc cdc) rs)
      (sg_store s, fput d (index_file_name base) (ientries (seg_entries (map (enc cdc) rs))) w)"
    using st files by (simp add: store_rep_frame)
  then show ?thesis
    using index_close_rep [OF ix] files by (simp add: segment_close_def prog_simps store_close_rep)
qed

text \<open>
  Opening a segment on files that hold the frames and entries of some records, or on no files
  at all, gives a segment with these records.
\<close>

lemma newSegment_rep:
  assumes w: "healthy w" "os_dirs w d \<noteq> None"
    and st: "fbytes w d (store_file_name base) = frames (map (enc cdc) rs)"
    and ix: "fbytes w d (index_file_name base) = ientries (seg_entries (map (enc cdc) rs))"
    and sz: "length (frames (map (enc cdc) rs)) < 2 ^ 63"
      "list_all (\<lambda>p. length p \<le> max_alloc) (map (enc cdc) rs)"
    and m: "0 < unat (MaxIndexBytes c)" "unat (MaxIndexBytes c) < 2 ^ 63"
      "length rs * 12 \<le> unat (MaxIndexBytes c)" "length rs \<le> 2 ^ 32"
    and recs: "list_all (encodable cdc) rs" "\<forall>k < length rs. r_offset (rs ! k) = base + of_nat k"
      "unat base + length rs < 2 ^ 64"
  defines "w' \<equiv> fput d (index_file_name base)
      (resize (unat (MaxIndexBytes c)) (ientries (seg_entries (map (enc cdc) rs))))
      (fput d (store_file_name base) (frames (map (enc cdc) rs)) w)"
  shows "\<exists>s. newSegment d base c w = (Inr s, w') \<and> seg_rep cdc d c base rs (s, w')"
proof -
  let ?ps = "map (enc cdc) rs" and ?m = "unat (MaxIndexBytes c)"
  let ?sf = "\<lparr>f_dir = d, f_name = store_file_name base, f_open = True\<rparr>"
  let ?xf = "\<lparr>f_dir = d, f_name = index_file_name base, f_open = True\<rparr>"
  let ?st = "\<lparr>st_file = ?sf, st_buf = new_writer, st_size = of_nat (length (frames ?ps))\<rparr>"
  let ?ix = "\<lparr>ix_file = ?xf, ix_maplen = ?m, ix_mapped = True, ix_size = of_nat (length (seg_entries ?ps) * 12)\<rparr>"
  let ?w1 = "fput d (store_file_name base) (frames ?ps) w"
  let ?w2 = "fput d (index_file_name base) (ientries (seg_entries ?ps)) ?w1"
  let ?s = "\<lparr>sg_store = ?st, sg_index = ?ix, baseOffset = base,
      nextOffset = base + of_nat (length rs), sg_config = c\<rparr>"
  have o1: "open_file d (store_file_name base) w = (Inr ?sf, ?w1)"
    using open_file_healthy [OF w] st by simp
  have c1: "fget ?w1 d (store_file_name base) = Some (frames ?ps)" "fbytes ?w1 d (index_file_name base) = ientries (seg_entries ?ps)"
    using w(2) ix by (simp_all add: fget_fput)
  have n1: "newStore ?sf ?w1 = (Inr ?st, ?w1)" and r1: "store_rep ?ps (?st, ?w1)"
    using newStore_rep [of ?sf ?w1 ?ps] w c1 sz by auto
  have o2: "open_file d (index_file_name base) ?w1 = (Inr ?xf, ?w2)"
    using open_file_healthy [of ?w1 d] w c1(2) by simp
  have c2: "fget ?w2 d (index_file_name base) = Some (ientries (seg_entries ?ps))"
    using w(2) by (simp add: fget_fput)
  have n2: "newIndex ?xf (MaxIndexBytes c) ?w2 = (Inr ?ix, w')" and r2: "index_rep ?m (seg_entries ?ps) (?ix, w')"
    using newIndex_rep [of ?xf ?w2 "seg_entries ?ps" "MaxIndexBytes c"] w c2 m by (auto simp: w'_def)
  have r1': "store_rep ?ps (?st, w')"
    using r1 by (simp add: w'_def store_rep_frame)
  have "newSegment d base c w = (Inr ?s, w')"
  proof (cases rs rule: rev_cases)
    case Nil
    then show ?thesis
      using o1 n1 o2 n2 by (simp add: newSegment_def prog_simps index_read_def)
  next
    case (snoc qs q)
    have "index_read (- 1) (?ix, w') = (Inr (last (seg_entries ?ps)), (?ix, w'))"
      using r2 by (rule index_read_last) (simp add: snoc)
    moreover have "last (seg_entries ?ps) = (of_nat (length qs), of_nat (length (frames (map (enc cdc) qs))))"
      by (simp add: snoc)
    moreover have "(ucast (of_nat (length qs) :: u32) :: u64) = of_nat (length qs)"
      using m(4) by (intro ucast_u32_of_nat) (simp add: snoc)
    ultimately show ?thesis
      using o1 n1 o2 n2 by (simp add: newSegment_def prog_simps) (simp add: snoc)
  qed
  moreover have "seg_rep cdc d c base rs (?s, w')"
    using r1' r2 recs by (simp add: seg_rep_def)
  ultimately show ?thesis by blast
qed

text \<open>A segment provides the record interface, with offsets as keys.\<close>

interpretation seg_log: record_log "seg_rep cdc d c base" "seg_fits cdc c base" "seg_item base"
  "\<lambda>rs k. base + of_nat k" "\<lambda>r. segment_append cdc (Some r)" "segment_read cdc"
  for cdc d c base
proof unfold_locales
  fix rs x r
  assume "seg_rep cdc d c base rs x" "seg_fits cdc c base rs r"
  then show "\<exists>t. segment_append cdc (Some r) x = (Inr (base + of_nat (length rs)), t) \<and>
      seg_rep cdc d c base (rs @ [seg_item base rs r]) t"
    by (cases x) (auto elim: segment_append_rep)
next
  fix rs x k
  assume "seg_rep cdc d c base rs x" "k < length rs"
  then show "\<exists>t. segment_read cdc (base + of_nat k) x = (Inr (rs ! k), t) \<and> seg_rep cdc d c base rs t"
    by (cases x) (auto elim: segment_read_rep)
qed simp

section \<open>An instance\<close>

text \<open>A codec that keeps its promise and a directory with no files, to evaluate the properties on.\<close>

definition demo_codec :: codec where
  "demo_codec =
     \<lparr>c_marshal = (\<lambda>r. Inr (put_uint64 (r_offset r) @ put_uint64 (r_term r) @ put_uint32 (r_type r) @ r_value r)),
      c_unmarshal = (\<lambda>p. if length p < 20 then Inl (ErrCodec ''short'')
        else Inr \<lparr>r_value = drop 20 p, r_offset = get_uint64 (take 8 p),
          r_term = get_uint64 (take 8 (drop 8 p)), r_type = get_uint32 (take 4 (drop 16 p))\<rparr>)\<rparr>"

definition demo_disk :: os where
  "demo_disk = \<lparr>os_dirs = [''log'' \<mapsto> []], os_faults = []\<rparr>"

definition demo_record :: "byte \<Rightarrow> log_record" where
  "demo_record x = \<lparr>r_value = [x], r_offset = 0, r_term = 0, r_type = 0\<rparr>"

lemma demo_codec_ok: "codec_ok demo_codec"
  by (auto simp: codec_ok_def demo_codec_def)

lemma demo_encodable: "encodable demo_codec r"
  by (simp add: encodable_def enc_def demo_codec_def)

lemma length_demo_enc: "length (enc demo_codec r) = 20 + length (r_value r)"
  by (simp add: enc_def demo_codec_def)

definition odd_config :: seg_config where
  "odd_config = \<lparr>MaxStoreBytes = 1024, MaxIndexBytes = 16, InitialOffset = 0\<rparr>"

lemma odd_segment:
  "\<exists>s w. seg_rep demo_codec ''log'' odd_config 0 [demo_record 1] (s, w)"
proof -
  have "\<exists>s w. seg_rep demo_codec ''log'' odd_config 0 [] (s, w)"
    using newSegment_rep [of demo_disk "''log''" 0 demo_codec "[]" odd_config]
    by (auto simp: demo_disk_def odd_config_def fbytes_def fget_def seg_entries_def)
  moreover have "seg_fits demo_codec odd_config 0 [] (demo_record 1)"
    by (simp add: seg_fits_def demo_encodable store_fits_def odd_config_def length_demo_enc
        demo_record_def max_alloc_def)
  ultimately show ?thesis
    using segment_append_rep [of demo_codec "''log''" odd_config 0 "[]" _ _ "demo_record 1"]
    by (fastforce simp: demo_record_def)
qed

section \<open>A segment with a full index\<close>

text \<open>
  The index has no room for another entry, and the store holds the payloads \<open>ps\<close>, also those that
  the index does not point to.
\<close>

definition seg_stuck :: "string \<Rightarrow> u64 \<Rightarrow> nat \<Rightarrow> bytes list \<Rightarrow> u64 \<Rightarrow> segment \<times> os \<Rightarrow> bool" where
  "seg_stuck d base m ps next = (\<lambda>(s, w). nextOffset s = next \<and> store_rep ps (sg_store s, w) \<and>
     (\<exists>es. index_rep m es (sg_index s, w) \<and> m < length es * 12 + 12) \<and>
     f_dir (st_file (sg_store s)) = d \<and> f_name (st_file (sg_store s)) = store_file_name base \<and>
     f_dir (ix_file (sg_index s)) = d \<and> f_name (ix_file (sg_index s)) = index_file_name base)"

lemma seg_rep_stuck:
  assumes "seg_rep cdc d c base rs (s, w)" and "unat (MaxIndexBytes c) < length rs * 12 + 12"
  shows "seg_stuck d base (unat (MaxIndexBytes c)) (map (enc cdc) rs) (base + of_nat (length rs)) (s, w)"
proof -
  have "length (seg_entries (map (enc cdc) rs)) = length rs"
    by (simp add: seg_entries_def)
  then show ?thesis
    using assms unfolding seg_stuck_def by (auto elim!: seg_repE intro!: exI [of _ "seg_entries (map (enc cdc) rs)"])
qed

lemma seg_stuck_append:
  assumes "seg_stuck d base m ps next (s, w)" and "encodable cdc (r\<lparr>r_offset := next\<rparr>)"
    and "store_fits ps (enc cdc (r\<lparr>r_offset := next\<rparr>))"
  shows "\<exists>s' w'. segment_append cdc (Some r) (s, w) = (Inl (Error EOF), (s', w')) \<and>
    seg_stuck d base m (ps @ [enc cdc (r\<lparr>r_offset := next\<rparr>)]) next (s', w')"
proof -
  let ?p = "enc cdc (r\<lparr>r_offset := next\<rparr>)"
  obtain es where st: "store_rep ps (sg_store s, w)" and ix: "index_rep m es (sg_index s, w)" "m < length es * 12 + 12"
    and nx: "nextOffset s = next"
    and files: "f_dir (st_file (sg_store s)) = d" "f_name (st_file (sg_store s)) = store_file_name base"
      "f_dir (ix_file (sg_index s)) = d" "f_name (ix_file (sg_index s)) = index_file_name base"
    using assms(1) by (auto simp: seg_stuck_def)
  obtain b cs where a: "store_append ?p (sg_store s, w) =
      (Inr (of_nat (length (frame ?p)), of_nat (frame_pos ps (length ps))), (b, fwrite_all (st_file (sg_store s)) cs w))"
    and a': "store_rep (ps @ [?p]) (b, fwrite_all (st_file (sg_store s)) cs w)" "st_file b = st_file (sg_store s)"
    using st assms(3) by (rule store_append_rep) (rule that, assumption+, simp)
  let ?w = "fwrite_all (st_file (sg_store s)) cs w"
  have ix': "index_rep m es (sg_index s, ?w)"
    using ix(1) files by (simp add: index_rep_frame)
  then have "index_write off pos (sg_index s, ?w) = (Inl (Error EOF), (sg_index s, ?w))" for off pos
    using ix(2) by (rule index_write_full)
  then have "segment_append cdc (Some r) (s, w) = (Inl (Error EOF), (s\<lparr>sg_store := b\<rparr>, ?w))"
    using a assms(2) by (simp add: segment_append_def prog_simps nx encodable_def Let_def)
  moreover have "seg_stuck d base m (ps @ [?p]) next (s\<lparr>sg_store := b\<rparr>, ?w)"
    using a' ix' ix(2) files nx by (auto simp: seg_stuck_def)
  ultimately show ?thesis by blast
qed

text \<open>Such a segment is full for the log only when its size is the limit exactly.\<close>

lemma seg_rep_not_maxed:
  assumes "seg_rep cdc d c base rs (s, w)" and "length rs * 12 < unat (MaxIndexBytes c)"
    and "length (frames (map (enc cdc) rs)) < unat (MaxStoreBytes c)"
  shows "\<not> IsMaxed s"
proof -
  have "store_rep (map (enc cdc) rs) (sg_store s, w)" "sg_config s = c"
    and "index_rep (unat (MaxIndexBytes c)) (seg_entries (map (enc cdc) rs)) (sg_index s, w)"
    using assms(1) by (auto elim: seg_repE)
  then show ?thesis
    using assms(2,3) unat_u64_less [of "MaxIndexBytes c"] unat_u64_less [of "MaxStoreBytes c"]
    by (auto simp: IsMaxed_def store_rep_def index_rep_def word_le_nat_alt no_wrap simp del: of_nat_mult)
qed

end
