(* ===== verification/CommitLog.thy ===== *)
theory CommitLog
  imports Segment
begin

text \<open>
  The log, \<open>internal/log/log.go\<close>: a list of segments of which the last one is active. The
  segments are shared between the list and \<open>activeSegment\<close>, so they live in a heap and both
  hold addresses.
\<close>

section \<open>The log\<close>

record log =
  l_dir :: string
  l_config :: seg_config
  l_heap :: "segment list"
  l_segments :: "nat list"
  l_active :: "nat option"

definition on_segment :: "nat \<Rightarrow> (segment \<times> os, 'a) prog \<Rightarrow> (log \<times> os, 'a) prog" where
  "on_segment a m = (\<lambda>(l, w).
     if a < length (l_heap l) then
       (case m (l_heap l ! a, w) of (r, (s, w')) \<Rightarrow> (r, (l\<lparr>l_heap := (l_heap l)[a := s]\<rparr>, w')))
     else (Inl (Panic NilDereference), (l, w)))"

definition log_newSegment :: "u64 \<Rightarrow> (log \<times> os, unit) prog" where
  "log_newSegment off = bnd get_st (\<lambda>(l, _).
     bnd (on_os (newSegment (l_dir l) off (l_config l))) (\<lambda>s.
       upd_st (\<lambda>(l, w). (l\<lparr>l_heap := l_heap l @ [s],
         l_segments := l_segments l @ [length (l_heap l)],
         l_active := Some (length (l_heap l))\<rparr>, w))))"

text \<open>The loop of \<open>setup\<close> steps over the second of each pair of equal base offsets.\<close>

fun every_other :: "'a list \<Rightarrow> 'a list" where
  "every_other [] = []"
| "every_other [x] = [x]"
| "every_other (x # y # zs) = x # every_other zs"

definition log_setup :: "(log \<times> os, unit) prog" where
  "log_setup = bnd get_st (\<lambda>(l, _).
     bnd (on_os (wrapf ''setup'' (read_dir (l_dir l)))) (\<lambda>files.
       andthen (prog_iter log_newSegment (every_other (sort (map base_offset_of files))))
         (bnd get_st (\<lambda>(l, _).
           if l_segments l = [] then log_newSegment (InitialOffset (l_config l)) else ret ()))))"

definition default_config :: "seg_config \<Rightarrow> seg_config" where
  "default_config c =
     (let c1 = (if MaxIndexBytes c = 0 then c\<lparr>MaxIndexBytes := 1024\<rparr> else c)
      in if MaxStoreBytes c1 = 0 then c1\<lparr>MaxStoreBytes := 1024\<rparr> else c1)"

definition NewLog :: "string \<Rightarrow> seg_config \<Rightarrow> (os, log) prog" where
  "NewLog dir c = (\<lambda>w.
     case log_setup (\<lparr>l_dir = dir, l_config = default_config c, l_heap = [], l_segments = [], l_active = None\<rparr>, w) of
       (Inl e, (_, w')) \<Rightarrow> (Inl e, w')
     | (Inr _, (l, w')) \<Rightarrow> (Inr l, w'))"

definition log_append :: "codec \<Rightarrow> log_record option \<Rightarrow> (log \<times> os, u64) prog" where
  "log_append cdc record = bnd get_st (\<lambda>(l, _). case l_active l of
       None \<Rightarrow> fail (Panic NilDereference)
     | Some a \<Rightarrow> bnd (on_segment a (segment_append cdc record)) (\<lambda>off.
         bnd get_st (\<lambda>(l, _).
           if IsMaxed (l_heap l ! a) then andthen (log_newSegment (off + 1)) (ret off)
           else ret off)))"

definition find_segment :: "log \<Rightarrow> u64 \<Rightarrow> nat option" where
  "find_segment l off = find (\<lambda>a. baseOffset (l_heap l ! a) \<le> off \<and> off < nextOffset (l_heap l ! a))
     (l_segments l)"

definition log_read :: "codec \<Rightarrow> u64 \<Rightarrow> (log \<times> os, log_record) prog" where
  "log_read cdc off = bnd get_st (\<lambda>(l, _). case find_segment l off of
       None \<Rightarrow> fail (Error (ErrOffsetOutOfRange off))
     | Some a \<Rightarrow>
         if nextOffset (l_heap l ! a) \<le> off then fail (Error (ErrOffsetOutOfRange off))
         else on_segment a (segment_read cdc off))"

definition log_close :: "(log \<times> os, unit) prog" where
  "log_close = bnd get_st (\<lambda>(l, _). prog_iter (\<lambda>a. on_segment a segment_close) (l_segments l))"

definition log_remove :: "(log \<times> os, unit) prog" where
  "log_remove = andthen log_close (bnd get_st (\<lambda>(l, _). on_os (remove_all (l_dir l))))"

definition log_reset :: "(log \<times> os, unit) prog" where
  "log_reset = andthen log_remove log_setup"

definition LowestOffset :: "(log \<times> os, u64) prog" where
  "LowestOffset = bnd get_st (\<lambda>(l, _). case l_segments l of
       [] \<Rightarrow> fail (Panic IndexOutOfRange)
     | a # _ \<Rightarrow> ret (baseOffset (l_heap l ! a)))"

definition HighestOffset :: "(log \<times> os, u64) prog" where
  "HighestOffset = bnd get_st (\<lambda>(l, _).
     if l_segments l = [] then fail (Panic IndexOutOfRange)
     else let off = nextOffset (l_heap l ! last (l_segments l)) in
       if off = 0 then ret 0 else ret (off - 1))"

text \<open>
  \<open>Truncate\<close> removes the segments one by one and replaces the list of segments at the end: an
  error on the way leaves the list as it was.
\<close>

primrec truncate_loop :: "u64 \<Rightarrow> nat list \<Rightarrow> (log \<times> os, nat list) prog" where
  "truncate_loop lowest [] = ret []"
| "truncate_loop lowest (a # as) = bnd get_st (\<lambda>(l, _).
     if nextOffset (l_heap l ! a) \<le> lowest + 1 then
       andthen (on_segment a segment_remove) (truncate_loop lowest as)
     else bnd (truncate_loop lowest as) (\<lambda>segments. ret (a # segments)))"

definition log_truncate :: "u64 \<Rightarrow> (log \<times> os, unit) prog" where
  "log_truncate lowest = bnd get_st (\<lambda>(l, _).
     bnd (truncate_loop lowest (l_segments l)) (\<lambda>segments.
       upd_st (\<lambda>(l, w). (l\<lparr>l_segments := segments\<rparr>, w))))"

section \<open>What a log holds\<close>

fun chain :: "codec \<Rightarrow> string \<Rightarrow> seg_config \<Rightarrow> os \<Rightarrow> u64 \<Rightarrow> segment list \<Rightarrow> log_record list list \<Rightarrow> bool" where
  "chain cdc d c w b [] [] = True"
| "chain cdc d c w b (s # ss) (q # qs) =
     (seg_rep cdc d c b q (s, w) \<and> chain cdc d c w (b + of_nat (length q)) ss qs)"
| "chain cdc d c w b _ _ = False"

fun bases :: "u64 \<Rightarrow> 'a list list \<Rightarrow> u64 list" where
  "bases b [] = []"
| "bases b (q # qs) = b # bases (b + of_nat (length q)) qs"

definition seg_files :: "u64 list \<Rightarrow> string set" where
  "seg_files bs = store_file_name ` set bs \<union> index_file_name ` set bs"

definition dir_names :: "os \<Rightarrow> string \<Rightarrow> string set \<Rightarrow> bool" where
  "dir_names w d ns \<longleftrightarrow> (\<exists>fs. os_dirs w d = Some fs \<and> distinct (map fst fs) \<and> set (map fst fs) = ns)"

text \<open>
  The limits that a log can have: the index has room for an entry, and neither file leaves the
  range of its positions.
\<close>

definition config_ok :: "seg_config \<Rightarrow> bool" where
  "config_ok c \<longleftrightarrow> 12 \<le> unat (MaxIndexBytes c) \<and> unat (MaxIndexBytes c) \<le> 12 * 2 ^ 32 \<and>
     0 < unat (MaxStoreBytes c) \<and> unat (MaxStoreBytes c) \<le> 2 ^ 62"

text \<open>
  A segment that is not full has room for one more record if the index limit is a whole number of
  entries, or if its records are so large that the store is full before the index.
\<close>

definition payload_ok :: "seg_config \<Rightarrow> bytes \<Rightarrow> bool" where
  "payload_ok c p \<longleftrightarrow> unat (MaxIndexBytes c) mod 12 = 0 \<or>
     unat (MaxStoreBytes c) \<le> unat (MaxIndexBytes c) div 12 * (8 + length p)"

definition seg_full :: "codec \<Rightarrow> seg_config \<Rightarrow> log_record list \<Rightarrow> bool" where
  "seg_full cdc c q \<longleftrightarrow> MaxStoreBytes c \<le> of_nat (length (frames (map (enc cdc) q))) \<or>
     MaxIndexBytes c \<le> of_nat (length q * 12)"

text \<open>The segments in memory hold the lists of records \<open>qs\<close>, the first of which begins at \<open>b\<close>.\<close>

definition log_segs :: "codec \<Rightarrow> string \<Rightarrow> seg_config \<Rightarrow> u64 \<Rightarrow> log_record list list \<Rightarrow> log \<times> os \<Rightarrow> bool" where
  "log_segs cdc d c b qs = (\<lambda>(l, w). l_dir l = d \<and> l_config l = c \<and> healthy w \<and> os_dirs w d \<noteq> None \<and>
     l_active l = (if l_segments l = [] then None else Some (last (l_segments l))) \<and>
     distinct (l_segments l) \<and> (\<forall>a \<in> set (l_segments l). a < length (l_heap l)) \<and>
     chain cdc d c w b (map ((!) (l_heap l)) (l_segments l)) qs)"

text \<open>
  The log holds the records \<open>rs\<close> from the offset \<open>b\<close> on: they are the records of its segments
  in order, only the active segment may be empty and it is not full, and the directory holds
  the files of the segments and nothing else.
\<close>

definition log_rep :: "codec \<Rightarrow> string \<Rightarrow> seg_config \<Rightarrow> u64 \<Rightarrow> log_record list \<Rightarrow> log \<times> os \<Rightarrow> bool" where
  "log_rep cdc d c b rs = (\<lambda>(l, w). config_ok c \<and> unat b + length rs < 2 ^ 64 \<and>
     list_all (payload_ok c) (map (enc cdc) rs) \<and>
     (\<exists>qs q. rs = concat qs @ q \<and> [] \<notin> set qs \<and> \<not> seg_full cdc c q \<and>
       log_segs cdc d c b (qs @ [q]) (l, w) \<and>
       dir_names w d (seg_files (bases b (qs @ [q])))))"

definition log_fits :: "codec \<Rightarrow> seg_config \<Rightarrow> u64 \<Rightarrow> log_record list \<Rightarrow> log_record \<Rightarrow> bool" where
  "log_fits cdc c b rs r \<longleftrightarrow> encodable cdc (seg_item b rs r) \<and> payload_ok c (enc cdc (seg_item b rs r)) \<and>
     length (enc cdc (seg_item b rs r)) \<le> max_alloc \<and> unat b + length rs + 1 < 2 ^ 64"

section \<open>Chains of segments\<close>

lemma chain_length: "chain cdc d c w b ss qs \<Longrightarrow> length ss = length qs"
  by (induction cdc d c w b ss qs rule: chain.induct) auto

lemma chain_append:
  "length ss = length qs \<Longrightarrow> chain cdc d c w b (ss @ ts) (qs @ ps) \<longleftrightarrow>
     chain cdc d c w b ss qs \<and> chain cdc d c w (b + of_nat (length (concat qs))) ts ps"
  by (induction ss qs arbitrary: b rule: list_induct2) (auto simp: ac_simps)

lemma length_bases [simp]: "length (bases b qs) = length qs"
  by (induction qs arbitrary: b) auto

lemma bases_append: "bases b (qs @ ps) = bases b qs @ bases (b + of_nat (length (concat qs))) ps"
  by (induction qs arbitrary: b) (auto simp: ac_simps)

lemma chain_frame:
  "n \<notin> seg_files (bases b qs) \<Longrightarrow>
     chain cdc d c (fput d n x w) b ss qs \<longleftrightarrow> chain cdc d c w b ss qs"
proof (induction cdc d c w b ss qs rule: chain.induct)
  case (2 cdc d c w b s ss q qs)
  then have "n \<noteq> store_file_name b \<and> n \<noteq> index_file_name b" "n \<notin> seg_files (bases (b + of_nat (length q)) qs)"
    by (auto simp: seg_files_def)
  with "2.IH" show ?case by (simp add: seg_rep_frame)
qed auto

lemma unat_plus_of_nat: "unat (b :: u64) + n < 2 ^ 64 \<Longrightarrow> unat (b + of_nat n) = unat b + n"
  by (subst unat_add_u64) (simp_all add: no_wrap)

lemma bases_bound:
  "[] \<notin> set qs \<Longrightarrow> unat b + length (concat qs) < 2 ^ 64 \<Longrightarrow> x \<in> set (bases b qs) \<Longrightarrow>
     unat b \<le> unat x \<and> unat x < unat b + length (concat qs)"
proof (induction qs arbitrary: b)
  case (Cons q qs)
  have b': "unat (b + of_nat (length q)) = unat b + length q"
    using Cons.prems(2) by (intro unat_plus_of_nat) simp
  show ?case
  proof (cases "x = b")
    case False
    then have "x \<in> set (bases (b + of_nat (length q)) qs)"
      using Cons.prems(3) by simp
    with Cons.IH [of "b + of_nat (length q)"] Cons.prems(1,2) show ?thesis
      by (simp add: b')
  qed (use Cons.prems in auto)
qed simp

text \<open>The offset after the last record is not the base of a segment that has records.\<close>

lemma bases_fresh:
  assumes "[] \<notin> set qs" "unat b + length (concat qs) < 2 ^ 64"
  shows "b + of_nat (length (concat qs)) \<notin> set (bases b qs)"
  using bases_bound [OF assms] unat_plus_of_nat [OF assms(2)] by (metis less_irrefl)

lemma seg_files_fresh:
  "x \<notin> set bs \<Longrightarrow> store_file_name x \<notin> seg_files bs \<and> index_file_name x \<notin> seg_files bs"
  by (auto simp: seg_files_def)

lemma seg_files_append: "seg_files (bs @ cs) = seg_files bs \<union> seg_files cs"
  by (auto simp: seg_files_def)

lemma seg_files_single: "seg_files [x] = {store_file_name x, index_file_name x}"
  by (auto simp: seg_files_def)

lemma seg_files_bases_snoc:
  "seg_files (bases b (qs @ [q])) =
     insert (index_file_name (b + of_nat (length (concat qs))))
       (insert (store_file_name (b + of_nat (length (concat qs)))) (seg_files (bases b qs)))"
  by (auto simp: bases_append seg_files_append seg_files_single)

lemma dir_names_dir: "dir_names w d ns \<Longrightarrow> os_dirs w d \<noteq> None"
  by (auto simp: dir_names_def)

lemma dir_names_fput: "dir_names w d ns \<Longrightarrow> dir_names (fput d n x w) d (insert n ns)"
  by (auto simp: dir_names_def fput_def dom_update distinct_update)

lemma dir_names_fput_known: "dir_names w d ns \<Longrightarrow> n \<in> ns \<Longrightarrow> dir_names (fput d n x w) d ns"
  using dir_names_fput [of w d ns n x] by (simp add: insert_absorb)

lemma dir_names_absent: "dir_names w d ns \<Longrightarrow> n \<notin> ns \<Longrightarrow> fget w d n = None"
  by (auto simp: dir_names_def fget_def map_of_eq_None_iff)

lemma seg_rep_full: "seg_rep cdc d c b q (s, w) \<Longrightarrow> IsMaxed s \<longleftrightarrow> seg_full cdc c q"
  by (auto simp: seg_rep_def IsMaxed_def seg_full_def store_rep_def index_rep_def)

lemma seg_full_empty: "config_ok c \<Longrightarrow> \<not> seg_full cdc c []"
  by (auto simp: seg_full_def config_ok_def)

lemma log_repI:
  "config_ok c \<Longrightarrow> unat b + length rs < 2 ^ 64 \<Longrightarrow> rs = concat qs @ q \<Longrightarrow> [] \<notin> set qs \<Longrightarrow>
     \<not> seg_full cdc c q \<Longrightarrow> log_segs cdc d c b (qs @ [q]) (l, w) \<Longrightarrow>
     dir_names w d (seg_files (bases b (qs @ [q]))) \<Longrightarrow> list_all (payload_ok c) (map (enc cdc) rs) \<Longrightarrow>
     log_rep cdc d c b rs (l, w)"
  by (auto simp: log_rep_def)

lemma log_repE:
  assumes "log_rep cdc d c b rs (l, w)"
  obtains qs q where "rs = concat qs @ q" "[] \<notin> set qs" "\<not> seg_full cdc c q"
    "log_segs cdc d c b (qs @ [q]) (l, w)" "dir_names w d (seg_files (bases b (qs @ [q])))"
    "config_ok c" "unat b + length rs < 2 ^ 64" "list_all (payload_ok c) (map (enc cdc) rs)"
  using assms by (auto simp: log_rep_def)

section \<open>Opening a segment\<close>

lemma on_segment_run [prog_simps]:
  "on_segment a m (l, w) = (if a < length (l_heap l) then
       (case m (l_heap l ! a, w) of (r, (s, w')) \<Rightarrow> (r, (l\<lparr>l_heap := (l_heap l)[a := s]\<rparr>, w')))
     else (Inl (Panic NilDereference), (l, w)))"
  by (simp add: on_segment_def)

text \<open>
  Adding a segment after those in memory, for records that its files already hold or, with no
  files, for none.
\<close>

lemma log_newSegment_step:
  fixes q :: "log_record list"
  assumes segs: "log_segs cdc d c b qs (l, w)"
    and cfg: "config_ok c"
    and fresh: "base \<notin> set (bases b qs)" and base: "base = b + of_nat (length (concat qs))"
    and st: "fbytes w d (store_file_name base) = frames (map (enc cdc) q)"
    and ix: "fbytes w d (index_file_name base) = ientries (seg_entries (map (enc cdc) q))"
    and sz: "length (frames (map (enc cdc) q)) < 2 ^ 63"
      "list_all (\<lambda>p. length p \<le> max_alloc) (map (enc cdc) q)"
      "length q * 12 \<le> unat (MaxIndexBytes c)"
    and recs: "list_all (encodable cdc) q" "\<forall>k < length q. r_offset (q ! k) = base + of_nat k"
      "unat base + length q < 2 ^ 64"
  shows "\<exists>l' x y. log_newSegment base (l, w) =
      (Inr (), (l', fput d (index_file_name base) x (fput d (store_file_name base) y w))) \<and>
    log_segs cdc d c b (qs @ [q]) (l', fput d (index_file_name base) x (fput d (store_file_name base) y w))"
proof -
  have l: "l_dir l = d" "l_config l = c" "healthy w" "os_dirs w d \<noteq> None"
    "distinct (l_segments l)" "\<forall>a \<in> set (l_segments l). a < length (l_heap l)"
    and ch: "chain cdc d c w b (map ((!) (l_heap l)) (l_segments l)) qs"
    using segs by (auto simp: log_segs_def)
  have m: "0 < unat (MaxIndexBytes c)" "unat (MaxIndexBytes c) < 2 ^ 63" "length q \<le> 2 ^ 32"
    using cfg sz(3) by (auto simp: config_ok_def)
  obtain s x y where s: "newSegment d base c w =
      (Inr s, fput d (index_file_name base) x (fput d (store_file_name base) y w))"
    and r: "seg_rep cdc d c base q (s, fput d (index_file_name base) x (fput d (store_file_name base) y w))"
    using newSegment_rep [OF l(3,4) st ix sz(1,2) m(1,2) sz(3) m(3) recs] by blast
  let ?w = "fput d (index_file_name base) x (fput d (store_file_name base) y w)"
  let ?l = "l\<lparr>l_heap := l_heap l @ [s], l_segments := l_segments l @ [length (l_heap l)],
      l_active := Some (length (l_heap l))\<rparr>"
  have "log_newSegment base (l, w) = (Inr (), (?l, ?w))"
    using s l(1,2) by (simp add: log_newSegment_def prog_simps)
  moreover have "log_segs cdc d c b (qs @ [q]) (?l, ?w)"
  proof -
    have "map ((!) (l_heap l @ [s])) (l_segments l) = map ((!) (l_heap l)) (l_segments l)"
      using l(6) by (simp add: nth_append)
    moreover have "chain cdc d c ?w b (map ((!) (l_heap l)) (l_segments l)) qs"
      using ch seg_files_fresh [OF fresh] by (simp add: chain_frame)
    moreover have "length (map ((!) (l_heap l)) (l_segments l)) = length qs"
      using ch by (rule chain_length)
    ultimately have "chain cdc d c ?w b (map ((!) (l_heap l @ [s])) (l_segments l @ [length (l_heap l)])) (qs @ [q])"
      using r by (simp add: chain_append base del: map_eq_conv)
    moreover have "os_dirs ?w d \<noteq> None"
      using l(4) by simp
    ultimately show ?thesis
      using l by (auto simp: log_segs_def simp del: not_None_eq)
  qed
  ultimately show ?thesis by blast
qed

section \<open>Append\<close>

lemma log_segs_lastE:
  assumes "log_segs cdc d c b (qs @ [q]) (l, w)"
  obtains as a where "l_segments l = as @ [a]" "l_active l = Some a" "a < length (l_heap l)" "a \<notin> set as"
    "length as = length qs" "chain cdc d c w b (map ((!) (l_heap l)) as) qs"
    "seg_rep cdc d c (b + of_nat (length (concat qs))) q (l_heap l ! a, w)"
proof -
  have ch: "chain cdc d c w b (map ((!) (l_heap l)) (l_segments l)) (qs @ [q])"
    using assms by (auto simp: log_segs_def)
  have len: "length (l_segments l) = Suc (length qs)"
    using chain_length [OF ch] by simp
  then obtain as a where sg: "l_segments l = as @ [a]"
    by (cases "l_segments l" rule: rev_cases) auto
  then have "length (map ((!) (l_heap l)) as) = length qs"
    using len by simp
  from chain_append [OF this] ch sg len that [of as a] assms show thesis
    by (auto simp: log_segs_def)
qed

lemma log_segs_update:
  assumes segs: "log_segs cdc d c b (qs @ [q]) (l, w)" and sg: "l_segments l = as @ [a]"
    and w': "healthy w'" "os_dirs w' d \<noteq> None"
    and ch: "chain cdc d c w' b (map ((!) (l_heap l)) as) qs"
    and r: "seg_rep cdc d c (b + of_nat (length (concat qs))) q' (s', w')"
  shows "log_segs cdc d c b (qs @ [q']) (l\<lparr>l_heap := (l_heap l)[a := s']\<rparr>, w')"
proof -
  have l: "distinct (as @ [a])" "a < length (l_heap l)"
    using segs sg by (auto simp: log_segs_def)
  then have "map ((!) ((l_heap l)[a := s'])) as = map ((!) (l_heap l)) as"
    by (auto simp: nth_list_update)
  moreover have "length (map ((!) (l_heap l)) as) = length qs"
    using chain_length [OF ch] .
  ultimately have "chain cdc d c w' b (map ((!) ((l_heap l)[a := s'])) (as @ [a])) (qs @ [q'])"
    using ch r l by (simp add: chain_append del: map_eq_conv)
  then show ?thesis
    using segs sg w' by (auto simp: log_segs_def)
qed

lemma index_room:
  assumes "list_all (payload_ok c) ps" and "12 \<le> unat (MaxIndexBytes c)"
    and "length (frames ps) < unat (MaxStoreBytes c)" and "length ps * 12 < unat (MaxIndexBytes c)"
  shows "(length ps + 1) * 12 \<le> unat (MaxIndexBytes c)"
proof (cases "unat (MaxIndexBytes c) mod 12 = 0")
  case True
  then show ?thesis
    using assms(4) by presburger
next
  case False
  let ?m = "unat (MaxIndexBytes c) div 12" and ?s = "unat (MaxStoreBytes c)"
  have "length ps * ?s \<le> ?m * length (frames ps)"
    using assms(1) False by (induction ps) (auto simp: payload_ok_def algebra_simps)
  also have "\<dots> < ?m * ?s"
    using assms(2,3) by simp
  finally have "length ps < ?m"
    by (simp add: mult_less_cancel2)
  then show ?thesis
    by (simp add: less_eq_div_iff_mult_less_eq Suc_le_eq [symmetric])
qed

lemma seg_fits_active:
  assumes cfg: "config_ok c" and nf: "\<not> seg_full cdc c q" and fits: "log_fits cdc c b (concat qs @ q) r"
    and le: "length q * 12 \<le> unat (MaxIndexBytes c)" "length (frames (map (enc cdc) q)) < 2 ^ 63"
    and big: "list_all (payload_ok c) (map (enc cdc) q)"
  shows "seg_fits cdc c (b + of_nat (length (concat qs))) q r"
proof -
  let ?f = "length (frames (map (enc cdc) q))"
  have f: "\<not> MaxStoreBytes c \<le> of_nat ?f" "\<not> MaxIndexBytes c \<le> of_nat (length q * 12)"
    using nf by (auto simp: seg_full_def)
  have cf: "12 \<le> unat (MaxIndexBytes c)" "unat (MaxIndexBytes c) \<le> 12 * 2 ^ 32"
    "unat (MaxStoreBytes c) \<le> 2 ^ 62"
    using cfg by (auto simp: config_ok_def)
  have store: "?f < unat (MaxStoreBytes c)"
    using f(1) le(2) by (simp add: word_le_nat_alt no_wrap)
  moreover have lt: "length q * 12 < unat (MaxIndexBytes c)"
    using f(2) le(1) cf(2) by (simp add: word_le_nat_alt no_wrap del: of_nat_mult)
  moreover have "(length q + 1) * 12 \<le> unat (MaxIndexBytes c)"
    using index_room [OF big cf(1) store] lt by simp
  moreover have "unat (b + of_nat (length (concat qs))) = unat b + length (concat qs)"
    using fits by (intro unat_plus_of_nat) (simp add: log_fits_def)
  ultimately show ?thesis
    using cf fits by (auto simp: seg_fits_def store_fits_def log_fits_def max_alloc_def ac_simps)
qed

text \<open>Starting a new active segment after segments that all have records.\<close>

lemma log_roll:
  assumes segs: "log_segs cdc d c b qs (l, w)" and ne: "[] \<notin> set qs"
    and names: "dir_names w d (seg_files (bases b qs))"
    and cfg: "config_ok c" and bnd: "unat b + length (concat qs) < 2 ^ 64"
    and big: "list_all (payload_ok c) (map (enc cdc) (concat qs))"
  shows "\<exists>l' w'. log_newSegment (b + of_nat (length (concat qs))) (l, w) = (Inr (), (l', w')) \<and>
    log_rep cdc d c b (concat qs) (l', w')"
proof -
  let ?base = "b + of_nat (length (concat qs))"
  have fresh: "?base \<notin> set (bases b qs)"
    by (rule bases_fresh [OF ne bnd])
  have abs: "fbytes w d (store_file_name ?base) = []" "fbytes w d (index_file_name ?base) = []"
    using seg_files_fresh [OF fresh] by (blast intro: fbytes_None dir_names_absent [OF names])+
  obtain l' x y where n: "log_newSegment ?base (l, w) =
      (Inr (), (l', fput d (index_file_name ?base) x (fput d (store_file_name ?base) y w)))"
    and segs': "log_segs cdc d c b (qs @ [[]])
      (l', fput d (index_file_name ?base) x (fput d (store_file_name ?base) y w))"
    using log_newSegment_step [OF segs cfg fresh refl, of "[]"] abs unat_plus_of_nat [OF bnd] bnd
    by (auto simp: seg_entries_def)
  have "dir_names (fput d (index_file_name ?base) x (fput d (store_file_name ?base) y w)) d
      (seg_files (bases b (qs @ [[]])))"
    using names by (simp only: seg_files_bases_snoc dir_names_fput)
  then have "log_rep cdc d c b (concat qs)
      (l', fput d (index_file_name ?base) x (fput d (store_file_name ?base) y w))"
    using cfg bnd big by (intro log_repI [OF cfg _ _ ne _ segs']) (simp_all add: seg_full_empty)
  with n show ?thesis by blast
qed

text \<open>The append to the active segment, before the log decides whether it is full.\<close>

lemma log_append_active:
  assumes segs: "log_segs cdc d c b (qs @ [q]) (l, w)" and ne: "[] \<notin> set qs"
    and names: "dir_names w d (seg_files (bases b (qs @ [q])))"
    and cfg: "config_ok c" and nf: "\<not> seg_full cdc c q" and fits: "log_fits cdc c b (concat qs @ q) r"
    and big: "list_all (payload_ok c) (map (enc cdc) q)"
  defines "r' \<equiv> seg_item b (concat qs @ q) r" and "off \<equiv> b + of_nat (length (concat qs @ q))"
  shows "\<exists>l' w'. log_append cdc (Some r) (l, w) =
      (if seg_full cdc c (q @ [r']) then andthen (log_newSegment (off + 1)) (ret off) (l', w')
       else (Inr off, (l', w'))) \<and>
    log_segs cdc d c b (qs @ [q @ [r']]) (l', w') \<and>
    dir_names w' d (seg_files (bases b (qs @ [q @ [r']])))"
proof -
  let ?base = "b + of_nat (length (concat qs))"
  obtain as a where sg: "l_segments l = as @ [a]" and act: "l_active l = Some a"
    and a: "a < length (l_heap l)" and ch: "chain cdc d c w b (map ((!) (l_heap l)) as) qs"
    and sr: "seg_rep cdc d c ?base q (l_heap l ! a, w)"
    using segs by (rule log_segs_lastE)
  have sf: "seg_fits cdc c ?base q r"
    using cfg nf fits sr big
    by (intro seg_fits_active) (auto elim!: seg_repE simp: index_rep_def store_rep_def)
  have off: "?base + of_nat (length q) = off" and item: "r\<lparr>r_offset := off\<rparr> = r'"
    by (simp_all add: r'_def off_def add.assoc)
  obtain s' cs ci where sa: "segment_append cdc (Some r) (l_heap l ! a, w) = (Inr off,
       (s', fput d (index_file_name ?base) ci (fput d (store_file_name ?base) cs w)))"
    and sr': "seg_rep cdc d c ?base (q @ [r'])
       (s', fput d (index_file_name ?base) ci (fput d (store_file_name ?base) cs w))"
    using segment_append_rep [OF sr sf] unfolding off item .
  let ?w = "fput d (index_file_name ?base) ci (fput d (store_file_name ?base) cs w)"
  let ?l = "l\<lparr>l_heap := (l_heap l)[a := s']\<rparr>"
  have "?base \<notin> set (bases b qs)"
    using ne fits by (intro bases_fresh) (simp_all add: log_fits_def)
  then have "chain cdc d c ?w b (map ((!) (l_heap l)) as) qs"
    using ch by (simp add: chain_frame seg_files_fresh)
  then have "log_segs cdc d c b (qs @ [q @ [r']]) (?l, ?w)"
    using segs by (intro log_segs_update [OF segs sg _ _ _ sr']) (simp_all add: log_segs_def)
  moreover have "dir_names ?w d (seg_files (bases b (qs @ [q @ [r']])))"
    using names by (auto intro!: dir_names_fput_known simp: seg_files_bases_snoc)
  moreover have "log_append cdc (Some r) (l, w) =
      (if seg_full cdc c (q @ [r']) then andthen (log_newSegment (off + 1)) (ret off) (?l, ?w)
       else (Inr off, (?l, ?w)))"
    using sa act a seg_rep_full [OF sr'] by (simp add: log_append_def prog_simps)
  ultimately show ?thesis by blast
qed

lemma log_append_rep:
  assumes rep: "log_rep cdc d c b rs (l, w)" and fits: "log_fits cdc c b rs r"
  shows "\<exists>l' w'. log_append cdc (Some r) (l, w) = (Inr (b + of_nat (length rs)), (l', w')) \<and>
    log_rep cdc d c b (rs @ [seg_item b rs r]) (l', w')"
proof -
  obtain qs q where rs: "rs = concat qs @ q" and ne: "[] \<notin> set qs" and nf: "\<not> seg_full cdc c q"
    and segs: "log_segs cdc d c b (qs @ [q]) (l, w)"
    and names: "dir_names w d (seg_files (bases b (qs @ [q])))" and cfg: "config_ok c"
    and big: "list_all (payload_ok c) (map (enc cdc) rs)"
    using rep by (rule log_repE)
  let ?r = "seg_item b rs r" and ?off = "b + of_nat (length rs)"
  obtain l1 w1 where run: "log_append cdc (Some r) (l, w) =
      (if seg_full cdc c (q @ [?r]) then andthen (log_newSegment (?off + 1)) (ret ?off) (l1, w1)
       else (Inr ?off, (l1, w1)))"
    and segs1: "log_segs cdc d c b (qs @ [q @ [?r]]) (l1, w1)"
    and names1: "dir_names w1 d (seg_files (bases b (qs @ [q @ [?r]])))"
    using log_append_active [OF segs ne names cfg nf] fits big unfolding rs by simp blast
  have bnd: "unat b + length (rs @ [?r]) < 2 ^ 64"
    using fits by (simp add: log_fits_def)
  have cc: "concat (qs @ [q @ [?r]]) = rs @ [?r]"
    by (simp add: rs)
  have big': "list_all (payload_ok c) (map (enc cdc) (rs @ [?r]))"
    using big fits by (simp add: log_fits_def)
  show ?thesis
  proof (cases "seg_full cdc c (q @ [?r])")
    case False
    then have "log_rep cdc d c b (rs @ [?r]) (l1, w1)"
      using big' by (intro log_repI [OF cfg bnd _ ne _ segs1 names1]) (simp_all add: rs)
    with False run show ?thesis by auto
  next
    case True
    have "?off + 1 = b + of_nat (length (rs @ [?r]))"
      by (simp add: ac_simps)
    then obtain l2 w2 where "log_newSegment (?off + 1) (l1, w1) = (Inr (), (l2, w2))"
        "log_rep cdc d c b (rs @ [?r]) (l2, w2)"
      using log_roll [OF segs1 _ names1 cfg] ne bnd big' unfolding cc by auto
    with True run show ?thesis by (auto simp: prog_simps)
  qed
qed

section \<open>Read\<close>

lemma sorted_bases:
  "[] \<notin> set qs \<Longrightarrow> unat b + length (concat qs) < 2 ^ 64 \<Longrightarrow>
     sorted_wrt (<) (bases b (qs @ [q]))"
proof (induction qs arbitrary: q rule: rev_induct)
  case (snoc p qs)
  then have "sorted_wrt (<) (bases b (qs @ [p]))"
    by simp
  moreover have "x < b + of_nat (length (concat (qs @ [p])))" if "x \<in> set (bases b (qs @ [p]))" for x
    using bases_bound [OF snoc.prems that] unat_plus_of_nat [OF snoc.prems(2)]
    by (simp add: word_less_nat_alt del: concat_append)
  ultimately show ?case
    unfolding bases_append [of b "qs @ [p]" "[q]"] sorted_wrt_append by (simp del: concat_append)
qed simp

lemma chain_nextOffset:
  "seg_rep cdc d c b q (s, w) \<Longrightarrow> baseOffset s = b \<and> unat (nextOffset s) = unat b + length q"
  by (auto elim!: seg_repE simp: unat_plus_of_nat)

lemma seg_rep_next_above:
  "seg_rep cdc d c b q (s, w) \<Longrightarrow> j < length q \<Longrightarrow> b + of_nat j < nextOffset s"
  using chain_nextOffset [of cdc d c b q s w]
  by (auto elim!: seg_repE simp: unat_plus_of_nat word_less_nat_alt)

text \<open>The segment that \<open>Read\<close> finds for an offset within the log.\<close>

lemma find_chain:
  assumes "chain cdc d c w b (map ((!) h) as) qs" "unat b + length (concat qs) < 2 ^ 64"
    and "unat b \<le> unat off" "unat off < unat b + length (concat qs)"
  shows "\<exists>as1 a as2 qs1 q qs2 j. as = as1 @ a # as2 \<and> qs = qs1 @ q # qs2 \<and> length as1 = length qs1 \<and>
    j < length q \<and> off = b + of_nat (length (concat qs1)) + of_nat j \<and>
    concat qs ! (unat off - unat b) = q ! j \<and>
    find (\<lambda>a. baseOffset (h ! a) \<le> off \<and> off < nextOffset (h ! a)) as = Some a"
  using assms
proof (induction qs arbitrary: b as)
  case (Cons q qs)
  obtain a as' where as: "as = a # as'"
    using chain_length [OF Cons.prems(1)] by (cases as) auto
  have sr: "seg_rep cdc d c b q (h ! a, w)" and ch: "chain cdc d c w (b + of_nat (length q)) (map ((!) h) as') qs"
    using Cons.prems(1) by (simp_all add: as)
  note nx = chain_nextOffset [OF sr]
  have b': "unat (b + of_nat (length q)) = unat b + length q"
    using Cons.prems(2) by (intro unat_plus_of_nat) simp
  show ?case
  proof (cases "unat off < unat b + length q")
    case True
    have "off = b + of_nat (unat off - unat b)"
      using Cons.prems(3) by (simp add: word_unat_eq_iff unat_plus_of_nat unat_u64_less)
    moreover have "baseOffset (h ! a) \<le> off \<and> off < nextOffset (h ! a)"
      using nx True Cons.prems(3) by (simp add: word_le_nat_alt word_less_nat_alt)
    ultimately have "find (\<lambda>a. baseOffset (h ! a) \<le> off \<and> off < nextOffset (h ! a)) as = Some a"
        "off = b + of_nat (length (concat ([] :: log_record list list))) + of_nat (unat off - unat b)"
      by (simp_all add: as)
    moreover have "unat off - unat b < length q" "concat (q # qs) ! (unat off - unat b) = q ! (unat off - unat b)"
      using True Cons.prems(3) by (auto simp: nth_append)
    moreover have "as = [] @ a # as'" "q # qs = [] @ q # qs" "length ([] :: nat list) = length ([] :: log_record list list)"
      by (simp_all add: as)
    ultimately show ?thesis
      by blast
  next
    case False
    then have skip: "\<not> (baseOffset (h ! a) \<le> off \<and> off < nextOffset (h ! a))"
      using nx by (simp add: word_less_nat_alt)
    have "unat off < unat (b + of_nat (length q)) + length (concat qs)"
      using Cons.prems(4) by (simp add: b')
    then obtain as1 a1 as2 qs1 q1 qs2 j where i: "as' = as1 @ a1 # as2" "qs = qs1 @ q1 # qs2"
      "length as1 = length qs1" "j < length q1"
      "off = b + of_nat (length q) + of_nat (length (concat qs1)) + of_nat j"
      "concat qs ! (unat off - (unat b + length q)) = q1 ! j"
      "find (\<lambda>a. baseOffset (h ! a) \<le> off \<and> off < nextOffset (h ! a)) as' = Some a1"
      using Cons.IH [OF ch] Cons.prems(2) False by (auto simp: b')
    show ?thesis
    proof (intro exI conjI)
      show "as = (a # as1) @ a1 # as2" "q # qs = (q # qs1) @ q1 # qs2" "length (a # as1) = length (q # qs1)"
        using as i(1-3) by simp_all
      show "off = b + of_nat (length (concat (q # qs1))) + of_nat j"
        using i(5) by simp
      show "concat (q # qs) ! (unat off - unat b) = q1 ! j"
        using i(6) False by (simp add: nth_append)
      show "find (\<lambda>a. baseOffset (h ! a) \<le> off \<and> off < nextOffset (h ! a)) as = Some a1"
        using i(7) skip as by auto
    qed (rule i(4))
  qed
qed simp

lemma find_chain_none:
  assumes "chain cdc d c w b (map ((!) h) as) qs" "unat b + length (concat qs) < 2 ^ 64"
    and "unat off < unat b \<or> unat b + length (concat qs) \<le> unat off"
  shows "find (\<lambda>a. baseOffset (h ! a) \<le> off \<and> off < nextOffset (h ! a)) as = None"
  using assms
proof (induction qs arbitrary: b as)
  case Nil
  then show ?case using chain_length [OF Nil.prems(1)] by simp
next
  case (Cons q qs)
  obtain a as' where as: "as = a # as'"
    using chain_length [OF Cons.prems(1)] by (cases as) auto
  have sr: "seg_rep cdc d c b q (h ! a, w)" and ch: "chain cdc d c w (b + of_nat (length q)) (map ((!) h) as') qs"
    using Cons.prems(1) by (simp_all add: as)
  have b': "unat (b + of_nat (length q)) = unat b + length q"
    using Cons.prems(2) by (intro unat_plus_of_nat) simp
  have "\<not> (baseOffset (h ! a) \<le> off \<and> off < nextOffset (h ! a))"
    using chain_nextOffset [OF sr] Cons.prems(3) by (auto simp: word_le_nat_alt word_less_nat_alt)
  with Cons.IH [OF ch] Cons.prems(2,3) as show ?case
    by (auto simp: b')
qed

text \<open>
  One segment of a chain may change and write to its own file: the others are not disturbed.
\<close>

lemma chain_update:
  assumes ch: "chain cdc d c w b (map ((!) h) (as1 @ a # as2)) (qs1 @ q # qs2)"
    and len: "length as1 = length qs1" and dist: "distinct (as1 @ a # as2)" and a: "a < length h"
    and db: "distinct (bases b (qs1 @ q # qs2))"
    and sr: "seg_rep cdc d c (b + of_nat (length (concat qs1))) q
      (s', fput d (store_file_name (b + of_nat (length (concat qs1)))) x w)"
  shows "chain cdc d c (fput d (store_file_name (b + of_nat (length (concat qs1)))) x w) b
      (map ((!) (h[a := s'])) (as1 @ a # as2)) (qs1 @ q # qs2)"
proof -
  let ?base = "b + of_nat (length (concat qs1))"
  let ?f = "store_file_name ?base"
  have upd: "map ((!) (h[a := s'])) as1 = map ((!) h) as1" "map ((!) (h[a := s'])) as2 = map ((!) h) as2"
    using dist by (auto intro!: nth_list_update_neq)
  have "?base \<notin> set (bases b qs1)" "?base \<notin> set (bases (?base + of_nat (length q)) qs2)"
    using db by (auto simp: bases_append)
  then have fr: "?f \<notin> seg_files (bases b qs1)" "?f \<notin> seg_files (bases (?base + of_nat (length q)) qs2)"
    by (simp_all add: seg_files_fresh)
  have "chain cdc d c w b (map ((!) h) as1) qs1"
    "chain cdc d c w (?base + of_nat (length q)) (map ((!) h) as2) qs2"
    using ch len by (simp_all add: chain_append)
  then show ?thesis
    using sr len a fr by (simp add: chain_append upd chain_frame del: map_eq_conv)
qed

lemma log_read_rep:
  assumes rep: "log_rep cdc d c b rs (l, w)" and k: "k < length rs"
  shows "\<exists>l' w'. log_read cdc (b + of_nat k) (l, w) = (Inr (rs ! k), (l', w')) \<and>
    log_rep cdc d c b rs (l', w')"
proof -
  obtain qs q where rs: "rs = concat qs @ q" and ne: "[] \<notin> set qs" and nf: "\<not> seg_full cdc c q"
    and segs: "log_segs cdc d c b (qs @ [q]) (l, w)"
    and names: "dir_names w d (seg_files (bases b (qs @ [q])))"
    and cfg: "config_ok c" and bnd: "unat b + length rs < 2 ^ 64"
    and big: "list_all (payload_ok c) (map (enc cdc) rs)"
    using rep by (rule log_repE)
  have ch: "chain cdc d c w b (map ((!) (l_heap l)) (l_segments l)) (qs @ [q])"
    and dist: "distinct (l_segments l)" and al: "\<forall>a \<in> set (l_segments l). a < length (l_heap l)"
    using segs by (auto simp: log_segs_def)
  let ?off = "b + of_nat k"
  have cc: "concat (qs @ [q]) = rs"
    by (simp add: rs)
  have off: "unat ?off = unat b + k"
    using k bnd by (intro unat_plus_of_nat) simp
  obtain as1 a as2 qs1 p qs2 j where f: "l_segments l = as1 @ a # as2" "qs @ [q] = qs1 @ p # qs2"
      "length as1 = length qs1" "j < length p"
      "?off = b + of_nat (length (concat qs1)) + of_nat j" "rs ! k = p ! j"
      "find_segment l ?off = Some a"
    using find_chain [OF ch, of ?off] bnd k unfolding cc find_segment_def off by auto
  let ?base = "b + of_nat (length (concat qs1))"
  have a: "a < length (l_heap l)"
    using al f(1) by simp
  have sr: "seg_rep cdc d c ?base p (l_heap l ! a, w)"
    using ch f(3) unfolding f(1,2) by (simp add: chain_append)
  obtain s' x where rd: "segment_read cdc (?base + of_nat j) (l_heap l ! a, w) =
        (Inr (p ! j), (s', fput d (store_file_name ?base) x w))"
    and sr': "seg_rep cdc d c ?base p (s', fput d (store_file_name ?base) x w)"
    using sr f(4) by (rule segment_read_rep)
  let ?l = "l\<lparr>l_heap := (l_heap l)[a := s']\<rparr>" and ?w = "fput d (store_file_name ?base) x w"
  have "distinct (bases b (qs @ [q]))"
    using sorted_bases [OF ne] bnd unfolding rs by (simp add: strict_sorted_iff)
  then have "chain cdc d c ?w b (map ((!) ((l_heap l)[a := s'])) (l_segments l)) (qs @ [q])"
    using ch dist sr' f(3) a unfolding f(1,2) by (intro chain_update)
  then have "log_segs cdc d c b (qs @ [q]) (?l, ?w)"
    using segs by (auto simp: log_segs_def simp del: not_None_eq)
  moreover have "dir_names ?w d (seg_files (bases b (qs @ [q])))"
    using names unfolding f(2) by (intro dir_names_fput_known) (simp_all add: bases_append seg_files_def)
  ultimately have "log_rep cdc d c b rs (?l, ?w)"
    by (intro log_repI [OF cfg bnd rs ne nf _ _ big])
  moreover have "\<not> nextOffset (l_heap l ! a) \<le> ?off"
    using seg_rep_next_above [OF sr f(4)] unfolding f(5) by simp
  then have "log_read cdc ?off (l, w) = (Inr (rs ! k), (?l, ?w))"
    using f(6,7) rd a unfolding f(5) by (simp add: log_read_def prog_simps)
  ultimately show ?thesis by blast
qed

lemma log_read_out_of_range:
  assumes rep: "log_rep cdc d c b rs (l, w)"
    and off: "unat off < unat b \<or> unat b + length rs \<le> unat off"
  shows "log_read cdc off (l, w) = (Inl (Error (ErrOffsetOutOfRange off)), (l, w))"
proof -
  obtain qs q where rs: "rs = concat qs @ q" and segs: "log_segs cdc d c b (qs @ [q]) (l, w)"
    and bnd: "unat b + length rs < 2 ^ 64"
    using rep by (rule log_repE)
  have ch: "chain cdc d c w b (map ((!) (l_heap l)) (l_segments l)) (qs @ [q])"
    using segs by (auto simp: log_segs_def)
  have "find_segment l off = None"
    unfolding find_segment_def using bnd off unfolding rs by (intro find_chain_none [OF ch]) simp_all
  then show ?thesis
    by (simp add: log_read_def prog_simps)
qed

text \<open>The log provides the record interface to the layers above.\<close>

interpretation commit_log: record_log "log_rep cdc d c b" "log_fits cdc c b" "seg_item b"
  "\<lambda>rs k. b + of_nat k" "\<lambda>r. log_append cdc (Some r)" "log_read cdc"
  for cdc d c b
proof unfold_locales
  fix rs x r
  assume "log_rep cdc d c b rs x" "log_fits cdc c b rs r"
  then show "\<exists>t. log_append cdc (Some r) x = (Inr (b + of_nat (length rs)), t) \<and>
      log_rep cdc d c b (rs @ [seg_item b rs r]) t"
    using log_append_rep by (cases x) blast
next
  fix rs x k
  assume "log_rep cdc d c b rs x" "k < length rs"
  then show "\<exists>t. log_read cdc (b + of_nat k) x = (Inr (rs ! k), t) \<and> log_rep cdc d c b rs t"
    using log_read_rep by (cases x) blast
qed simp

section \<open>Properties\<close>

text \<open>Calls of \<open>Append\<close> one after the other, whatever they return.\<close>

primrec log_appends :: "codec \<Rightarrow> log_record list \<Rightarrow> log \<times> os \<Rightarrow> u64 res list \<times> log \<times> os" where
  "log_appends cdc [] s = ([], s)"
| "log_appends cdc (r # rs) s = (case log_append cdc (Some r) s of (x, t) \<Rightarrow>
     case log_appends cdc rs t of (xs, u) \<Rightarrow> (x # xs, u))"

lemma log_appends_stuck:
  assumes "l_active l = Some a" and "a < length (l_heap l)" and "seg_stuck d base m ps next (l_heap l ! a, w)"
    and "\<forall>r \<in> set rs. encodable cdc (r\<lparr>r_offset := next\<rparr>) \<and> length (enc cdc (r\<lparr>r_offset := next\<rparr>)) \<le> max_alloc"
    and "length (frames (ps @ map (\<lambda>r. enc cdc (r\<lparr>r_offset := next\<rparr>)) rs)) < 2 ^ 63"
  shows "\<exists>l' w'. log_appends cdc rs (l, w) = (replicate (length rs) (Inl (Error EOF)), (l', w')) \<and>
    l_segments l' = l_segments l \<and> l_active l' = Some a \<and>
    seg_stuck d base m (ps @ map (\<lambda>r. enc cdc (r\<lparr>r_offset := next\<rparr>)) rs) next (l_heap l' ! a, w')"
  using assms
proof (induction rs arbitrary: l w ps)
  case (Cons r rs)
  let ?p = "enc cdc (r\<lparr>r_offset := next\<rparr>)"
  have fits: "store_fits ps ?p"
    using Cons.prems(4,5) by (simp add: store_fits_def)
  obtain s' w' where ap: "segment_append cdc (Some r) (l_heap l ! a, w) = (Inl (Error EOF), (s', w'))"
      "seg_stuck d base m (ps @ [?p]) next (s', w')"
    using seg_stuck_append [OF Cons.prems(3) _ fits] Cons.prems(4) by auto
  let ?l = "l\<lparr>l_heap := (l_heap l)[a := s']\<rparr>"
  have "log_append cdc (Some r) (l, w) = (Inl (Error EOF), (?l, w'))"
    using Cons.prems(1,2) ap(1) by (simp add: log_append_def prog_simps)
  then show ?case
    using Cons.IH [of ?l "ps @ [?p]" w'] ap(2) Cons.prems by auto
qed simp

text \<open>
  C30: an index limit that is not a whole number of entries stops the log for good. When fewer
  than twelve bytes are left in the index of the active segment and its store is not full, the
  segment is not maxed, so the log has not started a new one. From then on every append fails with
  \<open>io.EOF\<close>, however many there are, as long as their payloads fit into a file; no new segment is
  started, also when the failed appends have filled the store, the next offset stays, and the
  payload of each failed append is left behind in the store.
\<close>

theorem log_odd_index_limit:
  assumes "log_segs cdc d c b (qs @ [q]) (l, w)"
    and "length q * 12 < unat (MaxIndexBytes c)" and "unat (MaxIndexBytes c) < (length q + 1) * 12"
    and "length (frames (map (enc cdc) q)) < unat (MaxStoreBytes c)"
    and "next = b + of_nat (length (concat qs @ q))"
    and "\<forall>r \<in> set rs. encodable cdc (r\<lparr>r_offset := next\<rparr>) \<and> length (enc cdc (r\<lparr>r_offset := next\<rparr>)) \<le> max_alloc"
    and "length (frames (map (enc cdc) (q @ map (\<lambda>r. r\<lparr>r_offset := next\<rparr>) rs))) < 2 ^ 63"
  shows "\<exists>a l' w'. l_active l = Some a \<and> \<not> IsMaxed (l_heap l ! a) \<and> nextOffset (l_heap l ! a) = next \<and>
    log_appends cdc rs (l, w) = (replicate (length rs) (Inl (Error EOF)), (l', w')) \<and>
    l_segments l' = l_segments l \<and> l_active l' = Some a \<and> nextOffset (l_heap l' ! a) = next \<and>
    store_rep (map (enc cdc) (q @ map (\<lambda>r. r\<lparr>r_offset := next\<rparr>) rs)) (sg_store (l_heap l' ! a), w')"
proof -
  obtain as a where a: "l_active l = Some a" "a < length (l_heap l)"
      "seg_rep cdc d c (b + of_nat (length (concat qs))) q (l_heap l ! a, w)"
    using assms(1) by (rule log_segs_lastE)
  have n: "next = b + of_nat (length (concat qs)) + of_nat (length q)"
    using assms(5) by simp
  have stuck: "seg_stuck d (b + of_nat (length (concat qs))) (unat (MaxIndexBytes c)) (map (enc cdc) q) next (l_heap l ! a, w)"
    unfolding n using seg_rep_stuck [OF a(3)] assms(3) by simp
  then obtain l' w' where "log_appends cdc rs (l, w) = (replicate (length rs) (Inl (Error EOF)), (l', w'))"
      "l_segments l' = l_segments l" "l_active l' = Some a"
      "seg_stuck d (b + of_nat (length (concat qs))) (unat (MaxIndexBytes c))
         (map (enc cdc) q @ map (\<lambda>r. enc cdc (r\<lparr>r_offset := next\<rparr>)) rs) next (l_heap l' ! a, w')"
    using log_appends_stuck [OF a(1,2) stuck assms(6)] assms(7) by (auto simp: comp_def)
  then show ?thesis
    using a(1) seg_rep_not_maxed [OF a(3) assms(2,4)] stuck by (auto simp: seg_stuck_def comp_def)
qed

theorem log_odd_index_limit_witness:
  "\<exists>l w a l' w'. l_active l = Some a \<and> \<not> IsMaxed (l_heap l ! a) \<and>
     log_appends demo_codec [demo_record 2, demo_record 3, demo_record 4] (l, w) =
       ([Inl (Error EOF), Inl (Error EOF), Inl (Error EOF)], (l', w'))"
proof -
  obtain s w where sg: "seg_rep demo_codec ''log'' odd_config 0 [demo_record 1] (s, w)"
    using odd_segment by blast
  let ?l = "\<lparr>l_dir = ''log'', l_config = odd_config, l_heap = [s], l_segments = [0], l_active = Some 0\<rparr>"
  have "healthy w" "os_dirs w ''log'' \<noteq> None"
    using sg by (auto elim!: seg_repE index_repE simp: fget_def split: option.splits)
  then have segs: "log_segs demo_codec ''log'' odd_config 0 ([] @ [[demo_record 1]]) (?l, w)"
    using sg by (simp add: log_segs_def)
  have "\<exists>a l' w'. l_active ?l = Some a \<and> \<not> IsMaxed (l_heap ?l ! a) \<and> nextOffset (l_heap ?l ! a) = 1 \<and>
    log_appends demo_codec [demo_record 2, demo_record 3, demo_record 4] (?l, w) =
      (replicate (length [demo_record 2, demo_record 3, demo_record 4]) (Inl (Error EOF)), (l', w')) \<and>
    l_segments l' = l_segments ?l \<and> l_active l' = Some a \<and> nextOffset (l_heap l' ! a) = 1 \<and>
    store_rep (map (enc demo_codec) ([demo_record 1] @ map (\<lambda>r. r\<lparr>r_offset := 1\<rparr>) [demo_record 2, demo_record 3, demo_record 4]))
      (sg_store (l_heap l' ! a), w')"
    by (rule log_odd_index_limit [OF segs]) (simp_all add: demo_encodable odd_config_def length_demo_enc demo_record_def max_alloc_def)
  moreover have "replicate (length [demo_record 2, demo_record 3, demo_record 4]) x = [x, x, x]" for x :: "u64 res"
    by simp
  ultimately show ?thesis
    by metis
qed

end
