(* ===== verification/LogRecovery.thy ===== *)
theory LogRecovery
  imports CommitLog "HOL-Library.Multiset"
begin

text \<open>
  Closing a log and opening it again, \<open>NewLog\<close>, \<open>setup\<close> and \<open>Close\<close> of
  \<open>internal/log/log.go\<close>: what the files hold after \<open>Close\<close>, and that \<open>setup\<close> finds the
  segments again from the names of the files.
\<close>

section \<open>The directory of a closed log\<close>

fun stored :: "codec \<Rightarrow> string \<Rightarrow> seg_config \<Rightarrow> os \<Rightarrow> u64 \<Rightarrow> log_record list list \<Rightarrow> bool" where
  "stored cdc d c w b [] = True"
| "stored cdc d c w b (q # qs) =
     (fget w d (store_file_name b) = Some (frames (map (enc cdc) q)) \<and>
      fget w d (index_file_name b) = Some (ientries (seg_entries (map (enc cdc) q))) \<and>
      length (frames (map (enc cdc) q)) < 2 ^ 63 \<and>
      list_all (\<lambda>p. length p \<le> max_alloc) (map (enc cdc) q) \<and>
      length q * 12 \<le> unat (MaxIndexBytes c) \<and>
      list_all (encodable cdc) q \<and> (\<forall>k < length q. r_offset (q ! k) = b + of_nat k) \<and>
      unat b + length q < 2 ^ 64 \<and>
      stored cdc d c w (b + of_nat (length q)) qs)"

lemma stored_cong:
  "(\<And>n. n \<in> seg_files (bases b qs) \<Longrightarrow> fget w' d n = fget w d n) \<Longrightarrow>
     stored cdc d c w' b qs \<longleftrightarrow> stored cdc d c w b qs"
  by (induction cdc d c w b qs rule: stored.induct) (auto simp: seg_files_def)

lemma stored_frame:
  "n \<notin> seg_files (bases b qs) \<Longrightarrow> stored cdc d c (fput d n x w) b qs \<longleftrightarrow> stored cdc d c w b qs"
  by (rule stored_cong) (metis Pair_inject fget_fput_other)

section \<open>Close\<close>

text \<open>
  Closing the segments one after the other leaves their records in their files, and changes no
  other file.
\<close>

lemma close_chain:
  assumes "chain cdc d c w b (map ((!) (l_heap l)) as) qs" "distinct as"
    "\<forall>a \<in> set as. a < length (l_heap l)" "distinct (bases b qs)" "healthy w" "os_dirs w d \<noteq> None"
    "dir_names w d ns" "seg_files (bases b qs) \<subseteq> ns"
  shows "\<exists>h' w'. prog_iter (\<lambda>a. on_segment a segment_close) as (l, w) = (Inr (), (l\<lparr>l_heap := h'\<rparr>, w')) \<and>
    stored cdc d c w' b qs \<and> (\<forall>n. n \<notin> seg_files (bases b qs) \<longrightarrow> fget w' d n = fget w d n) \<and>
    healthy w' \<and> dir_names w' d ns"
  using assms
proof (induction qs arbitrary: l w b as)
  case Nil
  then have "as = []"
    using chain_length [OF Nil.prems(1)] by simp
  then show ?case
    using Nil.prems(5,7) by (intro exI [of _ "l_heap l"]) (simp add: prog_simps)
next
  case (Cons q qs)
  obtain a as' where as: "as = a # as'"
    using chain_length [OF Cons.prems(1)] by (cases as) auto
  let ?b' = "b + of_nat (length q)" and ?sf = "store_file_name b" and ?xf = "index_file_name b"
  have sr: "seg_rep cdc d c b q (l_heap l ! a, w)" and a: "a < length (l_heap l)"
    and ch: "chain cdc d c w ?b' (map ((!) (l_heap l)) as') qs"
    using Cons.prems(1,3) by (simp_all add: as)
  have fr: "?sf \<notin> seg_files (bases ?b' qs)" "?xf \<notin> seg_files (bases ?b' qs)"
    using Cons.prems(4) by (simp_all add: seg_files_fresh)
  have sub: "seg_files (bases ?b' qs) \<subseteq> ns" "?sf \<in> ns" "?xf \<in> ns"
    using Cons.prems(8) by (auto simp: seg_files_def)
  let ?w1 = "fput d ?sf (frames (map (enc cdc) q))
      (fput d ?xf (ientries (seg_entries (map (enc cdc) q))) w)"
  obtain s' where cl: "segment_close (l_heap l ! a, w) = (Inr (), (s', ?w1))"
    using segment_close_rep [OF sr] by blast
  let ?l1 = "l\<lparr>l_heap := (l_heap l)[a := s']\<rparr>"
  have keep: "map ((!) (l_heap ?l1)) as' = map ((!) (l_heap l)) as'"
    using Cons.prems(2) as by (auto intro!: nth_list_update_neq)
  have ch1: "chain cdc d c ?w1 ?b' (map ((!) (l_heap ?l1)) as') qs"
    unfolding keep using ch fr by (simp add: chain_frame)
  have prems: "distinct as'" "\<forall>a \<in> set as'. a < length (l_heap ?l1)" "distinct (bases ?b' qs)" "healthy ?w1"
      "os_dirs ?w1 d \<noteq> None" "dir_names ?w1 d ns"
    using Cons.prems(2-7) sub(2,3) by (auto simp: as intro!: dir_names_fput_known simp del: not_None_eq)
  obtain h' w' where run: "prog_iter (\<lambda>a. on_segment a segment_close) as' (?l1, ?w1) =
        (Inr (), (?l1\<lparr>l_heap := h'\<rparr>, w'))"
    and st: "stored cdc d c w' ?b' qs" and fg: "\<forall>n. n \<notin> seg_files (bases ?b' qs) \<longrightarrow> fget w' d n = fget ?w1 d n"
    and hn: "healthy w'" "dir_names w' d ns"
    using Cons.IH [OF ch1 prems sub(1)] by blast
  have "prog_iter (\<lambda>a. on_segment a segment_close) as (l, w) = (Inr (), (l\<lparr>l_heap := h'\<rparr>, w'))"
    using run cl a by (simp add: as prog_simps)
  moreover have "stored cdc d c w' b (q # qs)"
    using sr st fg fr Cons.prems(6) by (auto elim!: seg_repE simp: store_rep_def index_rep_def fget_fput)
  moreover have "\<forall>n. n \<notin> seg_files (bases b (q # qs)) \<longrightarrow> fget w' d n = fget w d n"
    using fg by (auto simp: seg_files_def)
  ultimately show ?case
    using hn by blast
qed

lemma log_close_rep:
  assumes rep: "log_rep cdc d c b rs (l, w)"
  obtains l' w' qs q where "log_close (l, w) = (Inr (), (l', w'))" "l_dir l' = d" "rs = concat qs @ q" "[] \<notin> set qs"
    "\<not> seg_full cdc c q" "stored cdc d c w' b (qs @ [q])" "healthy w'"
    "dir_names w' d (seg_files (bases b (qs @ [q])))"
proof -
  obtain qs q where rs: "rs = concat qs @ q" and ne: "[] \<notin> set qs" and nf: "\<not> seg_full cdc c q"
    and segs: "log_segs cdc d c b (qs @ [q]) (l, w)"
    and names: "dir_names w d (seg_files (bases b (qs @ [q])))" and bnd: "unat b + length rs < 2 ^ 64"
    using rep by (rule log_repE)
  have "distinct (bases b (qs @ [q]))"
    using sorted_bases [OF ne] bnd unfolding rs by (simp add: strict_sorted_iff)
  then obtain h' w' where "prog_iter (\<lambda>a. on_segment a segment_close) (l_segments l) (l, w) =
        (Inr (), (l\<lparr>l_heap := h'\<rparr>, w'))" "stored cdc d c w' b (qs @ [q])" "healthy w'"
      "dir_names w' d (seg_files (bases b (qs @ [q])))"
    using close_chain [of cdc d c w b l "l_segments l" "qs @ [q]", OF _ _ _ _ _ _ names order_refl] segs
    by (auto simp: log_segs_def)
  with rs ne nf that [of "l\<lparr>l_heap := h'\<rparr>"] segs show thesis
    by (auto simp: log_close_def log_segs_def prog_simps)
qed

section \<open>Opening\<close>

text \<open>
  Each base offset is found twice among the names of the files, once for the store and once
  for the index, and sorting puts the two next to each other.
\<close>

lemma sorted_twice: "sorted xs \<Longrightarrow> sorted (concat (map (\<lambda>x. [x, x]) xs))" for xs :: "u64 list"
  by (induction xs) auto

lemma every_other_twice: "every_other (concat (map (\<lambda>x. [x, x]) xs)) = xs"
  by (induction xs) auto

lemma mset_twice: "mset (concat (map (\<lambda>x. [x, x]) xs)) = mset xs + mset xs"
  by (induction xs) auto

lemma mset_names:
  assumes "distinct ns" "set ns = seg_files bs" "distinct bs"
  shows "mset ns = image_mset store_file_name (mset bs) + image_mset index_file_name (mset bs)"
proof -
  have "distinct (map store_file_name bs @ map index_file_name bs)"
    using assms(3) by (auto simp: distinct_map inj_on_def)
  moreover have "set (map store_file_name bs @ map index_file_name bs) = set ns"
    using assms(2) by (auto simp: seg_files_def)
  ultimately have "mset ns = mset (map store_file_name bs @ map index_file_name bs)"
    using assms(1) set_eq_iff_mset_eq_distinct by blast
  then show ?thesis by simp
qed

lemma setup_bases:
  assumes "distinct ns" "set ns = seg_files bs" "sorted_wrt (<) bs"
  shows "every_other (sort (map base_offset_of ns)) = bs"
proof -
  have bs: "sorted bs" "distinct bs"
    using assms(3) by (simp_all add: strict_sorted_iff)
  have "mset (map base_offset_of ns) = mset (concat (map (\<lambda>x. [x, x]) bs))"
    using mset_names [OF assms(1,2) bs(2)] by (simp add: mset_twice multiset.map_comp comp_def)
  then have "sort (map base_offset_of ns) = concat (map (\<lambda>x. [x, x]) bs)"
    using sorted_twice [OF bs(1)] by (intro properties_for_sort) simp_all
  then show ?thesis
    by (simp add: every_other_twice)
qed

lemma read_dir_names:
  assumes "healthy w" "dir_names w d ns"
  obtains fs where "read_dir d w = (Inr fs, w)" "distinct fs" "set fs = ns"
  using assms by (auto simp: dir_names_def read_dir_def prog_simps)

text \<open>The loop of \<open>setup\<close> opens the segments that the directory holds.\<close>

lemma setup_loop:
  assumes "log_segs cdc d c b ps (l, w)" "config_ok c"
    "stored cdc d c w (b + of_nat (length (concat ps))) qs" "distinct (bases b (ps @ qs))"
    "dir_names w d ns" "seg_files (bases b (ps @ qs)) \<subseteq> ns"
  shows "\<exists>l' w'. prog_iter log_newSegment (bases (b + of_nat (length (concat ps))) qs) (l, w) =
      (Inr (), (l', w')) \<and> log_segs cdc d c b (ps @ qs) (l', w') \<and> dir_names w' d ns"
  using assms
proof (induction qs arbitrary: ps l w)
  case Nil
  then show ?case by (simp add: prog_simps)
next
  case (Cons q qs)
  let ?base = "b + of_nat (length (concat ps))"
  have st: "stored cdc d c w ?base (q # qs)"
    using Cons.prems(3) by simp
  have fresh: "?base \<notin> set (bases b ps)" "?base \<notin> set (bases (?base + of_nat (length q)) qs)"
    using Cons.prems(4) by (auto simp: bases_append)
  obtain l1 x y where run: "log_newSegment ?base (l, w) =
        (Inr (), (l1, fput d (index_file_name ?base) x (fput d (store_file_name ?base) y w)))"
    and segs: "log_segs cdc d c b (ps @ [q])
        (l1, fput d (index_file_name ?base) x (fput d (store_file_name ?base) y w))"
    using log_newSegment_step [OF Cons.prems(1,2) fresh(1) refl, of q] st by auto
  let ?w1 = "fput d (index_file_name ?base) x (fput d (store_file_name ?base) y w)"
  have next_base: "b + of_nat (length (concat (ps @ [q]))) = ?base + of_nat (length q)"
    by (simp add: add.assoc)
  have st1: "stored cdc d c ?w1 (b + of_nat (length (concat (ps @ [q])))) qs"
    unfolding next_base using st seg_files_fresh [OF fresh(2)] by (simp add: stored_frame)
  have "index_file_name ?base \<in> ns" "store_file_name ?base \<in> ns"
    using Cons.prems(6) by (auto simp: seg_files_def bases_append)
  then have names: "dir_names ?w1 d ns"
    using Cons.prems(5) by (simp add: dir_names_fput_known)
  have "distinct (bases b ((ps @ [q]) @ qs))" "seg_files (bases b ((ps @ [q]) @ qs)) \<subseteq> ns"
    using Cons.prems(4,6) by simp_all
  from Cons.IH [OF segs Cons.prems(2) st1 this(1) names this(2), unfolded next_base] run
  show ?case by (auto simp: prog_simps)
qed

lemma default_config_ok: "config_ok c \<Longrightarrow> default_config c = c"
  by (auto simp: default_config_def config_ok_def Let_def)

text \<open>The defaults are filled in once and for all.\<close>

lemma default_config_idem: "default_config (default_config c) = default_config c"
  by (simp add: default_config_def Let_def)

lemma default_config_offset [simp]:
  "InitialOffset (default_config c) = InitialOffset c"
  "default_config (c\<lparr>InitialOffset := off\<rparr>) = (default_config c)\<lparr>InitialOffset := off\<rparr>"
  by (simp_all add: default_config_def Let_def)

lemma NewLog_default: "NewLog d (default_config c) = NewLog d c"
  by (simp add: NewLog_def default_config_idem)

lemma NewLog_stored:
  assumes cfg: "config_ok c" and st: "stored cdc d c w b (qs @ [q])" and h: "healthy w"
    and names: "dir_names w d (seg_files (bases b (qs @ [q])))"
    and ne: "[] \<notin> set qs" and nf: "\<not> seg_full cdc c q" and bnd: "unat b + length (concat qs @ q) < 2 ^ 64"
    and big: "list_all (payload_ok c) (map (enc cdc) (concat qs @ q))"
  shows "\<exists>l' w'. NewLog d c w = (Inr l', w') \<and> log_rep cdc d c b (concat qs @ q) (l', w')"
proof -
  let ?l = "\<lparr>l_dir = d, l_config = c, l_heap = [], l_segments = [], l_active = None\<rparr>"
  have srt: "sorted_wrt (<) (bases b (qs @ [q]))"
    using sorted_bases [OF ne] bnd by simp
  obtain fs where fs: "read_dir d w = (Inr fs, w)" and
      bs: "every_other (sort (map base_offset_of fs)) = bases b (qs @ [q])"
    using read_dir_names [OF h names] setup_bases [OF _ _ srt] by metis
  have segs0: "log_segs cdc d c b [] (?l, w)"
    using h dir_names_dir [OF names] by (simp add: log_segs_def)
  have db: "distinct (bases b (qs @ [q]))"
    using srt by (simp add: strict_sorted_iff)
  obtain l' w' where run: "prog_iter log_newSegment (bases b (qs @ [q])) (?l, w) = (Inr (), (l', w'))"
    and segs: "log_segs cdc d c b (qs @ [q]) (l', w')"
    and names': "dir_names w' d (seg_files (bases b (qs @ [q])))"
    using setup_loop [OF segs0 cfg _ _ names, of "qs @ [q]"] st db by auto
  have "l_segments l' \<noteq> []"
    using segs by (auto elim: log_segs_lastE)
  then have "NewLog d c w = (Inr l', w')"
    using fs bs run by (simp add: NewLog_def log_setup_def default_config_ok [OF cfg] prog_simps)
  moreover have "log_rep cdc d c b (concat qs @ q) (l', w')"
    using ne nf bnd segs names' big by (intro log_repI [OF cfg]) simp_all
  ultimately show ?thesis by blast
qed

text \<open>Opening an empty directory gives an empty log that begins at the configured offset.\<close>

lemma NewLog_empty:
  assumes cfg: "config_ok c" and h: "healthy w" and names: "dir_names w d {}"
  shows "\<exists>l' w'. NewLog d c w = (Inr l', w') \<and> log_rep cdc d c (InitialOffset c) [] (l', w')"
proof -
  let ?l = "\<lparr>l_dir = d, l_config = c, l_heap = [], l_segments = [], l_active = None\<rparr>"
  have fs: "read_dir d w = (Inr [], w)"
    using read_dir_names [OF h names] by auto
  have "log_segs cdc d c (InitialOffset c) [] (?l, w)"
    using h dir_names_dir [OF names] by (simp add: log_segs_def)
  then obtain l' w' where "log_newSegment (InitialOffset c) (?l, w) = (Inr (), (l', w'))"
      "log_rep cdc d c (InitialOffset c) [] (l', w')"
    using log_roll [of cdc d c "InitialOffset c" "[]" ?l w] names cfg unat_u64_less [of "InitialOffset c"]
    by (auto simp: seg_files_def)
  with fs show ?thesis
    by (intro exI [of _ l'] exI [of _ w'])
      (simp add: NewLog_def log_setup_def default_config_ok [OF cfg] prog_simps)
qed

text \<open>With limits that are left out the log has the default limits.\<close>

lemma NewLog_defaults:
  assumes "config_ok (default_config c)" and "healthy w" and "dir_names w d {}"
  shows "\<exists>l' w'. NewLog d c w = (Inr l', w') \<and> log_rep cdc d (default_config c) (InitialOffset c) [] (l', w')"
  using NewLog_empty [OF assms] by (simp add: NewLog_default)

text \<open>
  The agent leaves all limits out. The index of 1024 bytes has room for 85 entries and 4 bytes more,
  which does no harm when a record takes at least five bytes: 85 of these fill the store.
\<close>

definition zero_config :: seg_config where
  "zero_config = \<lparr>MaxStoreBytes = 0, MaxIndexBytes = 0, InitialOffset = 0\<rparr>"

lemma zero_config_ok: "config_ok (default_config zero_config)" "InitialOffset zero_config = 0"
  by (simp_all add: config_ok_def default_config_def zero_config_def Let_def)

lemma zero_config_payload: "payload_ok (default_config zero_config) p \<longleftrightarrow> 5 \<le> length p"
  by (auto simp: payload_ok_def default_config_def zero_config_def Let_def)

end
