(* ===== verification/LogTruncate.thy ===== *)
theory LogTruncate
  imports CommitLog
begin

text \<open>
  \<open>LowestOffset\<close>, \<open>HighestOffset\<close> and \<open>Truncate\<close> of \<open>internal/log/log.go\<close>: the range of
  offsets that a log reports, and which segments \<open>Truncate\<close> removes.
\<close>

section \<open>The range of a log\<close>

lemma LowestOffset_rep:
  assumes "log_rep cdc d c b rs (l, w)"
  shows "LowestOffset (l, w) = (Inr b, (l, w))"
proof -
  obtain qs q where segs: "log_segs cdc d c b (qs @ [q]) (l, w)"
    using assms by (rule log_repE)
  then obtain p ps a as where "qs @ [q] = p # ps" "l_segments l = a # as"
    by (cases "qs @ [q]"; cases "l_segments l") (auto simp: log_segs_def)
  with segs have "baseOffset (l_heap l ! a) = b"
    by (auto simp: log_segs_def elim: seg_repE)
  with \<open>l_segments l = a # as\<close> show ?thesis
    by (simp add: LowestOffset_def prog_simps)
qed

lemma HighestOffset_rep:
  assumes "log_rep cdc d c b rs (l, w)"
  shows "HighestOffset (l, w) =
    (Inr (if b + of_nat (length rs) = 0 then 0 else b + of_nat (length rs) - 1), (l, w))"
proof -
  obtain qs q where rs: "rs = concat qs @ q" and segs: "log_segs cdc d c b (qs @ [q]) (l, w)"
    using assms by (rule log_repE)
  obtain as a where "l_segments l = as @ [a]"
      "seg_rep cdc d c (b + of_nat (length (concat qs))) q (l_heap l ! a, w)"
    using segs by (rule log_segs_lastE)
  then show ?thesis
    by (auto simp: HighestOffset_def prog_simps rs Let_def add.assoc elim!: seg_repE)
qed

section \<open>Removing a segment\<close>

text \<open>A segment and a chain of segments depend on their own files only.\<close>

lemma seg_rep_cong:
  assumes "os_faults w' = os_faults w" "fget w' d (store_file_name base) = fget w d (store_file_name base)"
    "fget w' d (index_file_name base) = fget w d (index_file_name base)"
  shows "seg_rep cdc d c base rs (s, w') \<longleftrightarrow> seg_rep cdc d c base rs (s, w)"
  using assms by (auto simp: seg_rep_def store_rep_def index_rep_def writes_to_def)

lemma chain_cong:
  assumes "os_faults w' = os_faults w" "\<And>n. n \<in> seg_files (bases b qs) \<Longrightarrow> fget w' d n = fget w d n"
  shows "chain cdc d c w' b ss qs \<longleftrightarrow> chain cdc d c w b ss qs"
  using assms
proof (induction cdc d c w b ss qs rule: chain.induct)
  case (2 cdc d c w b s ss q qs)
  then show ?case
    using seg_rep_cong [of w' w d b] by (simp add: seg_files_def)
qed auto

lemma dir_names_fdel: "dir_names w d ns \<Longrightarrow> dir_names (fdel d n w) d (ns - {n})"
  by (auto simp: dir_names_def fdel_def delete_keys distinct_removeAll simp del: set_map)

lemma segment_remove_rep:
  assumes rep: "seg_rep cdc d c base rs (s, w)" and names: "dir_names w d ns"
    and ns: "store_file_name base \<in> ns" "index_file_name base \<in> ns"
  shows "\<exists>s' w'. segment_remove (s, w) = (Inr (), (s', w')) \<and> os_faults w' = os_faults w \<and>
    (\<forall>n. n \<noteq> store_file_name base \<longrightarrow> n \<noteq> index_file_name base \<longrightarrow> fget w' d n = fget w d n) \<and>
    dir_names w' d (ns - {store_file_name base, index_file_name base})"
proof -
  let ?w1 = "fput d (store_file_name base) (frames (map (enc cdc) rs))
      (fput d (index_file_name base) (ientries (seg_entries (map (enc cdc) rs))) w)"
  let ?w2 = "fdel d (store_file_name base) (fdel d (index_file_name base) ?w1)"
  have dir: "os_dirs w d \<noteq> None" and h: "healthy w"
    and files: "f_dir (st_file (sg_store s)) = d" "f_name (st_file (sg_store s)) = store_file_name base"
    "f_dir (ix_file (sg_index s)) = d" "f_name (ix_file (sg_index s)) = index_file_name base"
    using rep dir_names_dir [OF names] by (auto elim!: seg_repE simp: store_rep_def writes_to_def)
  obtain s' where "segment_close (s, w) = (Inr (), (s', ?w1))"
      "sg_store s' = (sg_store s)\<lparr>st_buf := flushed (frames (map (enc cdc) rs)) (st_buf (sg_store s)),
        st_file := (st_file (sg_store s))\<lparr>f_open := False\<rparr>\<rparr>"
      "ix_file (sg_index s') = (ix_file (sg_index s))\<lparr>f_open := False\<rparr>"
    using segment_close_rep [OF rep] by blast
  then have "segment_remove (s, w) = (Inr (), (s', ?w2))"
    using files h dir by (simp add: segment_remove_def prog_simps remove_file_healthy fget_fput fget_fdel)
  moreover have "dir_names ?w2 d (ns - {index_file_name base} - {store_file_name base})"
    using names ns by (intro dir_names_fdel dir_names_fput_known)
  then have "dir_names ?w2 d (ns - {store_file_name base, index_file_name base})"
    by (simp add: Diff_insert [symmetric] insert_commute)
  ultimately show ?thesis
    by (intro exI [of _ s'] exI [of _ ?w2]) (simp add: fget_fdel)
qed

section \<open>Truncate\<close>

lemma truncate_keep:
  "\<forall>a \<in> set as. \<not> nextOffset (l_heap l ! a) \<le> lowest + 1 \<Longrightarrow>
     truncate_loop lowest as (l, w) = (Inr as, (l, w))"
  by (induction as) (auto simp: prog_simps)

lemma chain_next_ge:
  "chain cdc d c w b ss qs \<Longrightarrow> unat b + length (concat qs) < 2 ^ 64 \<Longrightarrow> s \<in> set ss \<Longrightarrow>
     unat b \<le> unat (nextOffset s)"
proof (induction cdc d c w b ss qs rule: chain.induct)
  case (2 cdc d c w b s' ss q qs)
  have "unat (b + of_nat (length q)) = unat b + length q"
    using "2.prems"(2) by (intro unat_plus_of_nat) simp
  with 2 chain_nextOffset [of cdc d c b q s' w] show ?case by auto
qed auto

text \<open>Removing the first segment of a chain leaves the rest of it, and all other files, as they were.\<close>

lemma remove_first:
  assumes "seg_rep cdc d c b q (l_heap l ! a, w)" and "chain cdc d c w (b + of_nat (length q)) (map ((!) (l_heap l)) as) qs"
    and "a \<notin> set as" and "b \<notin> set (bases (b + of_nat (length q)) qs)" and "dir_names w d ns" and "seg_files (bases b (q # qs)) \<subseteq> ns"
  shows "\<exists>s1 w1. segment_remove (l_heap l ! a, w) = (Inr (), (s1, w1)) \<and>
    chain cdc d c w1 (b + of_nat (length q)) (map ((!) ((l_heap l)[a := s1])) as) qs \<and> os_faults w1 = os_faults w \<and>
    (\<forall>n. n \<noteq> store_file_name b \<longrightarrow> n \<noteq> index_file_name b \<longrightarrow> fget w1 d n = fget w d n) \<and>
    dir_names w1 d (ns - {store_file_name b, index_file_name b}) \<and>
    seg_files (bases (b + of_nat (length q)) qs) \<subseteq> ns - {store_file_name b, index_file_name b}"
proof -
  have ns: "store_file_name b \<in> ns" "index_file_name b \<in> ns"
      "seg_files (bases (b + of_nat (length q)) qs) \<subseteq> ns - {store_file_name b, index_file_name b}"
    using assms(6) seg_files_fresh [OF assms(4)] by (auto simp: seg_files_def)
  obtain s1 w1 where rm: "segment_remove (l_heap l ! a, w) = (Inr (), (s1, w1))" "os_faults w1 = os_faults w"
      "\<forall>n. n \<noteq> store_file_name b \<longrightarrow> n \<noteq> index_file_name b \<longrightarrow> fget w1 d n = fget w d n"
      "dir_names w1 d (ns - {store_file_name b, index_file_name b})"
    using segment_remove_rep [OF assms(1,5) ns(1,2)] by blast
  have keep: "map ((!) ((l_heap l)[a := s1])) as = map ((!) (l_heap l)) as"
    using assms(3) by (auto intro!: nth_list_update_neq)
  have "chain cdc d c w1 (b + of_nat (length q)) (map ((!) ((l_heap l)[a := s1])) as) qs"
    unfolding keep using assms(2) rm(2,3) seg_files_fresh [OF assms(4)] by (subst chain_cong [of w1 w]) metis+
  with rm ns(3) show ?thesis by blast
qed

text \<open>
  The loop removes the segments of a prefix of the chain and leaves the others, with their
  files, as they were.
\<close>

lemma truncate_chain:
  assumes "chain cdc d c w b (map ((!) (l_heap l)) as) qs" "distinct as"
    "\<forall>a \<in> set as. a < length (l_heap l)" "distinct (bases b qs)" "dir_names w d ns"
    "seg_files (bases b qs) \<subseteq> ns" "unat b + length (concat qs) < 2 ^ 64"
  shows "\<exists>ps qs' h' w'. qs = ps @ qs' \<and>
    truncate_loop lowest as (l, w) = (Inr (drop (length ps) as), (l\<lparr>l_heap := h'\<rparr>, w')) \<and>
    length h' = length (l_heap l) \<and> (\<forall>a \<in> set (drop (length ps) as). h' ! a = l_heap l ! a) \<and>
    os_faults w' = os_faults w \<and> (\<forall>n. n \<notin> seg_files (bases b ps) \<longrightarrow> fget w' d n = fget w d n) \<and>
    dir_names w' d (ns - seg_files (bases b ps)) \<and>
    (ps \<noteq> [] \<longrightarrow> b + of_nat (length (concat ps)) \<le> lowest + 1) \<and>
    (qs' \<noteq> [] \<longrightarrow> lowest + 1 < b + of_nat (length (concat ps) + length (hd qs')))"
  using assms
proof (induction qs arbitrary: b as l w ns)
  case Nil
  then have "as = []"
    using chain_length [OF Nil.prems(1)] by simp
  with Nil.prems(5) show ?case
    by (intro exI [of _ "[]"] exI [of _ "l_heap l"] exI [of _ w]) (simp add: prog_simps seg_files_def)
next
  case (Cons q qs)
  obtain a as' where as: "as = a # as'"
    using chain_length [OF Cons.prems(1)] by (cases as) auto
  let ?b' = "b + of_nat (length q)"
  have sr: "seg_rep cdc d c b q (l_heap l ! a, w)" and a: "a < length (l_heap l)"
    and ch: "chain cdc d c w ?b' (map ((!) (l_heap l)) as') qs"
    using Cons.prems(1,3) by (simp_all add: as)
  have nx: "nextOffset (l_heap l ! a) = ?b'" and b': "unat ?b' = unat b + length q"
    using sr by (auto elim!: seg_repE simp: unat_plus_of_nat)
  show ?case
  proof (cases "?b' \<le> lowest + 1")
    case False
    have "\<not> nextOffset (l_heap l ! x) \<le> lowest + 1" if "x \<in> set as" for x
      using chain_next_ge [OF ch] Cons.prems(7) that False nx b'
      by (fastforce simp: as word_le_nat_alt)
    then have "truncate_loop lowest as (l, w) = (Inr as, (l, w))"
      by (intro truncate_keep) blast
    with False Cons.prems(5) show ?thesis
      by (intro exI [of _ "[]"] exI [of _ "q # qs"] exI [of _ "l_heap l"] exI [of _ w])
        (simp add: seg_files_def not_le)
  next
    case True
    obtain s1 w1 where rm: "segment_remove (l_heap l ! a, w) = (Inr (), (s1, w1))"
        and ch1: "chain cdc d c w1 ?b' (map ((!) ((l_heap l)[a := s1])) as') qs"
        and w1: "os_faults w1 = os_faults w" "\<forall>n. n \<noteq> store_file_name b \<longrightarrow> n \<noteq> index_file_name b \<longrightarrow> fget w1 d n = fget w d n"
          "dir_names w1 d (ns - {store_file_name b, index_file_name b})"
        and sub: "seg_files (bases ?b' qs) \<subseteq> ns - {store_file_name b, index_file_name b}"
      using remove_first [OF sr ch _ _ Cons.prems(5,6)] Cons.prems(2,4) as by auto
    let ?l1 = "l\<lparr>l_heap := (l_heap l)[a := s1]\<rparr>"
    obtain ps qs' h' w' where ih: "qs = ps @ qs'"
        "truncate_loop lowest as' (?l1, w1) = (Inr (drop (length ps) as'), (?l1\<lparr>l_heap := h'\<rparr>, w'))"
        "length h' = length (l_heap ?l1)" "\<forall>a \<in> set (drop (length ps) as'). h' ! a = l_heap ?l1 ! a"
        "os_faults w' = os_faults w1" "\<forall>n. n \<notin> seg_files (bases ?b' ps) \<longrightarrow> fget w' d n = fget w1 d n"
        "dir_names w' d (ns - {store_file_name b, index_file_name b} - seg_files (bases ?b' ps))"
        "ps \<noteq> [] \<longrightarrow> ?b' + of_nat (length (concat ps)) \<le> lowest + 1"
        "qs' \<noteq> [] \<longrightarrow> lowest + 1 < ?b' + of_nat (length (concat ps) + length (hd qs'))"
      using Cons.IH [of w1 ?b' ?l1 as', OF _ _ _ _ w1(3) sub] ch1 Cons.prems(2,3,4,7) b' as by auto
    show ?thesis
    proof (intro exI conjI)
      show "q # qs = (q # ps) @ qs'"
        using ih(1) by simp
      show "truncate_loop lowest as (l, w) = (Inr (drop (length (q # ps)) as), (l\<lparr>l_heap := h'\<rparr>, w'))"
        using rm a nx True ih(2) by (simp add: as prog_simps)
      show "\<forall>x \<in> set (drop (length (q # ps)) as). h' ! x = l_heap l ! x"
        using ih(4) Cons.prems(2) by (auto simp: as) (metis in_set_dropD nth_list_update_neq)
      show "\<forall>n. n \<notin> seg_files (bases b (q # ps)) \<longrightarrow> fget w' d n = fget w d n"
        using ih(6) w1(2) by (auto simp: seg_files_def)
      show "dir_names w' d (ns - seg_files (bases b (q # ps)))"
        using ih(7) by (simp add: seg_files_def Diff_insert [symmetric] insert_commute Un_commute set_diff_eq)
    qed (use ih(3,5,8,9) w1(1) True in \<open>auto simp: add.assoc\<close>)
  qed
qed

lemma seg_files_diff:
  "distinct (bases b (ps @ qs)) \<Longrightarrow> seg_files (bases b (ps @ qs)) - seg_files (bases b ps) =
     seg_files (bases (b + of_nat (length (concat ps))) qs)"
  by (auto simp: bases_append seg_files_def)

lemma log_truncate_segs:
  assumes segs: "log_segs cdc d c b qs (l, w)" and db: "distinct (bases b qs)"
    and names: "dir_names w d (seg_files (bases b qs))" and bnd: "unat b + length (concat qs) < 2 ^ 64"
  shows "\<exists>ps qs' l' w'. qs = ps @ qs' \<and> log_truncate lowest (l, w) = (Inr (), (l', w')) \<and>
    l_active l' = l_active l \<and> l_segments l' = drop (length ps) (l_segments l) \<and>
    (qs' \<noteq> [] \<longrightarrow> log_segs cdc d c (b + of_nat (length (concat ps))) qs' (l', w')) \<and>
    dir_names w' d (seg_files (bases (b + of_nat (length (concat ps))) qs')) \<and>
    (ps \<noteq> [] \<longrightarrow> b + of_nat (length (concat ps)) \<le> lowest + 1) \<and>
    (qs' \<noteq> [] \<longrightarrow> lowest + 1 < b + of_nat (length (concat ps) + length (hd qs')))"
proof -
  have ch: "chain cdc d c w b (map ((!) (l_heap l)) (l_segments l)) qs"
    and dist: "distinct (l_segments l)" and al: "\<forall>a \<in> set (l_segments l). a < length (l_heap l)"
    using segs by (auto simp: log_segs_def)
  obtain ps qs' h' w' where qs: "qs = ps @ qs'" and t:
      "truncate_loop lowest (l_segments l) (l, w) =
        (Inr (drop (length ps) (l_segments l)), (l\<lparr>l_heap := h'\<rparr>, w'))"
      "length h' = length (l_heap l)" "\<forall>a \<in> set (drop (length ps) (l_segments l)). h' ! a = l_heap l ! a"
      "os_faults w' = os_faults w" "\<forall>n. n \<notin> seg_files (bases b ps) \<longrightarrow> fget w' d n = fget w d n"
      "dir_names w' d (seg_files (bases b qs) - seg_files (bases b ps))"
      "ps \<noteq> [] \<longrightarrow> b + of_nat (length (concat ps)) \<le> lowest + 1"
      "qs' \<noteq> [] \<longrightarrow> lowest + 1 < b + of_nat (length (concat ps) + length (hd qs'))"
    using truncate_chain [OF ch dist al db names order_refl bnd] by blast
  let ?b = "b + of_nat (length (concat ps))" and ?as = "drop (length ps) (l_segments l)"
  let ?l = "l\<lparr>l_heap := h', l_segments := ?as\<rparr>"
  have names': "dir_names w' d (seg_files (bases ?b qs'))"
    using t(6) db seg_files_diff [of b ps qs'] by (simp add: qs)
  have len: "length (l_segments l) = length ps + length qs'"
    using chain_length [OF ch] by (simp add: qs)
  have "chain cdc d c w ?b (map ((!) (l_heap l)) ?as) qs'"
  proof -
    have "map ((!) (l_heap l)) (take (length ps) (l_segments l)) @ map ((!) (l_heap l)) ?as =
        map ((!) (l_heap l)) (l_segments l)"
      by (simp flip: map_append)
    then show ?thesis
      using ch len chain_append [of "map ((!) (l_heap l)) (take (length ps) (l_segments l))" ps
          cdc d c w b "map ((!) (l_heap l)) ?as" qs']
      unfolding qs by (simp del: map_eq_conv)
  qed
  moreover have "n \<notin> seg_files (bases b ps)" if "n \<in> seg_files (bases ?b qs')" for n
    using that db by (auto simp: qs bases_append seg_files_def)
  moreover have "map ((!) h') ?as = map ((!) (l_heap l)) ?as"
    using t(3) by simp
  ultimately have "chain cdc d c w' ?b (map ((!) h') ?as) qs'"
    using t(4,5) by (subst chain_cong [of w' w]) (simp_all del: map_eq_conv)
  then have "log_segs cdc d c ?b qs' (?l, w')" if "qs' \<noteq> []"
    using segs that len t(2,4) dir_names_dir [OF names'] unfolding log_segs_def
    by (auto simp: last_drop dest: in_set_dropD simp del: not_None_eq)
  then show ?thesis
    using qs t names' by (intro exI [of _ ps] exI [of _ qs'] exI [of _ ?l] exI [of _ w'])
      (simp add: log_truncate_def prog_simps)
qed

lemma log_truncate_rep:
  assumes rep: "log_rep cdc d c b rs (l, w)" and low: "unat lowest + 1 < unat b + length rs"
  shows "\<exists>k l' w'. log_truncate lowest (l, w) = (Inr (), (l', w')) \<and>
    log_rep cdc d c (b + of_nat k) (drop k rs) (l', w') \<and>
    (k = 0 \<or> unat b + k \<le> unat lowest + 1) \<and>
    lowest + 1 < nextOffset (l_heap l' ! hd (l_segments l'))"
proof -
  obtain qs q where rs: "rs = concat qs @ q" and ne: "[] \<notin> set qs" and nf: "\<not> seg_full cdc c q"
    and segs: "log_segs cdc d c b (qs @ [q]) (l, w)"
    and names: "dir_names w d (seg_files (bases b (qs @ [q])))"
    and cfg: "config_ok c" and bnd: "unat b + length rs < 2 ^ 64"
    and big: "list_all (payload_ok c) (map (enc cdc) rs)"
    using rep by (rule log_repE)
  have cc: "concat (qs @ [q]) = rs"
    by (simp add: rs)
  have db: "distinct (bases b (qs @ [q]))"
    using sorted_bases [OF ne] bnd unfolding rs by (simp add: strict_sorted_iff)
  obtain ps qs' l' w' where t: "qs @ [q] = ps @ qs'" "log_truncate lowest (l, w) = (Inr (), (l', w'))"
      "qs' \<noteq> [] \<longrightarrow> log_segs cdc d c (b + of_nat (length (concat ps))) qs' (l', w')"
      "dir_names w' d (seg_files (bases (b + of_nat (length (concat ps))) qs'))"
      "ps \<noteq> [] \<longrightarrow> b + of_nat (length (concat ps)) \<le> lowest + 1"
      "qs' \<noteq> [] \<longrightarrow> lowest + 1 < b + of_nat (length (concat ps) + length (hd qs'))"
    using log_truncate_segs [OF segs db names] bnd unfolding cc by blast
  let ?k = "length (concat ps)"
  have rs': "rs = concat ps @ concat qs'"
    using cc unfolding t(1) by simp
  then have kb: "unat (b + of_nat ?k) = unat b + ?k"
    using bnd by (intro unat_plus_of_nat) simp
  have "unat (lowest + 1) = unat lowest + 1"
    using unat_plus_of_nat [of lowest 1] low bnd by simp
  then have klow: "ps = [] \<or> unat b + ?k \<le> unat lowest + 1"
    using t(5) kb by (auto simp: word_le_nat_alt)
  then obtain qs2 where qs': "qs' = qs2 @ [q]" and qs: "qs = ps @ qs2"
    using t(1) low rs' by (cases qs' rule: rev_cases) auto
  have "log_rep cdc d c (b + of_nat ?k) (drop ?k rs) (l', w')"
    using t(3,4) ne nf bnd kb big
    by (intro log_repI [OF cfg, of _ _ qs2 q]) (simp_all add: rs' qs' qs)
  moreover have "lowest + 1 < nextOffset (l_heap l' ! hd (l_segments l'))"
  proof -
    have "log_segs cdc d c (b + of_nat ?k) qs' (l', w')" "qs' \<noteq> []"
      using t(3) by (simp_all add: qs')
    then have "nextOffset (l_heap l' ! hd (l_segments l')) = b + of_nat (?k + length (hd qs'))"
      by (cases qs'; cases "l_segments l'") (auto simp: log_segs_def add.assoc elim: seg_repE)
    then show ?thesis
      using t(6) by (simp add: qs')
  qed
  ultimately show ?thesis
    using t(2) klow by (intro exI [of _ ?k]) auto
qed

end
