(* ===== verification/Refinement.thy ===== *)
theory Refinement
  imports Prelude
begin

text \<open>
  Functional refinement between a specification and a component, both given as a step for each
  command that returns a reply and the next state. A component that simulates its
  specification on every admissible command gives the same replies on every admissible
  sequence of commands.
\<close>

primrec run_cmds :: "('c \<Rightarrow> 's \<Rightarrow> 'r \<times> 's) \<Rightarrow> 'c list \<Rightarrow> 's \<Rightarrow> 'r list \<times> 's" where
  "run_cmds step [] s = ([], s)"
| "run_cmds step (c # cs) s =
     (case step c s of (r, t) \<Rightarrow> case run_cmds step cs t of (rs, u) \<Rightarrow> (r # rs, u))"

primrec admissible :: "('c \<Rightarrow> 's \<Rightarrow> bool) \<Rightarrow> ('c \<Rightarrow> 's \<Rightarrow> 'r \<times> 's) \<Rightarrow> 'c list \<Rightarrow> 's \<Rightarrow> bool" where
  "admissible ok step [] s \<longleftrightarrow> True"
| "admissible ok step (c # cs) s \<longleftrightarrow> ok c s \<and> admissible ok step cs (snd (step c s))"

lemma run_cmds_append:
  "run_cmds step (cs @ ds) s =
     (case run_cmds step cs s of (rs, t) \<Rightarrow> case run_cmds step ds t of (qs, u) \<Rightarrow> (rs @ qs, u))"
  by (induction cs arbitrary: s) (auto split: prod.splits)

lemma length_run_cmds: "length (fst (run_cmds step cs s)) = length cs"
  by (induction cs arbitrary: s) (simp_all add: split_beta)

lemma admissible_conj:
  "P \<Longrightarrow> admissible ok step cs s \<Longrightarrow> admissible (\<lambda>c a. P \<and> ok c a) step cs s"
  by (induction cs arbitrary: s) simp_all

locale refinement =
  fixes rel :: "'a \<Rightarrow> 's \<Rightarrow> bool"
    and ok :: "'c \<Rightarrow> 'a \<Rightarrow> bool"
    and spec :: "'c \<Rightarrow> 'a \<Rightarrow> 'r \<times> 'a"
    and impl :: "'c \<Rightarrow> 's \<Rightarrow> 'r \<times> 's"
  assumes simulate: "rel a s \<Longrightarrow> ok c a \<Longrightarrow>
      fst (impl c s) = fst (spec c a) \<and> rel (snd (spec c a)) (snd (impl c s))"
begin

lemma run_refines:
  "rel a s \<Longrightarrow> admissible ok spec cs a \<Longrightarrow>
     fst (run_cmds impl cs s) = fst (run_cmds spec cs a) \<and>
     rel (snd (run_cmds spec cs a)) (snd (run_cmds impl cs s))"
proof (induction cs arbitrary: a s)
  case (Cons c cs)
  have "fst (impl c s) = fst (spec c a)" "rel (snd (spec c a)) (snd (impl c s))"
    using simulate [OF Cons.prems(1)] Cons.prems(2) by simp_all
  then show ?case
    using Cons.IH [of "snd (spec c a)" "snd (impl c s)"] Cons.prems(2)
    by (auto simp: split_beta)
qed simp

end

end
