(* ===== verification/LogSpec.thy ===== *)
theory LogSpec
  imports LogRecovery LogTruncate Refinement
begin

text \<open>
  The specification of the commit log of \<open>internal/log\<close> and that the log implements it: a log
  is a base offset and a list of records. Its segments, their stores, buffers and mapped
  indexes cannot be observed through \<open>Append\<close>, \<open>Read\<close>, \<open>LowestOffset\<close>, \<open>HighestOffset\<close> and a
  restart.
\<close>

section \<open>Commands\<close>

datatype log_cmd = CAppend log_record | CRead u64 | CLowest | CHighest | CReopen

datatype reply = ROffset u64 | RRecord log_record | RDone | RFailed failure

definition reply_of :: "('a \<Rightarrow> reply) \<Rightarrow> 'a res \<times> 's \<Rightarrow> reply \<times> 's" where
  "reply_of f x = (case x of (Inl e, s) \<Rightarrow> (RFailed e, s) | (Inr y, s) \<Rightarrow> (f y, s))"

text \<open>A clean restart of the process: \<open>Close\<close>, then \<open>NewLog\<close> with the same arguments.\<close>

definition log_reopen :: "(log \<times> os, unit) prog" where
  "log_reopen = (\<lambda>(l, w). case log_close (l, w) of
       (Inl e, s) \<Rightarrow> (Inl e, s)
     | (Inr _, (l', w')) \<Rightarrow> (case NewLog (l_dir l) (l_config l) w' of
           (Inl e, w2) \<Rightarrow> (Inl e, (l', w2))
         | (Inr l2, w2) \<Rightarrow> (Inr (), (l2, w2))))"

primrec exec_cmd :: "codec \<Rightarrow> log_cmd \<Rightarrow> log \<times> os \<Rightarrow> reply \<times> (log \<times> os)" where
  "exec_cmd cdc (CAppend r) s = reply_of ROffset (log_append cdc (Some r) s)"
| "exec_cmd cdc (CRead off) s = reply_of RRecord (log_read cdc off s)"
| "exec_cmd cdc CLowest s = reply_of ROffset (LowestOffset s)"
| "exec_cmd cdc CHighest s = reply_of ROffset (HighestOffset s)"
| "exec_cmd cdc CReopen s = reply_of (\<lambda>_. RDone) (log_reopen s)"

text \<open>The specification, for a log that begins at the offset \<open>b\<close>.\<close>

primrec spec_cmd :: "u64 \<Rightarrow> log_cmd \<Rightarrow> log_record list \<Rightarrow> reply \<times> log_record list" where
  "spec_cmd b (CAppend r) rs = (ROffset (b + of_nat (length rs)), rs @ [seg_item b rs r])"
| "spec_cmd b (CRead off) rs =
     (if b \<le> off \<and> unat off < unat b + length rs then RRecord (rs ! unat (off - b))
      else RFailed (Error (ErrOffsetOutOfRange off)), rs)"
| "spec_cmd b CLowest rs = (ROffset b, rs)"
| "spec_cmd b CHighest rs = (ROffset (if b = 0 \<and> rs = [] then 0 else b + of_nat (length rs) - 1), rs)"
| "spec_cmd b CReopen rs = (RDone, rs)"

text \<open>
  What an append needs: the record with its offset can be marshalled, to a payload that Go can
  allocate when it reads it back, and the offsets do not run out.
\<close>

definition marshals :: "codec \<Rightarrow> seg_config \<Rightarrow> log_record \<Rightarrow> bool" where
  "marshals cdc c r \<longleftrightarrow> (case c_marshal cdc r of Inl _ \<Rightarrow> False | Inr p \<Rightarrow> length p \<le> max_alloc \<and> payload_ok c p)"

primrec cmd_ok :: "codec \<Rightarrow> seg_config \<Rightarrow> u64 \<Rightarrow> log_cmd \<Rightarrow> log_record list \<Rightarrow> bool" where
  "cmd_ok cdc c b (CAppend r) rs \<longleftrightarrow>
     marshals cdc c (seg_item b rs r) \<and> unat b + length rs + 1 < 2 ^ 64"
| "cmd_ok cdc c b (CRead off) rs \<longleftrightarrow> True"
| "cmd_ok cdc c b CLowest rs \<longleftrightarrow> True"
| "cmd_ok cdc c b CHighest rs \<longleftrightarrow> True"
| "cmd_ok cdc c b CReopen rs \<longleftrightarrow> True"

section \<open>Restart\<close>

lemma log_rep_dir: "log_rep cdc d c b rs (l, w) \<Longrightarrow> l_dir l = d \<and> l_config l = c"
  by (auto simp: log_rep_def log_segs_def)

lemma log_close_NewLog:
  assumes rep: "log_rep cdc d c b rs (l, w)"
  shows "\<exists>l1 w1 l2 w2. log_close (l, w) = (Inr (), (l1, w1)) \<and> NewLog d c w1 = (Inr l2, w2) \<and>
    log_rep cdc d c b rs (l2, w2)"
proof -
  have cfg: "config_ok c" and bnd: "unat b + length rs < 2 ^ 64" and big: "list_all (payload_ok c) (map (enc cdc) rs)"
    using rep by (auto simp: log_rep_def)
  obtain l1 w1 qs q where "log_close (l, w) = (Inr (), (l1, w1))" "rs = concat qs @ q" "[] \<notin> set qs"
      "\<not> seg_full cdc c q" "stored cdc d c w1 b (qs @ [q])" "healthy w1"
      "dir_names w1 d (seg_files (bases b (qs @ [q])))"
    using rep by (rule log_close_rep)
  with NewLog_stored [OF cfg, of cdc d w1 b qs q] bnd big show ?thesis by auto
qed

lemma log_reopen_rep:
  assumes rep: "log_rep cdc d c b rs (l, w)"
  shows "\<exists>s. log_reopen (l, w) = (Inr (), s) \<and> log_rep cdc d c b rs s"
  using log_close_NewLog [OF rep] log_rep_dir [OF rep] by (auto simp: log_reopen_def)

section \<open>Refinement\<close>

lemma log_read_spec:
  assumes rep: "log_rep cdc d c b rs (l, w)" and off: "b \<le> off" "unat off < unat b + length rs"
  shows "\<exists>s. log_read cdc off (l, w) = (Inr (rs ! unat (off - b)), s) \<and> log_rep cdc d c b rs s"
proof -
  have u: "unat (off - b) = unat off - unat b"
    using off(1) by (intro unat_sub_u64) (simp add: word_le_nat_alt)
  have "unat (off - b) < length rs"
    using off by (simp add: u word_le_nat_alt)
  from log_read_rep [OF rep this] show ?thesis by auto
qed

lemma highest_spec:
  assumes "unat b + length rs < 2 ^ 64"
  shows "(if b + of_nat (length rs) = 0 then 0 else b + of_nat (length rs) - 1) =
     (if b = 0 \<and> rs = [] then 0 else b + of_nat (length rs) - (1 :: u64))"
  using unat_plus_of_nat [OF assms] by (auto simp: unat_eq_zero)

lemma log_fitsI:
  "codec_ok cdc \<Longrightarrow> marshals cdc c (seg_item b rs r) \<Longrightarrow> unat b + length rs + 1 < 2 ^ 64 \<Longrightarrow> log_fits cdc c b rs r"
  by (auto simp: log_fits_def encodable_def enc_def codec_ok_def marshals_def split: sum.splits)

interpretation log_spec: refinement "log_rep cdc d c b" "\<lambda>cmd rs. codec_ok cdc \<and> cmd_ok cdc c b cmd rs"
  "spec_cmd b" "exec_cmd cdc"
  for cdc d c b
proof unfold_locales
  fix rs s cmd
  assume rep: "log_rep cdc d c b rs s" and ok: "codec_ok cdc \<and> cmd_ok cdc c b cmd rs"
  obtain l w where s: "s = (l, w)" by (cases s)
  note rep = rep [unfolded s]
  show "fst (exec_cmd cdc cmd s) = fst (spec_cmd b cmd rs) \<and>
      log_rep cdc d c b (snd (spec_cmd b cmd rs)) (snd (exec_cmd cdc cmd s))"
  proof (cases cmd)
    case (CAppend r)
    then show ?thesis
      using log_append_rep [OF rep, of r] log_fitsI [of cdc c b rs r] ok by (auto simp: s reply_of_def)
  next
    case (CRead off)
    then show ?thesis
      using log_read_spec [OF rep, of off] log_read_out_of_range [OF rep, of off] rep
      by (auto simp: s reply_of_def word_le_nat_alt)
  next
    case CLowest
    then show ?thesis
      using LowestOffset_rep [OF rep] rep by (simp add: s reply_of_def)
  next
    case CHighest
    then show ?thesis
      using HighestOffset_rep [OF rep] rep highest_spec [of b rs]
      by (auto simp: s reply_of_def log_rep_def)
  next
    case CReopen
    then show ?thesis
      using log_reopen_rep [OF rep] by (auto simp: s reply_of_def)
  qed
qed

section \<open>Where the log does not keep its promises\<close>

text \<open>
  When the bound of \<open>Truncate\<close> reaches the last offset every segment is removed, also the
  active one.
\<close>

lemma log_truncate_everything:
  assumes rep: "log_rep cdc d c b rs (l, w)" and low: "unat b + length rs \<le> unat lowest + 1" "lowest \<noteq> - 1"
  shows "\<exists>l' w'. log_truncate lowest (l, w) = (Inr (), (l', w')) \<and> l_segments l' = [] \<and> dir_names w' d {}"
proof -
  obtain qs q where rs: "rs = concat qs @ q" and ne: "[] \<notin> set qs"
    and segs: "log_segs cdc d c b (qs @ [q]) (l, w)"
    and names: "dir_names w d (seg_files (bases b (qs @ [q])))" and bnd: "unat b + length rs < 2 ^ 64"
    using rep by (rule log_repE)
  have cc: "concat (qs @ [q]) = rs"
    by (simp add: rs)
  have db: "distinct (bases b (qs @ [q]))"
    using sorted_bases [OF ne] bnd unfolding rs by (simp add: strict_sorted_iff)
  obtain ps qs' l' w' where t: "qs @ [q] = ps @ qs'" "log_truncate lowest (l, w) = (Inr (), (l', w'))"
      "l_segments l' = drop (length ps) (l_segments l)"
      "dir_names w' d (seg_files (bases (b + of_nat (length (concat ps))) qs'))"
      "qs' \<noteq> [] \<longrightarrow> lowest + 1 < b + of_nat (length (concat ps) + length (hd qs'))"
    using log_truncate_segs [OF segs db names] bnd unfolding cc by blast
  have low1: "unat (lowest + 1) = unat lowest + 1"
    using unat_plus_of_nat [of lowest 1] u64_not_max [OF low(2)] by simp
  have "qs' = []"
  proof (rule ccontr)
    assume "qs' \<noteq> []"
    then have le: "length (concat ps) + length (hd qs') \<le> length rs"
      unfolding cc [symmetric] t(1) by (cases qs') auto
    then have "unat (b + of_nat (length (concat ps) + length (hd qs'))) =
        unat b + (length (concat ps) + length (hd qs'))"
      using bnd by (intro unat_plus_of_nat) linarith
    then show False
      using t(5) \<open>qs' \<noteq> []\<close> le low(1) low1 by (auto simp: word_less_nat_alt)
  qed
  moreover have "length (l_segments l) = length (qs @ [q])"
    using segs by (auto simp: log_segs_def dest: chain_length)
  ultimately show ?thesis
    using t by (auto simp: seg_files_def)
qed

lemma log_reset_not_exist:
  assumes rep: "log_rep cdc d c b rs (l, w)"
  shows "\<exists>l' w'. log_reset (l, w) = (Inl (Error (Wrap ''setup'' ErrNotExist)), (l', w')) \<and> os_dirs w' d = None"
proof -
  obtain l1 w1 where "log_close (l, w) = (Inr (), (l1, w1))" "healthy w1" "l_dir l1 = d"
    using rep by (rule log_close_rep)
  then show ?thesis
    by (auto simp: log_reset_def log_remove_def remove_all_def log_setup_def read_dir_def prog_simps)
qed

section \<open>An instance\<close>

text \<open>
  A directory with no files and a configuration whose segments hold two records, to evaluate
  the properties on.
\<close>

definition demo_config :: seg_config where
  "demo_config = \<lparr>MaxStoreBytes = 1024, MaxIndexBytes = 24, InitialOffset = 0\<rparr>"

lemma demo_marshals: "marshals demo_codec demo_config (demo_record x\<lparr>r_offset := off\<rparr>)"
  by (simp add: marshals_def demo_codec_def demo_record_def max_alloc_def payload_ok_def demo_config_def)

lemma demo_marshals_zero: "marshals demo_codec (default_config zero_config) (demo_record x\<lparr>r_offset := off\<rparr>)"
  by (simp add: marshals_def demo_codec_def demo_record_def max_alloc_def zero_config_payload)

lemma demo_config_ok: "config_ok demo_config"
  by (simp add: config_ok_def demo_config_def)

lemma demo_disk_ok: "healthy demo_disk" "dir_names demo_disk ''log'' {}"
  by (simp_all add: demo_disk_def dir_names_def)

lemma demo_log:
  "\<exists>l w. NewLog ''log'' demo_config demo_disk = (Inr l, w) \<and> log_rep demo_codec ''log'' demo_config 0 [] (l, w)"
  using NewLog_empty [OF demo_config_ok demo_disk_ok, of demo_codec] by (simp add: demo_config_def)

lemma demo_append:
  assumes "log_rep demo_codec ''log'' demo_config 0 rs (l, w)" "length rs < 10"
  shows "\<exists>l' w'. log_rep demo_codec ''log'' demo_config 0
    (rs @ [demo_record x\<lparr>r_offset := of_nat (length rs)\<rparr>]) (l', w')"
proof -
  have "log_fits demo_codec demo_config 0 rs (demo_record x)"
    using assms(2) by (intro log_fitsI [OF demo_codec_ok demo_marshals]) simp
  from log_append_rep [OF assms(1) this] show ?thesis by auto
qed

definition demo_records :: "log_record list" where
  "demo_records = [demo_record 1\<lparr>r_offset := 0\<rparr>, demo_record 2\<lparr>r_offset := 1\<rparr>, demo_record 3\<lparr>r_offset := 2\<rparr>]"

lemma demo_log_three: "\<exists>l w. log_rep demo_codec ''log'' demo_config 0 demo_records (l, w)"
proof -
  obtain l w where "log_rep demo_codec ''log'' demo_config 0 [] (l, w)"
    using demo_log by blast
  from demo_append [OF this, of 1] obtain l w where
      "log_rep demo_codec ''log'' demo_config 0 [demo_record 1\<lparr>r_offset := 0\<rparr>] (l, w)" by auto
  from demo_append [OF this, of 2] obtain l w where
      "log_rep demo_codec ''log'' demo_config 0 [demo_record 1\<lparr>r_offset := 0\<rparr>, demo_record 2\<lparr>r_offset := 1\<rparr>] (l, w)"
    by auto
  from demo_append [OF this, of 3] show ?thesis
    by (simp add: demo_records_def)
qed

section \<open>Properties\<close>

text \<open>
  C1: the commit log implements its specification, with the limits of its configuration or, where
  these are left out, with the default ones. On an empty directory \<open>NewLog\<close> succeeds, and every sequence of appends, reads, offset queries and clean restarts gets exactly the replies
  of a list of records that begins at \<open>InitialOffset\<close>: an append returns the next offset, a read
  returns the record that was appended there with its offset set, or \<open>ErrOffsetOutOfRange\<close>,
  however the records are spread over segments, buffers and mapped index files.
\<close>

theorem log_refines_list:
  assumes "config_ok (default_config c)" and "healthy w" and "dir_names w d {}" and "codec_ok cdc"
    and "admissible (cmd_ok cdc (default_config c) (InitialOffset c)) (spec_cmd (InitialOffset c)) cmds []"
  shows "\<exists>l w'. NewLog d c w = (Inr l, w') \<and>
    fst (run_cmds (exec_cmd cdc) cmds (l, w')) = fst (run_cmds (spec_cmd (InitialOffset c)) cmds [])"
  using NewLog_defaults [OF assms(1-3)] log_spec.run_refines [OF _ admissible_conj [OF assms(4,5)]] by blast

theorem log_refines_list_witness:
  "\<exists>l w. NewLog ''log'' zero_config demo_disk = (Inr l, w) \<and>
     fst (run_cmds (exec_cmd demo_codec)
       [CAppend (demo_record 1), CAppend (demo_record 2), CAppend (demo_record 3), CReopen, CRead 2, CRead 3, CHighest]
       (l, w)) =
     [ROffset 0, ROffset 1, ROffset 2, RDone, RRecord (demo_record 3\<lparr>r_offset := 2\<rparr>),
      RFailed (Error (ErrOffsetOutOfRange 3)), ROffset 2]"
  using log_refines_list [OF zero_config_ok(1) demo_disk_ok demo_codec_ok,
      of "[CAppend (demo_record 1), CAppend (demo_record 2), CAppend (demo_record 3), CReopen, CRead 2, CRead 3, CHighest]"]
    demo_marshals_zero
  by (simp add: zero_config_ok)

text \<open>
  C2: a clean restart loses nothing. \<open>Close\<close> succeeds, \<open>NewLog\<close> on the directory it leaves
  succeeds and finds the segments again from the names of their files, and every record is
  then read at its old offset.
\<close>

theorem log_close_reopen:
  assumes "log_rep cdc d c b rs (l, w)"
  shows "\<exists>l1 w1 l2 w2. log_close (l, w) = (Inr (), (l1, w1)) \<and> NewLog d c w1 = (Inr l2, w2) \<and>
    (\<forall>k < length rs. fst (log_read cdc (b + of_nat k) (l2, w2)) = Inr (rs ! k)) \<and>
    log_rep cdc d c b rs (l2, w2)"
proof -
  obtain l1 w1 l2 w2 where "log_close (l, w) = (Inr (), (l1, w1))" "NewLog d c w1 = (Inr l2, w2)"
      and rep: "log_rep cdc d c b rs (l2, w2)"
    using log_close_NewLog [OF assms] by blast
  moreover have "fst (log_read cdc (b + of_nat k) (l2, w2)) = Inr (rs ! k)" if "k < length rs" for k
    using log_read_rep [OF rep that] by auto
  ultimately show ?thesis by blast
qed

theorem log_close_reopen_witness:
  "\<exists>l w l1 w1 l2 w2. log_close (l, w) = (Inr (), (l1, w1)) \<and>
     NewLog ''log'' demo_config w1 = (Inr l2, w2) \<and>
     fst (log_read demo_codec 2 (l2, w2)) = Inr (demo_record 3\<lparr>r_offset := 2\<rparr>)"
proof -
  obtain l w where "log_rep demo_codec ''log'' demo_config 0 demo_records (l, w)"
    using demo_log_three by blast
  from log_close_reopen [OF this] obtain l1 w1 l2 w2 where
      "log_close (l, w) = (Inr (), (l1, w1))" "NewLog ''log'' demo_config w1 = (Inr l2, w2)"
      and "\<forall>k < length demo_records. fst (log_read demo_codec (0 + of_nat k) (l2, w2)) = Inr (demo_records ! k)"
    by blast
  moreover from this(3) have "fst (log_read demo_codec 2 (l2, w2)) = Inr (demo_record 3\<lparr>r_offset := 2\<rparr>)"
    by (auto simp: demo_records_def dest: spec [of _ 2])
  ultimately show ?thesis by blast
qed

text \<open>
  C24: \<open>Truncate\<close> below the last record drops a prefix of the log and nothing else. It succeeds,
  the records that remain keep their offsets and are the log's records from some offset on, no
  record above \<open>lowest\<close> is dropped, and the first segment that is left reaches above \<open>lowest\<close>.
\<close>

theorem log_truncate_prefix:
  assumes "log_rep cdc d c b rs (l, w)" and "unat lowest + 1 < unat b + length rs"
  shows "\<exists>k l' w'. log_truncate lowest (l, w) = (Inr (), (l', w')) \<and>
    log_rep cdc d c (b + of_nat k) (drop k rs) (l', w') \<and>
    (k = 0 \<or> unat b + k \<le> unat lowest + 1) \<and>
    lowest + 1 < nextOffset (l_heap l' ! hd (l_segments l'))"
  using log_truncate_rep [OF assms] .

theorem log_truncate_prefix_witness:
  "\<exists>k l w l' w'. log_truncate 1 (l, w) = (Inr (), (l', w')) \<and> k \<le> 2 \<and>
     log_rep demo_codec ''log'' demo_config (of_nat k) (drop k demo_records) (l', w')"
proof -
  obtain l w where "log_rep demo_codec ''log'' demo_config 0 demo_records (l, w)"
    using demo_log_three by blast
  moreover have "unat (1 :: u64) + 1 < unat (0 :: u64) + length demo_records"
    by (simp add: demo_records_def)
  ultimately obtain k l' w' where
      "log_truncate 1 (l, w) = (Inr (), (l', w'))" "k = 0 \<or> unat (0 :: u64) + k \<le> unat (1 :: u64) + 1"
      "log_rep demo_codec ''log'' demo_config (0 + of_nat k) (drop k demo_records) (l', w')"
    using log_truncate_prefix by blast
  moreover from this(2) have "k \<le> 2" by auto
  ultimately show ?thesis
    unfolding add_0 by blast
qed

text \<open>
  C31: a \<open>Truncate\<close> that reaches the last offset leaves a log without segments, and then
  \<open>LowestOffset\<close> and \<open>HighestOffset\<close> index an empty slice and panic.
\<close>

theorem log_truncate_all_panics:
  assumes "log_rep cdc d c b rs (l, w)" and "unat b + length rs \<le> unat lowest + 1" and "lowest \<noteq> - 1"
  shows "\<exists>s. log_truncate lowest (l, w) = (Inr (), s) \<and>
    LowestOffset s = (Inl (Panic IndexOutOfRange), s) \<and> HighestOffset s = (Inl (Panic IndexOutOfRange), s)"
proof -
  obtain l' w' where "log_truncate lowest (l, w) = (Inr (), (l', w'))" "l_segments l' = []"
    using log_truncate_everything [OF assms] by blast
  then show ?thesis
    by (intro exI [of _ "(l', w')"]) (simp add: LowestOffset_def HighestOffset_def prog_simps)
qed

theorem log_truncate_all_panics_witness:
  "\<exists>l w s. NewLog ''log'' demo_config demo_disk = (Inr l, w) \<and> log_truncate 0 (l, w) = (Inr (), s) \<and>
     LowestOffset s = (Inl (Panic IndexOutOfRange), s)"
proof -
  obtain l w where "NewLog ''log'' demo_config demo_disk = (Inr l, w)"
      "log_rep demo_codec ''log'' demo_config 0 [] (l, w)"
    using demo_log by blast
  with log_truncate_all_panics [of demo_codec "''log''" demo_config 0 "[]" l w 0] show ?thesis by auto
qed

text \<open>
  \<open>Reset\<close> never succeeds on a working log. It removes the directory itself, and the \<open>setup\<close>
  that follows reads that directory: the error is always that it does not exist.
\<close>

theorem log_reset_fails:
  assumes "log_rep cdc d c b rs (l, w)"
  shows "\<exists>l' w'. log_reset (l, w) = (Inl (Error (Wrap ''setup'' ErrNotExist)), (l', w')) \<and>
    os_dirs w' d = None"
  using log_reset_not_exist [OF assms] .

theorem log_reset_fails_witness:
  "\<exists>l w s. NewLog ''log'' demo_config demo_disk = (Inr l, w) \<and>
     log_reset (l, w) = (Inl (Error (Wrap ''setup'' ErrNotExist)), s)"
proof -
  obtain l w where "NewLog ''log'' demo_config demo_disk = (Inr l, w)"
      "log_rep demo_codec ''log'' demo_config 0 [] (l, w)"
    using demo_log by blast
  with log_reset_fails show ?thesis by blast
qed

end
