(* ===== verification/Snapshot.thy ===== *)
theory Snapshot
  imports LogSpec
begin

text \<open>
  Snapshots of the log: \<open>Log.Reader\<close> and \<open>originReader\<close> of \<open>internal/log/log.go\<close>,
  \<open>snapshot.Persist\<close> of \<open>internal/log/distributed/snapshot.go\<close> and \<open>Restore\<close> of
  \<open>internal/log/distributed/fsm.go\<close>.
\<close>

section \<open>Reading the log as a stream\<close>

text \<open>
  \<open>Reader\<close> returns one \<open>originReader\<close> for each segment: the segment, whose store it shares, and
  the next position.
\<close>

definition log_Reader :: "(log \<times> os, (nat \<times> int) list) prog" where
  "log_Reader = bnd get_st (\<lambda>(l, _). ret (map (\<lambda>a. (a, 0)) (l_segments l)))"

definition originReader_Read :: "nat \<Rightarrow> nat \<times> int \<Rightarrow> (log \<times> os, (bytes \<times> goerr option) \<times> (nat \<times> int)) prog" where
  "originReader_Read n r = (case r of (a, off) \<Rightarrow>
     bnd (on_segment a (on_store (store_readAt n off))) (\<lambda>(b, e).
       ret ((b, e), (a, off + int (length b)))))"

section \<open>Persist\<close>

text \<open>
  The sink belongs to the \<open>raft\<close> package: writing, closing and cancelling are parameters.
\<close>

record 'k sink =
  snk_write :: "bytes \<Rightarrow> 'k \<Rightarrow> (nat \<times> goerr option) \<times> 'k"
  snk_close :: "'k \<Rightarrow> goerr option \<times> 'k"
  snk_cancel :: "'k \<Rightarrow> goerr option \<times> 'k"

text \<open>\<open>File.Read\<close> of at most \<open>n\<close> bytes at the offset of the open file.\<close>

definition file_read :: "os_file \<Rightarrow> nat \<Rightarrow> nat \<Rightarrow> os \<Rightarrow> (bytes \<times> goerr option) \<times> os" where
  "file_read f n off w =
     (if \<not> f_open f then (([], Some ErrClosed), w)
      else (case next_fault w of
          (Some _, w') \<Rightarrow> (([], Some EIO), w')
        | (None, w') \<Rightarrow> (let b = take n (drop off (fbytes w' (f_dir f) (f_name f))) in
            ((b, if b = [] then Some EOF else None), w'))))"

text \<open>
  \<open>io.Copy(sink, reader)\<close> of a \<open>MultiReader\<close> copies each of its readers in turn. An
  \<open>originReader\<close> embeds the store and through it \<open>*os.File\<close>, whose \<open>WriteTo\<close> is therefore a
  method of it: \<open>io.Copy\<close> prefers that method to \<open>originReader.Read\<close>. It reads from the
  offset of the open file, in pieces of 32 KiB, and the loop is that of \<open>io.Copy\<close>.
\<close>

function copy_file :: "'k sink \<Rightarrow> os_file \<Rightarrow> nat \<Rightarrow> 'k \<Rightarrow> os \<Rightarrow> goerr option \<times> nat \<times> 'k \<times> os" where
  "copy_file snk f off k w = (case file_read f 32768 off w of ((b, er), w') \<Rightarrow>
     if b = [] then ((if er = Some EOF then None else er), off, k, w')
     else (case snk_write snk b k of ((nw, ew), k') \<Rightarrow>
       if nw > length b then
         (Some (case ew of None \<Rightarrow> ErrMsg ''invalid write result'' | Some e \<Rightarrow> e), off + length b, k', w')
       else if ew \<noteq> None then (ew, off + length b, k', w')
       else if nw \<noteq> length b then (Some ErrShortWrite, off + length b, k', w')
       else (case er of
           Some e \<Rightarrow> ((if e = EOF then None else Some e), off + length b, k', w')
         | None \<Rightarrow> copy_file snk f (off + length b) k' w')))"
  by pat_completeness auto

lemma fbytes_next_fault: "next_fault w = (x, w') \<Longrightarrow> fbytes w' d n = fbytes w d n"
  by (auto simp: next_fault_def fbytes_def fget_def split: list.splits)

lemma file_read_progress:
  assumes "file_read f n off w = ((b, er), w')" "b \<noteq> []"
  shows "file_end f w' - (off + length b) < file_end f w - off"
  using assms
  by (auto simp: file_read_def Let_def min_def fbytes_next_fault split: if_splits prod.splits option.splits)

termination copy_file
  by (relation "measure (\<lambda>(snk, f, off, k, w). file_end f w - off)")
    (auto dest: file_read_progress [OF sym])

declare copy_file.simps [simp del]

definition file_WriteTo :: "'k sink \<Rightarrow> nat \<Rightarrow> ('k \<times> log \<times> os, unit) prog" where
  "file_WriteTo snk a = (\<lambda>(k, l, w).
     if a < length (l_heap l) then
       let s = l_heap l ! a; st = sg_store s in
       (case copy_file snk (st_file st) (bw_off (st_buf st)) k w of (err, off, k', w') \<Rightarrow>
         ((case err of None \<Rightarrow> Inr () | Some e \<Rightarrow> Inl (Error e)),
          (k', l\<lparr>l_heap := (l_heap l)[a := s\<lparr>sg_store := st\<lparr>st_buf := (st_buf st)\<lparr>bw_off := off\<rparr>\<rparr>\<rparr>]\<rparr>, w')))
     else (Inl (Panic NilDereference), (k, l, w)))"

definition snapshot_Persist :: "'k sink \<Rightarrow> (nat \<times> int) list \<Rightarrow> ('k \<times> log \<times> os, unit) prog" where
  "snapshot_Persist snk readers = (\<lambda>s. case prog_iter (\<lambda>(a, _). file_WriteTo snk a) readers s of
       (Inl (Error e), (k, x)) \<Rightarrow> (Inl (Error e), (snd (snk_cancel snk k), x))
     | (Inl (Panic p), t) \<Rightarrow> (Inl (Panic p), t)
     | (Inr _, (k, x)) \<Rightarrow> (case snk_close snk k of
           (None, k') \<Rightarrow> (Inr (), (k', x))
         | (Some e, k') \<Rightarrow> (Inl (Error e), (k', x))))"

section \<open>Restore\<close>

text \<open>
  The stream that \<open>Restore\<close> reads: its bytes, and the error it ends with if it does not end with
  \<open>EOF\<close>. \<open>io.ReadFull\<close> and \<open>io.CopyN\<close> on it return what they read and the rest.
\<close>

definition stream_end :: "goerr option \<Rightarrow> goerr \<Rightarrow> goerr" where
  "stream_end e d = (case e of None \<Rightarrow> d | Some x \<Rightarrow> x)"

definition read_full :: "nat \<Rightarrow> bytes \<Rightarrow> goerr option \<Rightarrow> goerr + bytes \<times> bytes" where
  "read_full n bs e = (if n \<le> length bs then Inr (take n bs, drop n bs)
     else if bs = [] then Inl (stream_end e EOF) else Inl (stream_end e ErrUnexpectedEOF))"

definition copy_n :: "int \<Rightarrow> bytes \<Rightarrow> goerr option \<Rightarrow> goerr + bytes \<times> bytes" where
  "copy_n n bs e = (if n \<le> 0 then Inr ([], bs)
     else if nat n \<le> length bs then Inr (take (nat n) bs, drop (nat n) bs)
     else Inl (stream_end e EOF))"

text \<open>
  One round of the loop up to the payload, which goes to the end of the buffer: \<open>None\<close> when the
  stream has ended.
\<close>

definition next_frame :: "bytes \<Rightarrow> bytes \<Rightarrow> goerr option \<Rightarrow> goerr + (bytes \<times> bytes) option" where
  "next_frame buf bs e = (case read_full (unat LenWidth) bs e of
       Inl err \<Rightarrow> if err = EOF then Inr None else Inl err
     | Inr (b, bs1) \<Rightarrow> (case copy_n (sint (get_uint64 b)) bs1 e of
           Inl err \<Rightarrow> Inl err
         | Inr (p, bs2) \<Rightarrow> Inr (Some (buf @ p, bs2))))"

lemma next_frame_shorter: "next_frame buf bs e = Inr (Some (p, bs')) \<Longrightarrow> length bs' < length bs"
  by (auto simp: next_frame_def read_full_def copy_n_def LenWidth_def split: sum.splits if_splits prod.splits)

definition restore_reset :: "u64 \<Rightarrow> (log \<times> os, unit) prog" where
  "restore_reset off =
     andthen (upd_st (\<lambda>(l, w). (l\<lparr>l_config := (l_config l)\<lparr>InitialOffset := off\<rparr>\<rparr>, w))) log_reset"

text \<open>The buffer is one for all rounds and is reset at the end of each.\<close>

function restore_loop :: "codec \<Rightarrow> nat \<Rightarrow> bytes \<Rightarrow> bytes \<Rightarrow> goerr option \<Rightarrow> (log \<times> os, unit) prog" where
  "restore_loop cdc i buf bs e s = (case next_frame buf bs e of
       Inl err \<Rightarrow> (Inl (Error err), s)
     | Inr None \<Rightarrow> (Inr (), s)
     | Inr (Some (buf', bs')) \<Rightarrow> (case c_unmarshal cdc buf' of
           Inl err \<Rightarrow> (Inl (Error err), s)
         | Inr record \<Rightarrow> (case (if i = 0 then restore_reset (r_offset record) else ret ()) s of
               (Inl x, s') \<Rightarrow> (Inl x, s')
             | (Inr _, s') \<Rightarrow> (case log_append cdc (Some record) s' of
                   (Inl x, s'') \<Rightarrow> (Inl x, s'')
                 | (Inr _, s'') \<Rightarrow> restore_loop cdc (i + 1) [] bs' e s''))))"
  by pat_completeness auto
termination
  by (relation "measure (\<lambda>(cdc, i, buf, bs, e, s). length bs)") (auto dest: next_frame_shorter)

declare restore_loop.simps [simp del]

definition fsm_Restore :: "codec \<Rightarrow> bytes \<Rightarrow> goerr option \<Rightarrow> (log \<times> os, unit) prog" where
  "fsm_Restore cdc = restore_loop cdc 0 []"

definition fsm_Snapshot :: "(log \<times> os, (nat \<times> int) list) prog" where
  "fsm_Snapshot = log_Reader"

section \<open>What a snapshot holds\<close>

text \<open>A sink that takes every write; \<open>cont\<close> is what it has received.\<close>

definition sink_ok :: "'k sink \<Rightarrow> ('k \<Rightarrow> bytes) \<Rightarrow> bool" where
  "sink_ok snk cont \<longleftrightarrow>
     (\<forall>p k. \<exists>k'. snk_write snk p k = ((length p, None), k') \<and> cont k' = cont k @ p) \<and>
     (\<forall>k. \<exists>k'. snk_close snk k = (None, k') \<and> cont k' = cont k)"

lemma file_read_healthy:
  "f_open f \<Longrightarrow> healthy w \<Longrightarrow> file_read f n off w =
     (let b = take n (drop off (fbytes w (f_dir f) (f_name f))) in ((b, if b = [] then Some EOF else None), w))"
  by (simp add: file_read_def Let_def)

lemma copy_file_healthy:
  assumes "sink_ok snk cont" "f_open f" "healthy w"
  shows "\<exists>off' k'. copy_file snk f off k w = (None, off', k', w) \<and>
    cont k' = cont k @ drop off (fbytes w (f_dir f) (f_name f))"
  using assms
proof (induction snk f off k w rule: copy_file.induct)
  case (1 snk f off k w)
  let ?c = "fbytes w (f_dir f) (f_name f)"
  let ?b = "take 32768 (drop off ?c)"
  have rd: "file_read f 32768 off w = ((?b, if ?b = [] then Some EOF else None), w)"
    using file_read_healthy [OF "1.prems"(2,3)] by (simp add: Let_def)
  show ?case
  proof (cases "?b = []")
    case True
    then show ?thesis
      using rd by (simp add: copy_file.simps [of snk f off])
  next
    case False
    then have rd': "file_read f 32768 off w = ((?b, None), w)"
      using rd by simp
    obtain k' where wr: "snk_write snk ?b k = ((length ?b, None), k')" "cont k' = cont k @ ?b"
      using "1.prems"(1) unfolding sink_ok_def by blast
    have "copy_file snk f off k w = copy_file snk f (off + length ?b) k' w"
      using False rd wr(1) by (simp add: copy_file.simps [of snk f off])
    moreover obtain off' k'' where "copy_file snk f (off + length ?b) k' w = (None, off', k'', w)"
        "cont k'' = cont k' @ drop (off + length ?b) ?c"
      using "1.IH" [OF rd' [symmetric] refl False wr(1) [symmetric] refl] "1.prems" by auto
    moreover have "?b @ drop (off + length ?b) ?c = drop off ?c"
      using take_drop_length [of 32768 "drop off ?c"] by (simp only: drop_drop add.commute)
    ultimately show ?thesis
      using wr(2) by auto
  qed
qed

text \<open>What is left of a store's file from the offset of the open file on.\<close>

definition unread :: "os \<Rightarrow> segment \<Rightarrow> bytes" where
  "unread w s = drop (bw_off (st_buf (sg_store s)))
     (fbytes w (f_dir (st_file (sg_store s))) (f_name (st_file (sg_store s))))"

lemma file_WriteTo_ok:
  "a < length (l_heap l) \<Longrightarrow>
     copy_file snk (st_file (sg_store (l_heap l ! a))) (bw_off (st_buf (sg_store (l_heap l ! a)))) k w = (None, off, k', w') \<Longrightarrow>
     file_WriteTo snk a (k, l, w) = (Inr (), (k', l\<lparr>l_heap := (l_heap l)[a := (l_heap l ! a)
       \<lparr>sg_store := (sg_store (l_heap l ! a))\<lparr>st_buf := (st_buf (sg_store (l_heap l ! a)))\<lparr>bw_off := off\<rparr>\<rparr>\<rparr>]\<rparr>, w'))"
  by (simp add: file_WriteTo_def Let_def)

lemma persist_copies:
  assumes "sink_ok snk cont" "healthy w" "distinct as"
    "\<forall>a \<in> set as. a < length (l_heap l) \<and> f_open (st_file (sg_store (l_heap l ! a)))"
  shows "\<exists>k' h'. prog_iter (\<lambda>(a, _). file_WriteTo snk a) (map (\<lambda>a. (a, 0 :: int)) as) (k, l, w) =
      (Inr (), (k', l\<lparr>l_heap := h'\<rparr>, w)) \<and>
    cont k' = cont k @ concat (map (\<lambda>a. unread w (l_heap l ! a)) as)"
  using assms(3,4)
proof (induction as arbitrary: k l)
  case Nil
  then show ?case
    by (intro exI [of _ k] exI [of _ "l_heap l"]) (simp add: prog_simps)
next
  case (Cons a as)
  let ?s = "l_heap l ! a"
  let ?st = "sg_store ?s"
  obtain off' k1 where c: "copy_file snk (st_file ?st) (bw_off (st_buf ?st)) k w = (None, off', k1, w)"
      "cont k1 = cont k @ unread w ?s"
    using copy_file_healthy [OF assms(1) _ assms(2), of "st_file ?st"] Cons.prems(2) by (fastforce simp: unread_def)
  let ?l = "l\<lparr>l_heap := (l_heap l)[a := ?s\<lparr>sg_store := ?st\<lparr>st_buf := (st_buf ?st)\<lparr>bw_off := off'\<rparr>\<rparr>\<rparr>]\<rparr>"
  have same: "l_heap ?l ! x = l_heap l ! x" if "x \<in> set as" for x
    using that Cons.prems(1) by (auto intro!: nth_list_update_neq)
  then obtain k' h' where "prog_iter (\<lambda>(a, _). file_WriteTo snk a) (map (\<lambda>a. (a, 0 :: int)) as) (k1, ?l, w) =
      (Inr (), (k', ?l\<lparr>l_heap := h'\<rparr>, w))"
      "cont k' = cont k1 @ concat (map (\<lambda>a. unread w (l_heap ?l ! a)) as)"
    using Cons.IH [of ?l k1] Cons.prems by auto
  moreover have "map (\<lambda>a. unread w (l_heap ?l ! a)) as = map (\<lambda>a. unread w (l_heap l ! a)) as"
    using same by simp
  ultimately show ?case
    using c Cons.prems(2) file_WriteTo_ok [OF _ c(1)] by (simp add: prog_simps del: map_eq_conv) blast
qed

definition fresh_log :: "log \<Rightarrow> bool" where
  "fresh_log l \<longleftrightarrow> (\<forall>a \<in> set (l_segments l). st_buf (sg_store (l_heap l ! a)) = new_writer)"

lemma chain_frames:
  "chain cdc d c w b (map ((!) h) as) qs \<Longrightarrow> \<forall>a \<in> set as. st_buf (sg_store (h ! a)) = new_writer \<Longrightarrow>
     concat (map (\<lambda>a. unread w (h ! a)) as) = frames (map (enc cdc) (concat qs))"
proof (induction qs arbitrary: b as)
  case Nil
  then show ?case using chain_length [OF Nil.prems(1)] by simp
next
  case (Cons q qs)
  obtain a as' where as: "as = a # as'"
    using chain_length [OF Cons.prems(1)] by (cases as) auto
  have "store_rep (map (enc cdc) q) (sg_store (h ! a), w)"
    using Cons.prems(1) by (auto simp: as elim: seg_repE)
  then have "unread w (h ! a) = frames (map (enc cdc) q)"
    using Cons.prems(2) by (auto simp: as store_rep_def writes_to_def unread_def new_writer_def)
  then show ?case
    using Cons.IH [of "b + of_nat (length q)" as'] Cons.prems by (simp add: as)
qed

lemma chain_open:
  "chain cdc d c w b (map ((!) h) as) qs \<Longrightarrow> \<forall>a \<in> set as. f_open (st_file (sg_store (h ! a)))"
proof (induction qs arbitrary: b as)
  case Nil
  then show ?case using chain_length [OF Nil.prems(1)] by simp
next
  case (Cons q qs)
  obtain a as' where as: "as = a # as'"
    using chain_length [OF Cons.prems(1)] by (cases as) auto
  have "store_rep (map (enc cdc) q) (sg_store (h ! a), w)"
    using Cons.prems(1) by (auto simp: as elim: seg_repE)
  then show ?case
    using Cons.IH [of "b + of_nat (length q)" as'] Cons.prems by (auto simp: as store_rep_def writes_to_def)
qed

lemma Persist_unread:
  assumes rep: "log_rep cdc d c b rs (l, w)" and snk: "sink_ok snk cont"
  shows "\<exists>readers k' l'. fsm_Snapshot (l, w) = (Inr readers, (l, w)) \<and>
    snapshot_Persist snk readers (k, l, w) = (Inr (), (k', l', w)) \<and>
    cont k' = cont k @ concat (map (\<lambda>a. unread w (l_heap l ! a)) (l_segments l))"
proof -
  obtain qs q where "log_segs cdc d c b (qs @ [q]) (l, w)"
    using rep by (rule log_repE)
  then have l: "healthy w" "distinct (l_segments l)" "\<forall>a \<in> set (l_segments l). a < length (l_heap l)"
      "chain cdc d c w b (map ((!) (l_heap l)) (l_segments l)) (qs @ [q])"
    by (auto simp: log_segs_def)
  then obtain k1 h' where it: "prog_iter (\<lambda>(a, _). file_WriteTo snk a) (map (\<lambda>a. (a, 0 :: int)) (l_segments l)) (k, l, w) =
        (Inr (), (k1, l\<lparr>l_heap := h'\<rparr>, w))"
      "cont k1 = cont k @ concat (map (\<lambda>a. unread w (l_heap l ! a)) (l_segments l))"
    using persist_copies [OF snk l(1,2)] chain_open [OF l(4)] by blast
  obtain k' where "snk_close snk k1 = (None, k')" "cont k' = cont k1"
    using snk unfolding sink_ok_def by blast
  with it show ?thesis
    by (auto simp: fsm_Snapshot_def log_Reader_def snapshot_Persist_def prog_simps)
qed

text \<open>The segments that \<open>NewLog\<close> opens have an untouched writer.\<close>

lemma newStore_fresh: "wrapf m (newStore f) w = (Inr st, w') \<Longrightarrow> st_buf st = new_writer"
  by (auto simp: newStore_def prog_simps split: prod.splits sum.splits failure.splits)

lemma newSegment_fresh:
  assumes "newSegment d b c w = (Inr s, w')"
  shows "st_buf (sg_store s) = new_writer"
  using assms unfolding newSegment_def
  by (elim bnd_InrE) (auto dest!: newStore_fresh split: prod.splits sum.splits failure.splits)

lemma log_newSegment_fresh:
  assumes "log_newSegment b (l, w) = (Inr (), (l', w'))" "fresh_log l"
    "\<forall>a \<in> set (l_segments l). a < length (l_heap l)"
  shows "fresh_log l' \<and> (\<forall>a \<in> set (l_segments l'). a < length (l_heap l'))"
  using assms
  by (auto simp: log_newSegment_def fresh_log_def prog_simps nth_append less_Suc_eq
      split: prod.splits sum.splits) (blast dest: newSegment_fresh)

lemma setup_loop_fresh:
  "prog_iter log_newSegment bs (l, w) = (Inr (), (l', w')) \<Longrightarrow> fresh_log l \<Longrightarrow>
     \<forall>a \<in> set (l_segments l). a < length (l_heap l) \<Longrightarrow>
     fresh_log l' \<and> (\<forall>a \<in> set (l_segments l'). a < length (l_heap l'))"
proof (induction bs arbitrary: l w)
  case (Cons b bs)
  then obtain l1 w1 where "log_newSegment b (l, w) = (Inr (), (l1, w1))"
      "prog_iter log_newSegment bs (l1, w1) = (Inr (), (l', w'))"
    by (auto simp: prog_simps split: prod.splits sum.splits)
  with Cons.IH [of l1 w1] Cons.prems(2,3) log_newSegment_fresh show ?case by blast
qed (simp add: prog_simps)

lemma NewLog_fresh:
  assumes "NewLog d c w = (Inr l, w')"
  shows "fresh_log l"
proof -
  let ?l = "\<lparr>l_dir = d, l_config = default_config c, l_heap = [], l_segments = [], l_active = None\<rparr>"
  obtain files l1 w1 w2 where it: "prog_iter log_newSegment (every_other (sort (map base_offset_of files))) (?l, w1) =
        (Inr (), (l1, w2))"
      and rest: "(if l_segments l1 = [] then log_newSegment (InitialOffset (l_config l1)) else ret ()) (l1, w2) =
        (Inr (), (l, w'))"
    using assms by (auto simp: NewLog_def log_setup_def prog_simps split: prod.splits sum.splits failure.splits)
  then have "fresh_log l1 \<and> (\<forall>a \<in> set (l_segments l1). a < length (l_heap l1))"
    by (intro setup_loop_fresh [OF it]) (simp_all add: fresh_log_def)
  then show ?thesis
    using rest log_newSegment_fresh by (auto simp: prog_simps split: if_splits)
qed

section \<open>Reading a snapshot\<close>

lemma next_frame_frames:
  assumes "length p < 2 ^ 63"
  shows "next_frame buf (frame p @ bs) e = Inr (Some (buf @ p, bs))"
proof -
  have "sint (of_nat (length p) :: u64) = int (length p)"
    using assms by (subst sint_u64_nonneg) (simp_all add: no_wrap)
  then show ?thesis
    by (simp add: next_frame_def read_full_def copy_n_def LenWidth_def frame_def)
qed

text \<open>A stream that ends within a frame is refused.\<close>

definition cut_error :: "nat \<Rightarrow> goerr" where
  "cut_error n = (if n < 8 then ErrUnexpectedEOF else EOF)"

lemma next_frame_cut:
  assumes "length p < 2 ^ 63" "0 < n" "n < length (frame p)"
  shows "next_frame buf (take n (frame p)) None = Inl (cut_error n)"
proof -
  have s: "sint (of_nat (length p) :: u64) = int (length p)"
    using assms(1) by (subst sint_u64_nonneg) (simp_all add: no_wrap)
  show ?thesis
  proof (cases "n < 8")
    case True
    then show ?thesis
      using assms(2,3) by (auto simp: next_frame_def read_full_def LenWidth_def stream_end_def frame_def cut_error_def)
  next
    case False
    then have "take n (frame p) = put_uint64 (of_nat (length p)) @ take (n - 8) p"
      by (simp add: frame_def)
    then show ?thesis
      using assms(3) False s by (auto simp: next_frame_def read_full_def copy_n_def LenWidth_def stream_end_def cut_error_def frame_def)
  qed
qed

lemma next_frame_end: "next_frame buf [] None = Inr None"
  by (simp add: next_frame_def read_full_def LenWidth_def stream_end_def)

text \<open>The frames of a stream, and the records that the codec makes of their payloads.\<close>

definition decodes :: "codec \<Rightarrow> bytes list \<Rightarrow> log_record list \<Rightarrow> bool" where
  "decodes cdc ps rs \<longleftrightarrow> list_all2 (\<lambda>p r. length p < 2 ^ 63 \<and> c_unmarshal cdc p = Inr r) ps rs"

definition append_all :: "codec \<Rightarrow> log_record list \<Rightarrow> (log \<times> os, unit) prog" where
  "append_all cdc = prog_iter (\<lambda>r. andthen (log_append cdc (Some r)) (ret ()))"

text \<open>What \<open>Restore\<close> is meant to do with the records of a snapshot.\<close>

definition restore_spec :: "codec \<Rightarrow> log_record list \<Rightarrow> (log \<times> os, unit) prog" where
  "restore_spec cdc rs = andthen (case rs of [] \<Rightarrow> ret () | r # _ \<Rightarrow> restore_reset (r_offset r)) (append_all cdc rs)"

lemma restore_loop_frames:
  assumes "decodes cdc ps rs" and "0 < i"
  shows "restore_loop cdc i [] (frames ps @ bs) e s = andthen (append_all cdc rs) (restore_loop cdc (i + length ps) [] bs e) s"
  using assms unfolding decodes_def append_all_def
proof (induction ps rs arbitrary: i s rule: list_all2_induct)
  case (Cons p ps r rs)
  then show ?case
    using next_frame_frames [of p "[]" "frames ps @ bs" e]
    by (simp add: restore_loop.simps [of cdc i] prog_simps split: prod.split sum.split)
qed (simp add: prog_simps)

lemma fsm_Restore_frames:
  assumes "decodes cdc ps rs"
  shows "fsm_Restore cdc (frames ps @ bs) e s = andthen (restore_spec cdc rs) (restore_loop cdc (length ps) [] bs e) s"
proof (cases ps)
  case Nil
  then show ?thesis
    using assms by (simp add: decodes_def fsm_Restore_def restore_spec_def append_all_def prog_simps)
next
  case (Cons p ps')
  then obtain r rs' where rs: "rs = r # rs'" "length p < 2 ^ 63" "c_unmarshal cdc p = Inr r" "decodes cdc ps' rs'"
    using assms by (auto simp: decodes_def list_all2_Cons1)
  show ?thesis
    using next_frame_frames [OF rs(2), of "[]" "frames ps' @ bs" e] rs(3) restore_loop_frames [OF rs(4), of "Suc 0"]
    by (simp add: Cons rs(1) fsm_Restore_def restore_loop.simps [of cdc 0] restore_spec_def append_all_def prog_simps
        split: prod.split sum.split)
qed

lemma log_reset_config:
  assumes rep: "log_rep cdc d c b rs (l, w)"
  shows "\<exists>l' w'. log_reset (l\<lparr>l_config := c'\<rparr>, w) = (Inl (Error (Wrap ''setup'' ErrNotExist)), (l', w')) \<and>
    os_dirs w' d = None"
proof -
  obtain qs q where ne: "[] \<notin> set qs" and segs: "log_segs cdc d c b (qs @ [q]) (l, w)" and rs: "rs = concat qs @ q"
    and names: "dir_names w d (seg_files (bases b (qs @ [q])))" and bnd: "unat b + length rs < 2 ^ 64"
    using rep by (rule log_repE)
  have "distinct (bases b (qs @ [q]))"
    using sorted_bases [OF ne] bnd unfolding rs by (simp add: strict_sorted_iff)
  then obtain h' w' where "prog_iter (\<lambda>a. on_segment a segment_close) (l_segments l) (l\<lparr>l_config := c'\<rparr>, w) =
        (Inr (), (l\<lparr>l_config := c', l_heap := h'\<rparr>, w'))" "healthy w'"
    using close_chain [of cdc d c w b "l\<lparr>l_config := c'\<rparr>" "l_segments l" "qs @ [q]", OF _ _ _ _ _ _ names order_refl] segs
    by (auto simp: log_segs_def)
  then show ?thesis
    using segs by (auto simp: log_segs_def log_reset_def log_remove_def log_close_def remove_all_def log_setup_def
        read_dir_def prog_simps)
qed

definition mem_sink :: "bytes sink" where
  "mem_sink = \<lparr>snk_write = (\<lambda>p k. ((length p, None), k @ p)), snk_close = (\<lambda>k. (None, k)),
     snk_cancel = (\<lambda>k. (None, k))\<rparr>"

lemma mem_sink_ok: "sink_ok mem_sink id"
  by (simp add: sink_ok_def mem_sink_def)

section \<open>Properties\<close>

text \<open>
  C23: the snapshot of a log that has just been opened is complete: \<open>Persist\<close> succeeds and writes
  the frames of every record, in the order of their offsets and over all segments, to the sink.
\<close>

theorem snapshot_of_opened_log:
  assumes "NewLog d c w0 = (Inr l, w)" and "log_rep cdc d c b rs (l, w)" and "sink_ok snk cont"
  shows "\<exists>readers k' l'. fsm_Snapshot (l, w) = (Inr readers, (l, w)) \<and>
    snapshot_Persist snk readers (k, l, w) = (Inr (), (k', l', w)) \<and>
    cont k' = cont k @ frames (map (enc cdc) rs)"
proof -
  obtain qs q where rs: "rs = concat qs @ q" and segs: "log_segs cdc d c b (qs @ [q]) (l, w)"
    using assms(2) by (rule log_repE)
  have ch: "chain cdc d c w b (map ((!) (l_heap l)) (l_segments l)) (qs @ [q])"
    using segs by (auto simp: log_segs_def)
  have "concat (map (\<lambda>a. unread w (l_heap l ! a)) (l_segments l)) = frames (map (enc cdc) rs)"
    using chain_frames [OF ch] NewLog_fresh [OF assms(1)] by (simp add: fresh_log_def rs)
  then show ?thesis
    using Persist_unread [OF assms(2,3), of k] by simp
qed

theorem snapshot_of_opened_log_witness:
  "\<exists>w0 l w readers l'. NewLog ''log'' demo_config w0 = (Inr l, w) \<and>
     snapshot_Persist mem_sink readers ([], l, w) =
       (Inr (), (frames (map (enc demo_codec) demo_records), l', w))"
proof -
  obtain l w where "log_rep demo_codec ''log'' demo_config 0 demo_records (l, w)"
    using demo_log_three by blast
  then obtain w1 l2 w2 where nl: "NewLog ''log'' demo_config w1 = (Inr l2, w2)"
      and rep: "log_rep demo_codec ''log'' demo_config 0 demo_records (l2, w2)"
    using log_close_NewLog by blast
  from snapshot_of_opened_log [OF nl rep mem_sink_ok, of "[]"] nl show ?thesis
    unfolding id_apply append_Nil by blast
qed



text \<open>
  C29: \<open>Restore\<close> fails on every snapshot that has a record, and loses the log. The first record
  makes it call \<open>Reset\<close>, which removes the directory of the log and then cannot open it.
\<close>

theorem restore_never_succeeds:
  assumes "log_rep cdc d c b rs (l, w)" and "next_frame [] bs e = Inr (Some (p, bs'))"
    and "c_unmarshal cdc p = Inr r"
  shows "\<exists>l' w'. fsm_Restore cdc bs e (l, w) = (Inl (Error (Wrap ''setup'' ErrNotExist)), (l', w')) \<and>
    os_dirs w' d = None"
  using log_reset_config [OF assms(1), of "(l_config l)\<lparr>InitialOffset := r_offset r\<rparr>"] assms(2,3)
  by (auto simp: fsm_Restore_def restore_loop.simps [of cdc 0] restore_reset_def prog_simps)

theorem restore_never_succeeds_witness:
  "\<exists>l w l' w'. NewLog ''log'' demo_config demo_disk = (Inr l, w) \<and>
     fsm_Restore demo_codec (frames (map (enc demo_codec) demo_records)) None (l, w) =
       (Inl (Error (Wrap ''setup'' ErrNotExist)), (l', w')) \<and> os_dirs w' ''log'' = None"
proof -
  obtain l w where nl: "NewLog ''log'' demo_config demo_disk = (Inr l, w)"
      and rep: "log_rep demo_codec ''log'' demo_config 0 [] (l, w)"
    using demo_log by blast
  let ?p = "enc demo_codec (demo_record 1\<lparr>r_offset := 0\<rparr>)"
  have "next_frame [] (frames (map (enc demo_codec) demo_records)) None =
      Inr (Some (?p, frames (map (enc demo_codec) (tl demo_records))))"
    using next_frame_frames [of ?p "[]"] by (simp add: demo_records_def length_demo_enc demo_record_def)
  moreover have "c_unmarshal demo_codec ?p = Inr (demo_record 1\<lparr>r_offset := 0\<rparr>)"
    using demo_encodable by (simp add: encodable_def)
  ultimately show ?thesis
    using restore_never_succeeds [OF rep] nl by blast
qed

end
