(* ===== verification/SnapshotLoss.thy ===== *)
theory SnapshotLoss
  imports Snapshot
begin

text \<open>
  The offset of a store's open file, from which \<open>Persist\<close> copies: every write leaves it at the
  end of the file, so a segment that this process has created has nothing to copy.
\<close>

section \<open>Who moves the offset\<close>

abbreviation off_at_end :: "os_file \<Rightarrow> bufw \<times> os \<Rightarrow> bool" where
  "off_at_end f \<equiv> \<lambda>(b, w). bw_off b = file_end f w"

lemma keeps_flush_off: "keeps (off_at_end f) (bufio_flush f)"
  by (rule keepsI) (auto simp: bufio_flush_def split: option.splits if_splits prod.splits)

lemma keeps_write_off: "keeps (off_at_end f) (bufio_write f p)"
proof (rule keepsI)
  fix s r t
  assume s: "off_at_end f s" and run: "bufio_write f p s = (r, t)"
  obtain p1 s1 where fill: "bufio_fill f p s = (p1, s1)" by (cases "bufio_fill f p s")
  obtain p2 b2 w2 where dir: "bufio_direct f p1 s1 = (p2, (b2, w2))" by (cases "bufio_direct f p1 s1") auto
  obtain b w where bw: "s = (b, w)" by (cases s)
  have "off_at_end f (snd (bufio_flush f (b\<lparr>bw_buf := x\<rparr>, w)))" for x
    using s by (intro keeps_snd [OF keeps_flush_off]) (simp add: bw)
  moreover have "s1 = s \<or> (\<exists>x. s1 = snd (bufio_flush f (b\<lparr>bw_buf := x\<rparr>, w)))"
    using fill by (auto simp: bw bufio_fill_def split: if_splits)
  ultimately have "off_at_end f s1"
    using s by metis
  then have "off_at_end f (b2, w2)"
    using dir by (auto simp: bufio_direct_def split: if_splits prod.splits)
  then show "off_at_end f t"
    using run fill dir by (auto simp: bufio_write_def split: option.splits)
qed

text \<open>The store, its file \<open>f\<close> fixed.\<close>

abbreviation store_at_end :: "os_file \<Rightarrow> store \<times> os \<Rightarrow> bool" where
  "store_at_end f \<equiv> \<lambda>(s, w). st_file s = f \<and> bw_off (st_buf s) = file_end f w"

lemma keeps_on_buf: "keeps (off_at_end f) (m f) \<Longrightarrow> keeps (store_at_end f) (on_buf m)"
  by (rule keepsI) (auto simp: on_buf_def split: prod.splits dest: keepsD)

lemma fbytes_file_read_at: "file_read_at g n off w = (r, w') \<Longrightarrow> fbytes w' d m = fbytes w d m"
  by (auto simp: file_read_at_def file_pread_def Let_def fbytes_next_fault
      split: if_splits prod.splits option.splits)

lemma keeps_read_at: "keeps (store_at_end f) (on_os (file_read_at g n off))"
  by (rule keepsI) (auto simp: on_os_def fbytes_file_read_at split: prod.splits)

lemma keeps_store_append: "keeps (store_at_end f) (store_append p)"
  unfolding store_append_def
  by (intro keeps_intros keeps_on_buf keeps_write_off keeps_upd_st) auto

lemma keeps_store_read: "keeps (store_at_end f) (store_read pos)"
  unfolding store_read_def make_bytes_def
  by (intro keeps_intros keeps_on_buf keeps_flush_off keeps_read_at)

text \<open>
  A segment with the files \<open>f\<close> and \<open>g\<close>, and what it does to the length of a third file \<open>h\<close>.
\<close>

abbreviation same_file :: "os_file \<Rightarrow> os_file \<Rightarrow> bool" where
  "same_file f g \<equiv> f_dir f = f_dir g \<and> f_name f = f_name g"

abbreviation seg_files_at_end :: "os_file \<Rightarrow> os_file \<Rightarrow> segment \<times> os \<Rightarrow> bool" where
  "seg_files_at_end f g \<equiv> \<lambda>(s, w). st_file (sg_store s) = f \<and> ix_file (sg_index s) = g \<and>
     bw_off (st_buf (sg_store s)) = file_end f w"

abbreviation index_apart :: "os_file \<Rightarrow> os_file \<Rightarrow> nat \<Rightarrow> index \<times> os \<Rightarrow> bool" where
  "index_apart g h n \<equiv> \<lambda>(i, w). ix_file i = g \<and> file_end h w = n"

abbreviation store_apart :: "os_file \<Rightarrow> os_file \<Rightarrow> nat \<Rightarrow> store \<times> os \<Rightarrow> bool" where
  "store_apart f h n \<equiv> \<lambda>(s, w). st_file s = f \<and> file_end h w = n"

abbreviation seg_apart :: "os_file \<Rightarrow> os_file \<Rightarrow> os_file \<Rightarrow> nat \<Rightarrow> segment \<times> os \<Rightarrow> bool" where
  "seg_apart f g h n \<equiv> \<lambda>(s, w). st_file (sg_store s) = f \<and> ix_file (sg_index s) = g \<and> file_end h w = n"

lemma keeps_mmap_store: "\<not> same_file g h \<Longrightarrow> keeps (index_apart g h n) (mmap_store lo hi b)"
  by (rule keepsI) (auto simp: mmap_store_def split: if_splits option.splits)

lemma keeps_index_write: "\<not> same_file g h \<Longrightarrow> keeps (index_apart g h n) (index_write off pos)"
  unfolding index_write_def
  by (intro keeps_intros keeps_mmap_store keeps_upd_st) auto

lemma fbytes_file_write:
  "file_write f p w = (r, w') \<Longrightarrow> \<not> same_file f h \<Longrightarrow> file_end h w' = file_end h w"
  by (auto simp: file_write_def fbytes_next_fault split: if_splits prod.splits option.splits)

lemma keeps_flush_apart: "\<not> same_file f h \<Longrightarrow> keeps (\<lambda>(b, w). file_end h w = n) (bufio_flush f)"
  by (rule keepsI) (auto simp: bufio_flush_def fbytes_file_write split: if_splits prod.splits option.splits)

lemma keeps_write_apart:
  assumes "\<not> same_file f h"
  shows "keeps (\<lambda>(b, w). file_end h w = n) (bufio_write f p)"
proof (rule keepsI)
  fix s :: "bufw \<times> os" and r t
  assume s: "case s of (b, w) \<Rightarrow> file_end h w = n" and run: "bufio_write f p s = (r, t)"
  obtain p1 s1 where fill: "bufio_fill f p s = (p1, s1)" by (cases "bufio_fill f p s")
  obtain p2 b2 w2 where dir: "bufio_direct f p1 s1 = (p2, (b2, w2))" by (cases "bufio_direct f p1 s1") auto
  obtain b w where bw: "s = (b, w)" by (cases s)
  have "(\<lambda>(b, w). file_end h w = n) (snd (bufio_flush f (b\<lparr>bw_buf := x\<rparr>, w)))" for x
    using s by (intro keeps_snd [OF keeps_flush_apart [OF assms]]) (simp add: bw)
  moreover have "s1 = s \<or> (\<exists>x. s1 = snd (bufio_flush f (b\<lparr>bw_buf := x\<rparr>, w)))"
    using fill by (auto simp: bw bufio_fill_def split: if_splits)
  ultimately have "(\<lambda>(b, w). file_end h w = n) s1"
    using s by metis
  then have "file_end h w2 = n"
    using dir fbytes_file_write [OF _ assms] by (auto simp: bufio_direct_def split: if_splits prod.splits)
  then show "case t of (b, w) \<Rightarrow> file_end h w = n"
    using run fill dir by (auto simp: bufio_write_def split: option.splits)
qed

lemma keeps_on_buf_apart: "keeps (\<lambda>(b, w). file_end h w = n) (m f) \<Longrightarrow> keeps (store_apart f h n) (on_buf m)"
  by (rule keepsI) (auto simp: on_buf_def split: prod.splits dest: keepsD)

lemma keeps_read_at_apart: "keeps (store_apart f h n) (on_os (file_read_at g m off))"
  by (rule keepsI) (auto simp: on_os_def fbytes_file_read_at split: prod.splits)

lemma keeps_store_append_apart: "\<not> same_file f h \<Longrightarrow> keeps (store_apart f h n) (store_append p)"
  unfolding store_append_def
  by (intro keeps_intros keeps_on_buf_apart keeps_write_apart keeps_upd_st) auto

lemma keeps_store_read_apart: "\<not> same_file f h \<Longrightarrow> keeps (store_apart f h n) (store_read pos)"
  unfolding store_read_def make_bytes_def
  by (intro keeps_intros keeps_on_buf_apart keeps_flush_apart keeps_read_at_apart)

text \<open>Segments inherit both from their store and their index.\<close>

lemma keeps_on_store: "keeps (store_at_end f) m \<Longrightarrow> keeps (seg_files_at_end f g) (on_store m)"
  by (rule keepsI) (auto simp: on_store_def split: prod.splits dest: keepsD)

lemma keeps_on_index: "(\<And>n. keeps (index_apart g f n) m) \<Longrightarrow> keeps (seg_files_at_end f g) (on_index m)"
proof (rule keepsI)
  fix s :: "segment \<times> os" and r t
  assume m: "\<And>n. keeps (index_apart g f n) m" and s: "seg_files_at_end f g s" and run: "on_index m s = (r, t)"
  obtain x w where s': "s = (x, w)" by (cases s)
  obtain i w' where t: "m (sg_index x, w) = (r, (i, w'))" "t = (x\<lparr>sg_index := i\<rparr>, w')"
    using run by (auto simp: s' on_index_def split: prod.splits)
  show "seg_files_at_end f g t"
    using keepsD [OF m t(1), of "file_end f w"] s t(2) by (simp add: s')
qed

lemma keeps_on_store_apart: "keeps (store_apart f h n) m \<Longrightarrow> keeps (seg_apart f g h n) (on_store m)"
  by (rule keepsI) (auto simp: on_store_def split: prod.splits dest: keepsD)

lemma keeps_on_index_apart: "keeps (index_apart g h n) m \<Longrightarrow> keeps (seg_apart f g h n) (on_index m)"
  by (rule keepsI) (auto simp: on_index_def split: prod.splits dest: keepsD)

lemma keeps_segment_append:
  assumes "\<not> same_file g f"
  shows "keeps (seg_files_at_end f g) (segment_append cdc r)"
  unfolding segment_append_def
  by (intro keeps_intros keeps_on_store keeps_on_index keeps_store_append keeps_index_write assms keeps_upd_st) auto

lemma keeps_segment_read:
  assumes "\<not> same_file g f"
  shows "keeps (seg_files_at_end f g) (segment_read cdc off)"
  unfolding segment_read_def
  by (intro keeps_intros keeps_on_store keeps_on_index keeps_store_read keeps_index_read)

lemma keeps_segment_append_apart:
  assumes "\<not> same_file f h" "\<not> same_file g h"
  shows "keeps (seg_apart f g h n) (segment_append cdc r)"
  unfolding segment_append_def
  by (intro keeps_intros keeps_on_store_apart keeps_on_index_apart keeps_store_append_apart keeps_index_write
      assms keeps_upd_st) auto

lemma keeps_segment_read_apart:
  assumes "\<not> same_file f h" "\<not> same_file g h"
  shows "keeps (seg_apart f g h n) (segment_read cdc off)"
  unfolding segment_read_def
  by (intro keeps_intros keeps_on_store_apart keeps_on_index_apart keeps_store_read_apart keeps_index_read assms)

section \<open>A new segment\<close>

abbreviation end_is :: "os_file \<Rightarrow> nat \<Rightarrow> os \<Rightarrow> bool" where
  "end_is h n \<equiv> \<lambda>w. file_end h w = n"

lemma sys_fbytes: "sys w = (r, w') \<Longrightarrow> fbytes w' d n = fbytes w d n"
  by (auto simp: sys_def fbytes_next_fault split: prod.splits option.splits)

lemma keeps_sys: "keeps (end_is h n) sys"
  by (rule keepsI) (simp add: sys_fbytes)

lemma fbytes_fput_new: "fget w d n = None \<Longrightarrow> fbytes (fput d n [] w) d' n' = fbytes w d' n'"
  by (cases "os_dirs w d"; cases "(d', n') = (d, n)")
    (auto simp: fbytes_def fget_def fput_def update_conv' split: option.splits)

lemma keeps_open_file: "keeps (end_is h k) (open_file d n)"
  unfolding open_file_def
  by (intro keeps_intros keeps_sys) (auto intro!: keepsI simp: fbytes_fput_new split: option.splits if_splits)

lemma keeps_file_op: "(\<And>c. keeps (end_is h n) (m c)) \<Longrightarrow> keeps (end_is h n) (file_op f m)"
  unfolding file_op_def
  by (intro keeps_intros keeps_sys)

lemma keeps_file_size: "keeps (end_is h n) (file_size f)"
  unfolding file_size_def by (intro keeps_file_op keeps_intros)

lemma keeps_file_mmap: "keeps (end_is h n) (file_mmap f m)"
  unfolding file_mmap_def by (intro keeps_file_op keeps_intros)

lemma keeps_file_truncate: "\<not> same_file f h \<Longrightarrow> keeps (end_is h n) (file_truncate f m)"
  unfolding file_truncate_def by (intro keeps_file_op keeps_intros keeps_upd_st) auto

lemma keeps_newIndex: "\<not> same_file f h \<Longrightarrow> keeps (end_is h n) (newIndex f m)"
  unfolding newIndex_def
  by (intro keeps_intros keeps_file_size keeps_file_truncate keeps_file_mmap)

lemma keeps_newStore: "keeps (end_is h n) (newStore f)"
  unfolding newStore_def by (intro keeps_intros keeps_file_size)

lemma keeps_newSegment:
  assumes "f_dir h \<noteq> d \<or> f_name h \<noteq> index_file_name b"
  shows "keeps (end_is h n) (newSegment d b c)"
  unfolding newSegment_def
proof (intro keeps_bnd_result keeps_wrapf keeps_open_file keeps_newStore)
  fix xf s t
  assume "wrapf ''open index'' (open_file d (index_file_name b)) s = (Inr xf, t)"
  then have "\<not> same_file xf h"
    using assms open_file_name by fastforce
  then show "keeps (end_is h n) (newIndex xf (MaxIndexBytes c))"
    by (rule keeps_newIndex)
next
  fix st ix
  show "keeps (end_is h n) (\<lambda>w. case index_read (- 1) (ix, w) of
         (Inl (Panic p), (_, w')) \<Rightarrow> (Inl (Panic p), w')
       | (Inl (Error _), (ix', w')) \<Rightarrow>
           (Inr \<lparr>sg_store = st, sg_index = ix', baseOffset = b, nextOffset = b, sg_config = c\<rparr>, w')
       | (Inr (off, _), (ix', w')) \<Rightarrow>
           (Inr \<lparr>sg_store = st, sg_index = ix', baseOffset = b,
              nextOffset = b + ucast off + 1, sg_config = c\<rparr>, w'))"
    by (rule keepsI) (auto dest: index_read_world split: prod.splits sum.splits failure.splits)
qed

section \<open>The log\<close>

abbreviation sfile :: "log \<Rightarrow> nat \<Rightarrow> os_file" where
  "sfile l a \<equiv> st_file (sg_store (l_heap l ! a))"

abbreviation xfile :: "log \<Rightarrow> nat \<Rightarrow> os_file" where
  "xfile l a \<equiv> ix_file (sg_index (l_heap l ! a))"

definition log_at_end :: "log \<times> os \<Rightarrow> bool" where
  "log_at_end = (\<lambda>(l, w). \<forall>a \<in> set (l_segments l).
     bw_off (st_buf (sg_store (l_heap l ! a))) = file_end (sfile l a) w)"

text \<open>The segments of a log do not share files.\<close>

lemma chain_files:
  assumes "chain cdc d c w b (map ((!) h) as) qs"
  shows "map (\<lambda>a. baseOffset (h ! a)) as = bases b qs \<and>
    (\<forall>a \<in> set as. f_dir (st_file (sg_store (h ! a))) = d \<and>
      f_name (st_file (sg_store (h ! a))) = store_file_name (baseOffset (h ! a)) \<and>
      f_dir (ix_file (sg_index (h ! a))) = d \<and>
      f_name (ix_file (sg_index (h ! a))) = index_file_name (baseOffset (h ! a)))"
  using assms
proof (induction qs arbitrary: b as)
  case Nil
  then show ?case using chain_length [OF Nil.prems] by simp
next
  case (Cons q qs)
  obtain a as' where as: "as = a # as'"
    using chain_length [OF Cons.prems] by (cases as) auto
  have "seg_rep cdc d c b q (h ! a, w)"
    using Cons.prems by (simp add: as)
  then show ?case
    using Cons.IH [of "b + of_nat (length q)" as'] Cons.prems by (auto simp: as elim!: seg_repE)
qed

lemma log_files_apart:
  assumes rep: "log_rep cdc d c b rs (l, w)" and a: "a \<in> set (l_segments l)" "a' \<in> set (l_segments l)"
  shows "\<not> same_file (xfile l a) (sfile l a')" and "a \<noteq> a' \<Longrightarrow> \<not> same_file (sfile l a) (sfile l a')"
proof -
  obtain qs q where ne: "[] \<notin> set qs" and rs: "rs = concat qs @ q"
    and segs: "log_segs cdc d c b (qs @ [q]) (l, w)" and bnd: "unat b + length rs < 2 ^ 64"
    using rep by (rule log_repE)
  have "chain cdc d c w b (map ((!) (l_heap l)) (l_segments l)) (qs @ [q])"
    using segs by (auto simp: log_segs_def)
  note files = chain_files [OF this]
  have "distinct (bases b (qs @ [q]))"
    using sorted_bases [OF ne] bnd unfolding rs by (simp add: strict_sorted_iff)
  then have "inj_on (\<lambda>a. baseOffset (l_heap l ! a)) (set (l_segments l))"
    using files by (metis distinct_map)
  then show "\<not> same_file (xfile l a) (sfile l a')" and "a \<noteq> a' \<Longrightarrow> \<not> same_file (sfile l a) (sfile l a')"
    using files a by (auto dest: inj_onD)
qed

lemma on_segment_at_end:
  assumes rep: "log_rep cdc d c b rs (l, w)" and a: "a \<in> set (l_segments l)" and e: "log_at_end (l, w)"
    and run: "on_segment a m (l, w) = (r, (l', w'))"
    and own: "keeps (seg_files_at_end (sfile l a) (xfile l a)) m"
    and others: "\<And>h n. \<not> same_file (sfile l a) h \<Longrightarrow> \<not> same_file (xfile l a) h \<Longrightarrow>
      keeps (seg_apart (sfile l a) (xfile l a) h n) m"
  shows "log_at_end (l', w') \<and> l_segments l' = l_segments l \<and> l_dir l' = l_dir l \<and>
    length (l_heap l') = length (l_heap l) \<and> (\<forall>x \<in> set (l_segments l). sfile l' x = sfile l x) \<and>
    (\<forall>h. \<not> same_file (sfile l a) h \<longrightarrow> \<not> same_file (xfile l a) h \<longrightarrow> file_end h w' = file_end h w)"
proof -
  have lt: "a < length (l_heap l)"
    using rep a by (auto simp: log_rep_def log_segs_def)
  then obtain s' where m: "m (l_heap l ! a, w) = (r, (s', w'))" and l': "l' = l\<lparr>l_heap := (l_heap l)[a := s']\<rparr>"
    using run by (auto simp: on_segment_def split: prod.splits)
  have "seg_files_at_end (sfile l a) (xfile l a) (s', w')"
    using e a by (intro keepsD [OF own m]) (simp add: log_at_end_def)
  moreover have third: "file_end h w' = file_end h w" if "\<not> same_file (sfile l a) h" "\<not> same_file (xfile l a) h" for h
    using keepsD [OF others [OF that] m, of "file_end h w"] by simp
  moreover have "file_end (sfile l x) w' = file_end (sfile l x) w" if "x \<in> set (l_segments l)" "x \<noteq> a" for x
    using log_files_apart [OF rep a that(1)] that(2) by (intro third) blast+
  ultimately show ?thesis
    using e lt by (auto simp: log_at_end_def l' nth_list_update)
qed

lemma log_read_at_end:
  assumes rep: "log_rep cdc d c b rs (l, w)" and e: "log_at_end (l, w)"
  shows "log_at_end (snd (log_read cdc off (l, w)))"
proof (cases "find_segment l off")
  case None
  then show ?thesis using e by (simp add: log_read_def prog_simps)
next
  case (Some a)
  then have a: "a \<in> set (l_segments l)"
    by (auto simp: find_segment_def find_Some_iff)
  obtain r l' w' where run: "on_segment a (segment_read cdc off) (l, w) = (r, (l', w'))"
    by (metis prod.collapse)
  have "log_at_end (l', w')"
    using log_files_apart(1) [OF rep a a]
    by (intro on_segment_at_end [OF rep a e run, THEN conjunct1] keeps_segment_read keeps_segment_read_apart) auto
  with Some run e show ?thesis
    by (simp add: log_read_def prog_simps)
qed

text \<open>The store file of the next segment does not exist yet.\<close>

lemma next_file:
  assumes rep: "log_rep cdc d c b rs (l, w)" and fits: "unat b + length rs + 1 < 2 ^ 64"
  defines "n \<equiv> store_file_name (b + of_nat (length rs) + 1)"
  shows "fget w d n = None" and "a \<in> set (l_segments l) \<Longrightarrow> f_name (sfile l a) \<noteq> n"
    and "a \<in> set (l_segments l) \<Longrightarrow> f_name (xfile l a) \<noteq> n"
proof -
  obtain qs q where ne: "[] \<notin> set qs" and rs: "rs = concat qs @ q"
    and segs: "log_segs cdc d c b (qs @ [q]) (l, w)"
    and names: "dir_names w d (seg_files (bases b (qs @ [q])))"
    using rep by (rule log_repE)
  have u: "unat (b + of_nat (length (concat qs))) = unat b + length (concat qs)"
    using fits by (intro unat_plus_of_nat) (simp add: rs)
  have le: "unat x \<le> unat b + length rs" if x: "x \<in> set (bases b (qs @ [q]))" for x
  proof (cases "x \<in> set (bases b qs)")
    case True
    then show ?thesis
      using bases_bound [OF ne, of b x] fits by (simp add: rs)
  next
    case False
    then show ?thesis
      using x u by (auto simp: bases_append rs)
  qed
  have "unat (b + of_nat (length rs) + 1) = unat b + length rs + 1"
    using unat_plus_of_nat [of b "length rs + 1"] fits by (simp add: ac_simps)
  then have fresh: "b + of_nat (length rs) + 1 \<notin> set (bases b (qs @ [q]))"
    using le [of "b + of_nat (length rs) + 1"] by auto
  then show "fget w d n = None"
    using seg_files_fresh dir_names_absent [OF names] unfolding n_def by blast
  have "chain cdc d c w b (map ((!) (l_heap l)) (l_segments l)) (qs @ [q])"
    using segs by (auto simp: log_segs_def)
  note files = chain_files [OF this]
  have "baseOffset (l_heap l ! a) \<in> set (bases b (qs @ [q]))" if "a \<in> set (l_segments l)"
    unfolding files [THEN conjunct1, symmetric] using that by simp
  then show "a \<in> set (l_segments l) \<Longrightarrow> f_name (sfile l a) \<noteq> n"
    and "a \<in> set (l_segments l) \<Longrightarrow> f_name (xfile l a) \<noteq> n"
    using files fresh by (auto simp: n_def)
qed

lemma log_newSegment_at_end:
  assumes e: "log_at_end (l, w)" and al: "\<forall>a \<in> set (l_segments l). a < length (l_heap l)"
    and st: "\<forall>a \<in> set (l_segments l). \<exists>x. f_name (sfile l a) = store_file_name x"
    and new: "fbytes w (l_dir l) (store_file_name base) = []"
  shows "log_at_end (snd (log_newSegment base (l, w)))"
proof (cases "newSegment (l_dir l) base (l_config l) w")
  case (Pair r w')
  note keep = keepsD [OF keeps_newSegment Pair]
  have old: "file_end (sfile l a) w' = file_end (sfile l a) w" if a: "a \<in> set (l_segments l)" for a
  proof -
    obtain x where "f_name (sfile l a) = store_file_name x"
      using st a by blast
    then show ?thesis
      using keep [of "sfile l a" "file_end (sfile l a) w"] by simp
  qed
  show ?thesis
  proof (cases r)
    case (Inl x)
    then show ?thesis
      using Pair e old by (simp add: log_newSegment_def prog_simps log_at_end_def)
  next
    case (Inr s)
    have f: "st_file (sg_store s) = \<lparr>f_dir = l_dir l, f_name = store_file_name base, f_open = True\<rparr>"
      "st_buf (sg_store s) = new_writer"
      using newSegment_file newSegment_fresh Pair Inr by blast+
    have "file_end (st_file (sg_store s)) w' = 0"
      using keep [of "st_file (sg_store s)" 0] f new by simp
    then show ?thesis
      using Pair Inr e old al f
      by (auto simp: log_newSegment_def prog_simps log_at_end_def nth_append new_writer_def)
  qed
qed

lemma log_append_at_end:
  assumes rep: "log_rep cdc d c b rs (l, w)" and e: "log_at_end (l, w)" and fits: "log_fits cdc c b rs r"
  shows "log_at_end (snd (log_append cdc (Some r) (l, w)))"
proof -
  obtain qs q where segs: "log_segs cdc d c b (qs @ [q]) (l, w)"
    using rep by (rule log_repE)
  obtain as a where sg: "l_segments l = as @ [a]" and act: "l_active l = Some a"
    using segs by (rule log_segs_lastE)
  have a: "a \<in> set (l_segments l)" and al: "\<forall>a \<in> set (l_segments l). a < length (l_heap l)" and d: "l_dir l = d"
    and ch: "chain cdc d c w b (map ((!) (l_heap l)) (l_segments l)) (qs @ [q])"
    using segs sg by (auto simp: log_segs_def)
  obtain x l1 w1 where run: "on_segment a (segment_append cdc (Some r)) (l, w) = (x, (l1, w1))"
    by (metis prod.collapse)
  have l1: "log_at_end (l1, w1) \<and> l_segments l1 = l_segments l \<and> l_dir l1 = l_dir l \<and>
      length (l_heap l1) = length (l_heap l) \<and> (\<forall>x \<in> set (l_segments l). sfile l1 x = sfile l x) \<and>
      (\<forall>h. \<not> same_file (sfile l a) h \<longrightarrow> \<not> same_file (xfile l a) h \<longrightarrow> file_end h w1 = file_end h w)"
    using log_files_apart(1) [OF rep a a]
    by (intro on_segment_at_end [OF rep a e run] keeps_segment_append keeps_segment_append_apart) auto
  show ?thesis
  proof (cases x)
    case (Inl y)
    then show ?thesis using run act l1 by (simp add: log_append_def prog_simps)
  next
    case (Inr off)
    have off: "off = b + of_nat (length rs)"
      using log_append_rep [OF rep fits] run act Inr
      by (auto simp: log_append_def prog_simps split: if_splits prod.splits sum.splits)
    let ?n = "store_file_name (b + of_nat (length rs) + 1)"
    have room: "unat b + length rs + 1 < 2 ^ 64"
      using fits by (simp add: log_fits_def)
    have "file_end h w1 = file_end h w" if "f_name h = ?n" for h
      using l1 next_file(2,3) [OF rep room a] that by metis
    from this [of "\<lparr>f_dir = d, f_name = ?n, f_open = True\<rparr>"] have "fbytes w1 d ?n = []"
      using next_file(1) [OF rep room] by simp
    then have "log_at_end (snd (log_newSegment (b + of_nat (length rs) + 1) (l1, w1)))"
      using l1 al d chain_files [OF ch] by (intro log_newSegment_at_end) auto
    then show ?thesis
      using run act l1 Inr off by (auto simp: log_append_def prog_simps split: prod.splits sum.splits)
  qed
qed

text \<open>
  A log that holds the list of records of its specification and whose files are all read to
  the end simulates the specification as long as it is not restarted.
\<close>

interpretation stale_log: refinement "\<lambda>rs s. log_rep cdc d c b rs s \<and> log_at_end s"
  "\<lambda>cmd rs. (codec_ok cdc \<and> cmd_ok cdc c b cmd rs) \<and> cmd \<noteq> CReopen" "spec_cmd b" "exec_cmd cdc"
  for cdc d c b
proof unfold_locales
  fix rs s cmd
  assume rep: "log_rep cdc d c b rs s \<and> log_at_end s"
    and ok: "(codec_ok cdc \<and> cmd_ok cdc c b cmd rs) \<and> cmd \<noteq> CReopen"
  obtain l w where s: "s = (l, w)" by (cases s)
  have "log_at_end (snd (exec_cmd cdc cmd s))"
  proof (cases cmd)
    case (CAppend r)
    then show ?thesis
      using log_append_at_end [of cdc d c b rs l w r] log_fitsI [of cdc c b rs r] rep ok
      by (auto simp: s reply_of_def split: prod.splits sum.splits)
  next
    case (CRead off)
    then show ?thesis
      using log_read_at_end [of cdc d c b rs l w off] rep
      by (auto simp: s reply_of_def split: prod.splits sum.splits)
  next
    case CLowest
    then show ?thesis
      using rep LowestOffset_rep [of cdc d c b rs l w] by (simp add: s reply_of_def)
  next
    case CHighest
    then show ?thesis
      using rep HighestOffset_rep [of cdc d c b rs l w] by (simp add: s reply_of_def)
  qed (use ok in simp)
  then show "fst (exec_cmd cdc cmd s) = fst (spec_cmd b cmd rs) \<and>
      (log_rep cdc d c b (snd (spec_cmd b cmd rs)) (snd (exec_cmd cdc cmd s)) \<and>
       log_at_end (snd (exec_cmd cdc cmd s)))"
    using log_spec.simulate [of cdc d c b rs s cmd] rep ok by blast
qed

lemma NewLog_at_end:
  assumes "NewLog d c w = (Inr l, w')" "log_rep cdc d c b [] (l, w')"
  shows "log_at_end (l, w')"
proof -
  obtain qs q where rs: "[] = concat qs @ q" and ne: "[] \<notin> set qs"
    and segs: "log_segs cdc d c b (qs @ [q]) (l, w')"
    using assms(2) by (rule log_repE)
  have "qs = []" "q = []"
    using rs ne by (cases qs; auto)+
  then have "log_segs cdc d c b ([] @ [[]]) (l, w')"
    using segs by simp
  then obtain as a where "l_segments l = as @ [a]" "length as = length ([] :: log_record list list)"
      "seg_rep cdc d c (b + of_nat (length (concat ([] :: log_record list list)))) [] (l_heap l ! a, w')"
    by (rule log_segs_lastE)
  moreover have "fresh_log l"
    by (rule NewLog_fresh [OF assms(1)])
  ultimately show ?thesis
    by (auto simp: log_at_end_def fresh_log_def new_writer_def store_rep_def writes_to_def elim!: seg_repE)
qed

lemma log_at_end_unread:
  "log_at_end (l, w) \<Longrightarrow> concat (map (\<lambda>a. unread w (l_heap l ! a)) (l_segments l)) = []"
  by (auto simp: log_at_end_def unread_def)

lemma admissible_not:
  "admissible ok step cs s \<Longrightarrow> c \<notin> set cs \<Longrightarrow> admissible (\<lambda>x a. ok x a \<and> x \<noteq> c) step cs s"
  by (induction cs arbitrary: s) auto

section \<open>Properties\<close>

text \<open>
  C22: a snapshot of a running log is empty. For a log created in an empty directory, after any
  sequence of appends, reads and queries, \<open>Persist\<close> succeeds and writes nothing to the sink:
  \<open>io.Copy\<close> takes the \<open>WriteTo\<close> of the embedded \<open>*os.File\<close>, which continues at the offset where
  the last write left the open file, and neither flushes the buffer nor begins at the origin.
\<close>

theorem snapshot_of_running_log_empty:
  assumes "config_ok c" and "healthy w" and "dir_names w d {}" and "codec_ok cdc" and "sink_ok snk cont"
    and "admissible (cmd_ok cdc c (InitialOffset c)) (spec_cmd (InitialOffset c)) cmds []"
    and "CReopen \<notin> set cmds"
  shows "\<exists>l w' l2 w2 readers k' l3. NewLog d c w = (Inr l, w') \<and>
    run_cmds (exec_cmd cdc) cmds (l, w') = (fst (run_cmds (spec_cmd (InitialOffset c)) cmds []), (l2, w2)) \<and>
    fsm_Snapshot (l2, w2) = (Inr readers, (l2, w2)) \<and>
    snapshot_Persist snk readers (k, l2, w2) = (Inr (), (k', l3, w2)) \<and> cont k' = cont k"
proof -
  let ?b = "InitialOffset c"
  obtain l w' where nl: "NewLog d c w = (Inr l, w')" and rep: "log_rep cdc d c ?b [] (l, w')"
    using NewLog_empty [OF assms(1-3)] by blast
  obtain reps l2 w2 where run: "run_cmds (exec_cmd cdc) cmds (l, w') = (reps, (l2, w2))"
    by (metis prod.collapse)
  have "admissible (\<lambda>x a. (codec_ok cdc \<and> cmd_ok cdc c ?b x a) \<and> x \<noteq> CReopen) (spec_cmd ?b) cmds []"
    using admissible_not [OF admissible_conj [OF assms(4,6)] assms(7)] .
  then have r: "reps = fst (run_cmds (spec_cmd ?b) cmds [])"
      "log_rep cdc d c ?b (snd (run_cmds (spec_cmd ?b) cmds [])) (l2, w2)" "log_at_end (l2, w2)"
    using stale_log.run_refines [of cdc d c ?b "[]" "(l, w')" cmds] rep NewLog_at_end [OF nl rep] run by auto
  then show ?thesis
    using Persist_unread [OF r(2) assms(5), of k] log_at_end_unread [OF r(3)] nl run by fastforce
qed

theorem snapshot_of_running_log_empty_witness:
  "\<exists>l w l2 w2 readers l3. NewLog ''log'' demo_config demo_disk = (Inr l, w) \<and>
     run_cmds (exec_cmd demo_codec) [CAppend (demo_record 1), CRead 0] (l, w) =
       ([ROffset 0, RRecord (demo_record 1\<lparr>r_offset := 0\<rparr>)], (l2, w2)) \<and>
     fsm_Snapshot (l2, w2) = (Inr readers, (l2, w2)) \<and>
     snapshot_Persist mem_sink readers ([], l2, w2) = (Inr (), ([], l3, w2))"
  using snapshot_of_running_log_empty [OF demo_config_ok demo_disk_ok demo_codec_ok mem_sink_ok,
      of "[CAppend (demo_record 1), CRead 0]" "[]"] demo_marshals
  by (simp add: demo_config_def)

end
