(* ===== verification/RaftStore.thy ===== *)
theory RaftStore
  imports Prelude
begin

text \<open>
  The contract of \<open>raft.LogStore\<close>, which the \<open>raft\<close> package asks of its log: both
  \<open>internal/log/distributed/store.go\<close> and \<open>internal/raftpebble/store.go\<close> provide it.
\<close>

text \<open>The entries of \<open>raft.Log\<close>; the time \<open>AppendedAt\<close> is given by its nanoseconds.\<close>

record raft_log =
  rl_index :: u64
  rl_term :: u64
  rl_type :: byte
  rl_data :: bytes
  rl_extensions :: bytes
  rl_appendedAt :: u64

text \<open>
  \<open>view\<close> is the entry that \<open>GetLog\<close> gives at each index, \<open>storable\<close> says that a batch of entries
  may be stored in this state, \<open>add\<close> is the state after it, and \<open>kept\<close> is what the store keeps of
  an entry.
\<close>

locale raft_store =
  fixes rep :: "'a \<Rightarrow> 's \<Rightarrow> bool"
    and view :: "'a \<Rightarrow> u64 \<Rightarrow> raft_log option"
    and storable :: "'a \<Rightarrow> raft_log list \<Rightarrow> bool"
    and add :: "'a \<Rightarrow> raft_log list \<Rightarrow> 'a"
    and kept :: "raft_log \<Rightarrow> raft_log"
    and get_log :: "u64 \<Rightarrow> ('s, raft_log) prog"
    and store_logs :: "raft_log list \<Rightarrow> ('s, unit) prog"
  assumes get_found: "rep a s \<Longrightarrow> view a i = Some lg \<Longrightarrow> \<exists>t. get_log i s = (Inr lg, t) \<and> rep a t"
    and get_absent: "rep a s \<Longrightarrow> view a i = None \<Longrightarrow> \<exists>e t. get_log i s = (Inl (Error e), t) \<and> rep a t"
    and store_law: "rep a s \<Longrightarrow> storable a lgs \<Longrightarrow> \<exists>t. store_logs lgs s = (Inr (), t) \<and> rep (add a lgs) t"
    and view_add: "storable a lgs \<Longrightarrow>
      view (add a lgs) = fold (\<lambda>lg m. m(rl_index lg \<mapsto> kept lg)) lgs (view a)"
begin

lemma get_iff: "rep a s \<Longrightarrow> (\<exists>t. get_log i s = (Inr lg, t)) \<longleftrightarrow> view a i = Some lg"
  using get_found [of a s i] get_absent [of a s i] by (cases "view a i") fastforce+

lemma fold_view_other:
  "i \<notin> rl_index ` set lgs \<Longrightarrow> fold (\<lambda>lg m. m(rl_index lg \<mapsto> kept lg)) lgs m i = m i"
  by (induction lgs arbitrary: m) auto

lemma fold_view_mem:
  "distinct (map rl_index lgs) \<Longrightarrow> lg \<in> set lgs \<Longrightarrow>
     fold (\<lambda>lg m. m(rl_index lg \<mapsto> kept lg)) lgs m (rl_index lg) = Some (kept lg)"
  by (induction lgs arbitrary: m) (auto simp: fold_view_other)

text \<open>What is kept of every entry of a stored batch is found at its index, and every other entry is as before.\<close>

lemma get_after_store:
  assumes "rep a s" and "storable a lgs" and "distinct (map rl_index lgs)"
  shows "\<exists>t. store_logs lgs s = (Inr (), t) \<and>
    rep (add a lgs) t \<and>
    (\<forall>lg \<in> set lgs. \<exists>u. get_log (rl_index lg) t = (Inr (kept lg), u)) \<and>
    (\<forall>i lg. i \<notin> rl_index ` set lgs \<longrightarrow> view a i = Some lg \<longrightarrow> (\<exists>u. get_log i t = (Inr lg, u)))"
proof -
  obtain t where t: "store_logs lgs s = (Inr (), t)" "rep (add a lgs) t"
    using store_law [OF assms(1,2)] by blast
  have "\<exists>u. get_log (rl_index lg) t = (Inr (kept lg), u)" if "lg \<in> set lgs" for lg
  proof -
    have "view (add a lgs) (rl_index lg) = Some (kept lg)"
      using fold_view_mem [OF assms(3) that] by (simp add: view_add [OF assms(2)])
    from get_found [OF t(2) this] show ?thesis by blast
  qed
  moreover have "\<exists>u. get_log i t = (Inr lg, u)" if "i \<notin> rl_index ` set lgs" "view a i = Some lg" for i lg
  proof -
    have "view (add a lgs) i = Some lg"
      using fold_view_other [OF that(1)] that(2) by (simp add: view_add [OF assms(2)])
    from get_found [OF t(2) this] show ?thesis by blast
  qed
  ultimately show ?thesis
    using t by blast
qed

end

end
