(* ===== verification/KeyOrder.thy ===== *)
theory KeyOrder
  imports Encoding "HOL-Library.List_Lexorder"
begin

text \<open>
  The order of the keys in \<open>internal/raftpebble\<close>: a key-value store orders its keys byte by byte,
  and on big-endian encodings that is the numeric order.
\<close>

fun be_val :: "bytes \<Rightarrow> nat" where
  "be_val [] = 0"
| "be_val (x # xs) = unat x * 256 ^ length xs + be_val xs"

lemma unat_byte_less: "unat (x :: byte) < 256"
  using unsigned_less [where 'a = nat, of x] by simp

lemma be_val_less: "be_val xs < 256 ^ length xs"
proof (induction xs)
  case (Cons x xs)
  have "be_val (x # xs) < (unat x + 1) * 256 ^ length xs"
    using Cons by simp
  also have "\<dots> \<le> 256 * 256 ^ length xs"
    using unat_byte_less [of x] by (intro mult_right_mono) simp_all
  finally show ?case by simp
qed simp

lemma digit_less: "x < y \<Longrightarrow> v < B \<Longrightarrow> x * B + v < y * B + (w :: nat)"
proof -
  assume "x < y" "v < B"
  have "x * B + v < (x + 1) * B"
    using \<open>v < B\<close> by simp
  also have "\<dots> \<le> y * B"
    using \<open>x < y\<close> by (intro mult_right_mono) simp_all
  finally show ?thesis by simp
qed

lemma be_val_order: "length xs = length ys \<Longrightarrow> xs < ys \<longleftrightarrow> be_val xs < be_val ys"
proof (induction xs ys rule: list_induct2)
  case (Cons x xs y ys)
  consider "x < y" | "x = y" | "y < x" by (rule linorder_cases)
  then show ?case
  proof cases
    case 1
    then show ?thesis
      using digit_less [of "unat x" "unat y" "be_val xs" "256 ^ length ys" "be_val ys"] be_val_less [of xs] Cons.hyps
      by (simp add: word_less_nat_alt)
  next
    case 2
    then show ?thesis
      using Cons by simp
  next
    case 3
    then have "\<not> x < y" "x \<noteq> y"
      by auto
    then show ?thesis
      using 3 digit_less [of "unat y" "unat x" "be_val ys" "256 ^ length ys" "be_val xs"] be_val_less [of ys] Cons.hyps
      by (simp add: word_less_nat_alt)
  qed
qed simp

lemma unat_byte_of: "unat (ucast (drop_bit k v) :: byte) = unat v div 2 ^ k mod 256"
  by (simp add: unsigned_ucast_eq unsigned_drop_bit_eq take_bit_eq_mod flip: drop_bit_eq_div)

lemma be_val_snoc: "be_val (xs @ [x]) = be_val xs * 256 + unat x"
  by (induction xs) (simp_all add: algebra_simps)

lemma be_val_put_uint64: "be_val (put_uint64 v) = unat v"
proof -
  have step: "be_val (xs @ [ucast (drop_bit k v)]) = unat v div 2 ^ k" if "be_val xs = unat v div 2 ^ (k + 8)" for xs k
    using that by (simp add: be_val_snoc unat_byte_of power_add div_mult2_eq)
  let ?c = "\<lambda>k. ucast (drop_bit k v) :: byte"
  have "be_val [] = unat v div 2 ^ (56 + 8)"
    using unsigned_less [where 'a = nat, of v] by simp
  then have "be_val [?c 56] = unat v div 2 ^ (48 + 8)"
    using step [of "[]" 56] by simp
  then have "be_val [?c 56, ?c 48] = unat v div 2 ^ (40 + 8)"
    using step [of "[?c 56]" 48] by simp
  then have "be_val [?c 56, ?c 48, ?c 40] = unat v div 2 ^ (32 + 8)"
    using step [of "[?c 56, ?c 48]" 40] by simp
  then have "be_val [?c 56, ?c 48, ?c 40, ?c 32] = unat v div 2 ^ (24 + 8)"
    using step [of "[?c 56, ?c 48, ?c 40]" 32] by simp
  then have "be_val [?c 56, ?c 48, ?c 40, ?c 32, ?c 24] = unat v div 2 ^ (16 + 8)"
    using step [of "[?c 56, ?c 48, ?c 40, ?c 32]" 24] by simp
  then have "be_val [?c 56, ?c 48, ?c 40, ?c 32, ?c 24, ?c 16] = unat v div 2 ^ (8 + 8)"
    using step [of "[?c 56, ?c 48, ?c 40, ?c 32, ?c 24]" 16] by simp
  then have "be_val [?c 56, ?c 48, ?c 40, ?c 32, ?c 24, ?c 16, ?c 8] = unat v div 2 ^ (0 + 8)"
    using step [of "[?c 56, ?c 48, ?c 40, ?c 32, ?c 24, ?c 16]" 8] by simp
  from step [OF this] show ?thesis
    by (simp add: put_uint64_def)
qed

lemma put_uint64_less [simp]: "put_uint64 a < put_uint64 b \<longleftrightarrow> a < b"
  by (simp add: be_val_order be_val_put_uint64 word_less_nat_alt)

lemma put_uint64_le [simp]: "put_uint64 a \<le> put_uint64 b \<longleftrightarrow> a \<le> b"
  by (simp add: order.order_iff_strict [of "put_uint64 a"] order.order_iff_strict [of a])

end
