(* ===== verification/Pebble.thy ===== *)
theory Pebble
  imports RaftStore KeyOrder "HOL-Library.AList"
begin

text \<open>
  The operations of the stable store, \<open>internal/raftpebble/store.go\<close> and \<open>util.go\<close>: a log store
  and a key-value store of \<open>raft\<close> in one \<open>pebble\<close> database, kept apart by a prefix byte.
\<close>

section \<open>The pebble and msgpack packages\<close>

text \<open>
  \<open>db.Get\<close> returns a value, a closer and an error. The value is valid until the closer is called;
  \<open>pg_after\<close> is what its bytes are from then on. \<open>pg_closer\<close> is no closer or what it returns.
\<close>

record pget =
  pg_val :: "bytes option"
  pg_after :: bytes
  pg_closer :: "goerr option option"
  pg_err :: "goerr option"

text \<open>An iterator: the key that it is at after \<open>First\<close> and after \<open>Last\<close>, and its \<open>Close\<close>.\<close>

record piter =
  it_First :: "bytes option"
  it_Last :: "bytes option"
  it_Close :: "goerr option"

record ('d, 'b) pebble =
  pb_Get :: "'d \<Rightarrow> bytes \<Rightarrow> pget"
  pb_NewIter :: "'d \<Rightarrow> bytes \<Rightarrow> bytes \<Rightarrow> goerr + piter"
  pb_Set :: "bytes \<Rightarrow> bytes \<Rightarrow> bool \<Rightarrow> ('d, unit) prog"
  pb_DeleteRange :: "bytes \<Rightarrow> bytes \<Rightarrow> bool \<Rightarrow> ('d, unit) prog"
  pb_NewBatch :: 'b
  pb_BatchSet :: "bytes \<Rightarrow> bytes \<Rightarrow> 'b \<Rightarrow> goerr + 'b"
  pb_BatchClose :: "'b \<Rightarrow> goerr option"
  pb_Apply :: "'b \<Rightarrow> bool \<Rightarrow> ('d, unit) prog"

text \<open>The encoder and the decoder, which decodes into a given entry.\<close>

record msgpack =
  encodeMsgPack :: "raft_log \<Rightarrow> goerr + bytes"
  decodeMsgPack :: "bytes \<Rightarrow> raft_log \<Rightarrow> goerr + raft_log"

section \<open>Helpers\<close>

definition prefixLog :: bytes where
  "prefixLog = [0]"

definition prefixConf :: bytes where
  "prefixConf = [1]"

definition ErrKeyNotFound :: goerr where
  "ErrKeyNotFound = ErrMsg ''not found''"

definition pebble_ErrNotFound :: goerr where
  "pebble_ErrNotFound = ErrMsg ''pebble: not found''"

definition ErrLogNotFound :: goerr where
  "ErrLogNotFound = ErrMsg ''log not found''"

definition bytesToUint64 :: "bytes \<Rightarrow> u64 res" where
  "bytesToUint64 b = (if length b < 8 then Inl (Panic IndexOutOfRange) else Inr (get_uint64 b))"

definition uint64ToBytes :: "u64 \<Rightarrow> bytes" where
  "uint64ToBytes u = put_uint64 u"

definition FirstError :: "goerr option \<Rightarrow> goerr option \<Rightarrow> goerr option" where
  "FirstError err1 err2 = (if err1 \<noteq> None then err1 else err2)"

text \<open>\<open>defer func() { err = FirstError(err, close) }()\<close>: what a method returns after its deferred close.\<close>

definition deferred :: "goerr option \<Rightarrow> 'a res \<Rightarrow> 'a res" where
  "deferred close r = (case r of
       Inl (Panic p) \<Rightarrow> Inl (Panic p)
     | Inl (Error e) \<Rightarrow> Inl (Error (case FirstError (Some e) close of Some e' \<Rightarrow> e' | None \<Rightarrow> e))
     | Inr x \<Rightarrow> (case FirstError None close of Some e \<Rightarrow> Inl (Error e) | None \<Rightarrow> Inr x))"

definition close_value :: "pget \<Rightarrow> 'a res \<Rightarrow> 'a res" where
  "close_value g r = (case pg_closer g of None \<Rightarrow> r | Some c \<Rightarrow> deferred c r)"

section \<open>The log store\<close>

definition log_key :: "u64 \<Rightarrow> bytes" where
  "log_key i = prefixLog @ uint64ToBytes i"

definition kv_FirstIndex :: "('d, 'b) pebble \<Rightarrow> ('d, u64) prog" where
  "kv_FirstIndex pb = (\<lambda>d. (case pb_NewIter pb d prefixLog prefixConf of
       Inl e \<Rightarrow> Inl (Error e)
     | Inr iter \<Rightarrow> deferred (it_Close iter) (case it_First iter of
           None \<Rightarrow> Inr 0
         | Some key \<Rightarrow> bytesToUint64 (drop (length prefixLog) key)), d))"

definition kv_LastIndex :: "('d, 'b) pebble \<Rightarrow> ('d, u64) prog" where
  "kv_LastIndex pb = (\<lambda>d. (case pb_NewIter pb d prefixLog prefixConf of
       Inl e \<Rightarrow> Inl (Error e)
     | Inr iter \<Rightarrow> deferred (it_Close iter) (case it_Last iter of
           None \<Rightarrow> Inr 0
         | Some key \<Rightarrow> bytesToUint64 (drop (length prefixLog) key)), d))"

definition kv_GetLog :: "('d, 'b) pebble \<Rightarrow> msgpack \<Rightarrow> u64 \<Rightarrow> raft_log \<Rightarrow> ('d, raft_log) prog" where
  "kv_GetLog pb mp index out = (\<lambda>d. let g = pb_Get pb d (log_key index) in
     (close_value g
        (if pg_err g \<noteq> None \<and> pg_err g \<noteq> Some pebble_ErrNotFound then Inl (Error (the (pg_err g)))
         else (case pg_val g of
             None \<Rightarrow> Inl (Error ErrLogNotFound)
           | Some val \<Rightarrow> (case decodeMsgPack mp val out of Inl e \<Rightarrow> Inl (Error e) | Inr lg \<Rightarrow> Inr lg))), d))"

definition kv_storeLog :: "('d, 'b) pebble \<Rightarrow> msgpack \<Rightarrow> raft_log \<Rightarrow> ('d, unit) prog" where
  "kv_storeLog pb mp lg = (case encodeMsgPack mp lg of
       Inl e \<Rightarrow> fail (Error e)
     | Inr val \<Rightarrow> pb_Set pb (log_key (rl_index lg)) val False)"

definition kv_StoreLog :: "('d, 'b) pebble \<Rightarrow> msgpack \<Rightarrow> raft_log \<Rightarrow> ('d, unit) prog" where
  "kv_StoreLog pb mp lg = kv_storeLog pb mp lg"

text \<open>The loop of \<open>StoreLogs\<close> over the batch; the batch is returned also when it stops early.\<close>

fun batch_logs :: "('d, 'b) pebble \<Rightarrow> msgpack \<Rightarrow> raft_log list \<Rightarrow> 'b \<Rightarrow> goerr option \<times> 'b" where
  "batch_logs pb mp [] wb = (None, wb)"
| "batch_logs pb mp (lg # lgs) wb = (case encodeMsgPack mp lg of
       Inl e \<Rightarrow> (Some e, wb)
     | Inr val \<Rightarrow> (case pb_BatchSet pb (log_key (rl_index lg)) val wb of
           Inl e \<Rightarrow> (Some e, wb)
         | Inr wb' \<Rightarrow> batch_logs pb mp lgs wb'))"

definition kv_StoreLogs :: "('d, 'b) pebble \<Rightarrow> msgpack \<Rightarrow> raft_log list \<Rightarrow> ('d, unit) prog" where
  "kv_StoreLogs pb mp lgs = (\<lambda>d. case batch_logs pb mp lgs (pb_NewBatch pb) of
       (Some e, wb) \<Rightarrow> (deferred (pb_BatchClose pb wb) (Inl (Error e)), d)
     | (None, wb) \<Rightarrow> (case pb_Apply pb wb False d of (r, d') \<Rightarrow> (deferred (pb_BatchClose pb wb) r, d')))"

definition kv_DeleteRange :: "('d, 'b) pebble \<Rightarrow> u64 \<Rightarrow> u64 \<Rightarrow> ('d, unit) prog" where
  "kv_DeleteRange pb lo hi = pb_DeleteRange pb (log_key lo) (log_key (hi + 1)) False"

section \<open>The key-value store\<close>

definition kv_Set :: "('d, 'b) pebble \<Rightarrow> bytes \<Rightarrow> bytes \<Rightarrow> ('d, unit) prog" where
  "kv_Set pb key val = pb_Set pb (prefixConf @ key) val False"

text \<open>
  \<open>GetValue\<close> hands the value to its argument and closes it afterwards. The argument returns what
  the caller has kept of it: a number, or the slice itself, whose bytes are then \<open>pg_after\<close>.
\<close>

definition kv_GetValue :: "('d, 'b) pebble \<Rightarrow> bytes \<Rightarrow> (bytes option \<Rightarrow> 'a res) \<Rightarrow> ('d, 'a) prog" where
  "kv_GetValue pb key oper = (\<lambda>d. let g = pb_Get pb d key in
     (if pg_err g \<noteq> None \<and> pg_err g \<noteq> Some pebble_ErrNotFound then Inl (Error (the (pg_err g)))
      else close_value g (oper (pg_val g)), d))"

definition kv_Get :: "('d, 'b) pebble \<Rightarrow> bytes \<Rightarrow> ('d, bytes) prog" where
  "kv_Get pb key = bnd (kv_GetValue pb (prefixConf @ key)
       (\<lambda>val. case val of None \<Rightarrow> Inl (Error ErrKeyNotFound) | Some v \<Rightarrow> Inr ()))
     (\<lambda>_. \<lambda>d. (Inr (pg_after (pb_Get pb d (prefixConf @ key))), d))"

definition kv_SetUint64 :: "('d, 'b) pebble \<Rightarrow> bytes \<Rightarrow> u64 \<Rightarrow> ('d, unit) prog" where
  "kv_SetUint64 pb key val = kv_Set pb key (uint64ToBytes val)"

definition kv_GetUint64 :: "('d, 'b) pebble \<Rightarrow> bytes \<Rightarrow> ('d, u64) prog" where
  "kv_GetUint64 pb key = kv_GetValue pb (prefixConf @ key)
     (\<lambda>val. case val of None \<Rightarrow> Inl (Error ErrKeyNotFound) | Some v \<Rightarrow> bytesToUint64 v)"

section \<open>The documented behaviour of the packages\<close>

text \<open>
  \<open>content\<close> is what an open database holds, in the order of the bytes of its keys, and \<open>ops\<close> is
  what a batch has recorded. A key that is absent gives \<open>ErrNotFound\<close>, an iterator with bounds
  ranges over the keys from the lower bound to below the upper bound, and \<open>DeleteRange\<close> deletes
  the keys of such a range. Nothing is said of \<open>pg_after\<close>.
\<close>

definition in_range :: "bytes \<Rightarrow> bytes \<Rightarrow> bytes \<Rightarrow> bool" where
  "in_range lo hi k \<longleftrightarrow> lo \<le> k \<and> k < hi"

definition get_ok :: "(bytes \<rightharpoonup> bytes) \<Rightarrow> bytes \<Rightarrow> pget \<Rightarrow> bool" where
  "get_ok m k g \<longleftrightarrow>
     (m k = None \<longrightarrow> pg_val g = None \<and> pg_err g = Some pebble_ErrNotFound \<and> pg_closer g = None) \<and>
     (\<forall>v. m k = Some v \<longrightarrow> v \<noteq> [] \<longrightarrow> pg_val g = Some v \<and> pg_err g = None \<and> pg_closer g = Some None)"

definition iter_ok :: "(bytes \<rightharpoonup> bytes) \<Rightarrow> bytes \<Rightarrow> bytes \<Rightarrow> piter \<Rightarrow> bool" where
  "iter_ok m lo hi it \<longleftrightarrow> it_Close it = None \<and> (let ks = {k \<in> dom m. in_range lo hi k} in
     it_First it = (if ks = {} then None else Some (Min ks)) \<and>
     it_Last it = (if ks = {} then None else Some (Max ks)))"

definition pebble_ok ::
  "('d, 'b) pebble \<Rightarrow> ('d \<Rightarrow> (bytes \<rightharpoonup> bytes) option) \<Rightarrow> ('b \<Rightarrow> (bytes \<times> bytes) list) \<Rightarrow> bool" where
  "pebble_ok pb content ops \<longleftrightarrow>
     (\<forall>d m. content d = Some m \<longrightarrow>
        finite (dom m) \<and>
        (\<forall>k. get_ok m k (pb_Get pb d k)) \<and>
        (\<forall>lo hi. \<exists>it. pb_NewIter pb d lo hi = Inr it \<and> iter_ok m lo hi it) \<and>
        (\<forall>k v sync. \<exists>d'. pb_Set pb k v sync d = (Inr (), d') \<and> content d' = Some (m(k \<mapsto> v))) \<and>
        (\<forall>lo hi sync. \<exists>d'. pb_DeleteRange pb lo hi sync d = (Inr (), d') \<and>
           content d' = Some (m |` {k. \<not> in_range lo hi k})) \<and>
        (\<forall>wb sync. \<exists>d'. pb_Apply pb wb sync d = (Inr (), d') \<and>
           content d' = Some (fold (\<lambda>(k, v) m. m(k \<mapsto> v)) (ops wb) m))) \<and>
     ops (pb_NewBatch pb) = [] \<and>
     (\<forall>wb k v. \<exists>wb'. pb_BatchSet pb k v wb = Inr wb' \<and> ops wb' = ops wb @ [(k, v)]) \<and>
     (\<forall>wb. pb_BatchClose pb wb = None)"

definition msgpack_ok :: "msgpack \<Rightarrow> bool" where
  "msgpack_ok mp \<longleftrightarrow> (\<forall>lg v out. encodeMsgPack mp lg = Inr v \<longrightarrow> v \<noteq> [] \<and> decodeMsgPack mp v out = Inr lg)"

section \<open>What the store holds\<close>

definition log_at :: "msgpack \<Rightarrow> u64 \<Rightarrow> bytes option \<Rightarrow> raft_log option \<Rightarrow> bool" where
  "log_at mp i val l \<longleftrightarrow> (case l of
       None \<Rightarrow> val = None
     | Some lg \<Rightarrow> rl_index lg = i \<and> (\<exists>v. val = Some v \<and> encodeMsgPack mp lg = Inr v))"

definition kv_map :: "msgpack \<Rightarrow> (bytes \<rightharpoonup> bytes) \<Rightarrow> (u64 \<rightharpoonup> raft_log) \<Rightarrow> (bytes \<rightharpoonup> bytes) \<Rightarrow> bool" where
  "kv_map mp m logs conf \<longleftrightarrow>
     (\<forall>i. log_at mp i (m (log_key i)) (logs i)) \<and>
     (\<forall>k. m (prefixConf @ k) = conf k) \<and>
     dom m \<subseteq> range log_key \<union> range ((@) prefixConf)"

definition kv_rep :: "('d, 'b) pebble \<Rightarrow> ('d \<Rightarrow> (bytes \<rightharpoonup> bytes) option) \<Rightarrow> ('b \<Rightarrow> (bytes \<times> bytes) list) \<Rightarrow> msgpack \<Rightarrow>
    (u64 \<rightharpoonup> raft_log) \<times> (bytes \<rightharpoonup> bytes) \<Rightarrow> 'd \<Rightarrow> bool" where
  "kv_rep pb content ops mp a d \<longleftrightarrow> pebble_ok pb content ops \<and> msgpack_ok mp \<and>
     (\<exists>m. content d = Some m \<and> kv_map mp m (fst a) (snd a))"

subsection \<open>Keys\<close>

lemma log_key_inject [simp]: "log_key i = log_key j \<longleftrightarrow> i = j"
  by (simp add: log_key_def uint64ToBytes_def)

lemma log_key_conf [simp]: "log_key i \<noteq> prefixConf @ k" "prefixConf @ k \<noteq> log_key i"
  by (simp_all add: log_key_def prefixLog_def prefixConf_def)

lemma log_key_order: "log_key i < log_key j \<longleftrightarrow> i < j" "log_key i \<le> log_key j \<longleftrightarrow> i \<le> j"
  by (simp_all add: log_key_def prefixLog_def uint64ToBytes_def)

lemma log_key_between: "in_range prefixLog prefixConf (log_key i)"
  by (simp add: in_range_def log_key_def prefixLog_def prefixConf_def)

lemma conf_not_between: "\<not> in_range prefixLog prefixConf (prefixConf @ k)" "\<not> in_range (log_key i) (log_key j) (prefixConf @ k)"
  by (simp_all add: in_range_def log_key_def prefixLog_def prefixConf_def)

lemma index_of_log_key: "bytesToUint64 (drop (length prefixLog) (log_key i)) = Inr i"
  by (simp add: log_key_def prefixLog_def bytesToUint64_def uint64ToBytes_def)

subsection \<open>Updates\<close>

lemma kv_map_log:
  assumes "kv_map mp m logs conf" and "encodeMsgPack mp lg = Inr v"
  shows "kv_map mp (m(log_key (rl_index lg) \<mapsto> v)) (logs(rl_index lg \<mapsto> lg)) conf"
  using assms by (auto simp: kv_map_def log_at_def [of _ _ "Some _"])

lemma kv_map_conf:
  assumes "kv_map mp m logs conf"
  shows "kv_map mp (m(prefixConf @ k \<mapsto> v)) logs (conf(k \<mapsto> v))"
  using assms by (auto simp: kv_map_def)

lemma kv_map_delete:
  assumes "kv_map mp m logs conf"
  shows "kv_map mp (m |` {k. \<not> in_range (log_key lo) (log_key hi) k}) (logs |` {i. \<not> (lo \<le> i \<and> i < hi)}) conf"
  unfolding kv_map_def
proof (intro conjI)
  show "dom (m |` {k. \<not> in_range (log_key lo) (log_key hi) k}) \<subseteq> range log_key \<union> range ((@) prefixConf)"
    using assms by (auto simp: kv_map_def)
qed (use assms in \<open>auto simp: kv_map_def restrict_map_def in_range_def log_key_order
    conf_not_between(2) [unfolded in_range_def] log_at_def [of _ _ None None]\<close>)

lemma kv_map_keys:
  assumes "kv_map mp m logs conf"
  shows "{k \<in> dom m. in_range prefixLog prefixConf k} = log_key ` dom logs"
proof -
  have "log_key i \<in> dom m \<longleftrightarrow> i \<in> dom logs" for i
    using assms by (auto simp: kv_map_def log_at_def split: option.splits dest!: spec [of _ i])
  moreover have "k \<in> dom m \<Longrightarrow> in_range prefixLog prefixConf k \<Longrightarrow> k \<in> range log_key" for k
    using assms conf_not_between(1) by (auto simp: kv_map_def)
  ultimately show ?thesis
    using log_key_between by blast
qed

subsection \<open>The operations\<close>

lemma pebble_okD:
  assumes "pebble_ok pb content ops" and "content d = Some m"
  shows "finite (dom m)" "get_ok m k (pb_Get pb d k)"
    "\<exists>it. pb_NewIter pb d lo hi = Inr it \<and> iter_ok m lo hi it"
    "\<exists>d'. pb_Set pb k v sync d = (Inr (), d') \<and> content d' = Some (m(k \<mapsto> v))"
    "\<exists>d'. pb_DeleteRange pb lo hi sync d = (Inr (), d') \<and> content d' = Some (m |` {k. \<not> in_range lo hi k})"
    "\<exists>d'. pb_Apply pb wb sync d = (Inr (), d') \<and> content d' = Some (fold (\<lambda>(k, v) m. m(k \<mapsto> v)) (ops wb) m)"
  using assms unfolding pebble_ok_def by blast+

lemma deferred_None [simp]: "deferred None r = r"
  by (auto simp: deferred_def FirstError_def split: sum.splits failure.splits)

lemma kv_GetLog_rep:
  assumes "kv_rep pb content ops mp a d"
  shows "kv_GetLog pb mp i out d =
    ((case fst a i of None \<Rightarrow> Inl (Error ErrLogNotFound) | Some lg \<Rightarrow> Inr lg), d)"
proof -
  obtain m where m: "content d = Some m" "log_at mp i (m (log_key i)) (fst a i)" "pebble_ok pb content ops" "msgpack_ok mp"
    using assms by (auto simp: kv_rep_def kv_map_def)
  have "get_ok m (log_key i) (pb_Get pb d (log_key i))"
    by (rule pebble_okD [OF m(3,1)])
  then show ?thesis
    using m(2,4) by (auto simp: kv_GetLog_def get_ok_def log_at_def msgpack_ok_def close_value_def Let_def split: option.splits)
qed

lemma batch_logs_ok:
  assumes "pebble_ok pb content ops" and "\<forall>lg \<in> set lgs. \<exists>v. encodeMsgPack mp lg = Inr v" and "kv_map mp m logs conf"
    and "m = fold (\<lambda>(k, v) m. m(k \<mapsto> v)) (ops wb) m0"
  shows "\<exists>wb'. batch_logs pb mp lgs wb = (None, wb') \<and>
    kv_map mp (fold (\<lambda>(k, v) m. m(k \<mapsto> v)) (ops wb') m0) (fold (\<lambda>lg l. l(rl_index lg \<mapsto> lg)) lgs logs) conf"
  using assms(2-)
proof (induction lgs arbitrary: wb m logs)
  case (Cons lg lgs)
  obtain v where v: "encodeMsgPack mp lg = Inr v"
    using Cons.prems(1) by auto
  obtain wb1 where wb1: "pb_BatchSet pb (log_key (rl_index lg)) v wb = Inr wb1" "ops wb1 = ops wb @ [(log_key (rl_index lg), v)]"
    using assms(1) unfolding pebble_ok_def by blast
  show ?case
    using Cons.IH [OF _ kv_map_log [OF Cons.prems(2) v], of wb1] Cons.prems(1,3) by (simp add: v wb1)
qed auto

lemma kv_StoreLogs_rep:
  assumes "kv_rep pb content ops mp a d" and "\<forall>lg \<in> set lgs. \<exists>v. encodeMsgPack mp lg = Inr v"
  shows "\<exists>d'. kv_StoreLogs pb mp lgs d = (Inr (), d') \<and>
    kv_rep pb content ops mp (fold (\<lambda>lg l. l(rl_index lg \<mapsto> lg)) lgs (fst a), snd a) d'"
proof -
  obtain m where m: "content d = Some m" "kv_map mp m (fst a) (snd a)" "pebble_ok pb content ops" "msgpack_ok mp"
    using assms(1) by (auto simp: kv_rep_def)
  have new: "ops (pb_NewBatch pb) = []" and close: "pb_BatchClose pb wb = None" for wb
    using m(3) by (simp_all add: pebble_ok_def)
  obtain wb where wb: "batch_logs pb mp lgs (pb_NewBatch pb) = (None, wb)"
      "kv_map mp (fold (\<lambda>(k, v) m. m(k \<mapsto> v)) (ops wb) m) (fold (\<lambda>lg l. l(rl_index lg \<mapsto> lg)) lgs (fst a)) (snd a)"
    using batch_logs_ok [OF m(3) assms(2) m(2), of "pb_NewBatch pb" m] by (auto simp: new)
  obtain d' where "pb_Apply pb wb False d = (Inr (), d')" "content d' = Some (fold (\<lambda>(k, v) m. m(k \<mapsto> v)) (ops wb) m)"
    using pebble_okD(6) [OF m(3,1)] by blast
  then show ?thesis
    using wb m(3,4) by (auto simp: kv_StoreLogs_def kv_rep_def close)
qed

interpretation kv_store: raft_store "kv_rep pb content ops mp" fst
    "\<lambda>_ lgs. \<forall>lg \<in> set lgs. \<exists>v. encodeMsgPack mp lg = Inr v"
    "\<lambda>a lgs. (fold (\<lambda>lg l. l(rl_index lg \<mapsto> lg)) lgs (fst a), snd a)"
    "\<lambda>lg. lg" "\<lambda>i. kv_GetLog pb mp i out" "kv_StoreLogs pb mp"
  for pb content ops mp out
  by unfold_locales (auto simp: kv_GetLog_rep intro: kv_StoreLogs_rep)

lemma kv_Set_rep:
  assumes "kv_rep pb content ops mp a d"
  shows "\<exists>d'. kv_Set pb key val d = (Inr (), d') \<and> kv_rep pb content ops mp (fst a, (snd a)(key \<mapsto> val)) d'"
proof -
  obtain m where m: "content d = Some m" "kv_map mp m (fst a) (snd a)" "pebble_ok pb content ops" "msgpack_ok mp"
    using assms(1) by (auto simp: kv_rep_def)
  show ?thesis
    using pebble_okD(4) [OF m(3,1), of "prefixConf @ key" val False] kv_map_conf [OF m(2)] m(3,4)
    by (auto simp: kv_Set_def kv_rep_def)
qed

lemma kv_GetUint64_rep:
  assumes "kv_rep pb content ops mp a d" and "snd a key \<noteq> Some []"
  shows "kv_GetUint64 pb key d =
    ((case snd a key of None \<Rightarrow> Inl (Error ErrKeyNotFound) | Some v \<Rightarrow> bytesToUint64 v), d)"
proof -
  obtain m where m: "content d = Some m" "m (prefixConf @ key) = snd a key" "pebble_ok pb content ops"
    using assms by (auto simp: kv_rep_def kv_map_def)
  have "get_ok m (prefixConf @ key) (pb_Get pb d (prefixConf @ key))"
    by (rule pebble_okD [OF m(3,1)])
  then show ?thesis
    using m(2) assms(2)
    by (auto simp: kv_GetUint64_def kv_GetValue_def get_ok_def close_value_def Let_def split: option.splits)
qed

lemma kv_DeleteRange_rep:
  assumes "kv_rep pb content ops mp a d"
  shows "\<exists>d'. kv_DeleteRange pb lo hi d = (Inr (), d') \<and>
    kv_rep pb content ops mp (fst a |` {i. \<not> (lo \<le> i \<and> i < hi + 1)}, snd a) d'"
proof -
  obtain m where m: "content d = Some m" "kv_map mp m (fst a) (snd a)" "pebble_ok pb content ops" "msgpack_ok mp"
    using assms(1) by (auto simp: kv_rep_def)
  show ?thesis
    using pebble_okD(5) [OF m(3,1), of "log_key lo" "log_key (hi + 1)" False] kv_map_delete [OF m(2), of lo "hi + 1"] m(3,4)
    by (auto simp: kv_DeleteRange_def kv_rep_def)
qed

lemma kv_rep_iter:
  assumes "kv_rep pb content ops mp a d"
  shows "\<exists>it. pb_NewIter pb d prefixLog prefixConf = Inr it \<and> it_Close it = None \<and>
    it_First it = (if dom (fst a) = {} then None else Some (log_key (Min (dom (fst a))))) \<and>
    it_Last it = (if dom (fst a) = {} then None else Some (log_key (Max (dom (fst a)))))"
proof -
  obtain m where m: "content d = Some m" "kv_map mp m (fst a) (snd a)" "pebble_ok pb content ops"
    using assms(1) by (auto simp: kv_rep_def)
  obtain it where it: "pb_NewIter pb d prefixLog prefixConf = Inr it" "iter_ok m prefixLog prefixConf it"
    using pebble_okD(3) [OF m(3,1)] by blast
  have "log_key ` dom (fst a) \<subseteq> dom m"
    unfolding kv_map_keys [OF m(2), symmetric] by blast
  then have fin: "finite (dom (fst a))"
    using inj_on_finite [of log_key _ "dom m"] pebble_okD(1) [OF m(3,1)] by (simp add: inj_on_def)
  have "mono log_key"
    by (simp add: mono_def log_key_order)
  then have "log_key (Min (dom (fst a))) = Min (log_key ` dom (fst a))" "log_key (Max (dom (fst a))) = Max (log_key ` dom (fst a))"
      if "dom (fst a) \<noteq> {}"
    using fin that by (simp_all add: mono_Min_commute mono_Max_commute)
  then show ?thesis
    using it by (auto simp: iter_ok_def kv_map_keys [OF m(2)] Let_def)
qed

section \<open>An instance of the packages\<close>

text \<open>
  A database that is an association list, with a given content of a value after its closer was
  called, and an encoding with the first field of an entry in the first eight bytes.
\<close>

definition alist_pebble :: "(bytes \<Rightarrow> bytes) \<Rightarrow> ((bytes \<times> bytes) list, (bytes \<times> bytes) list) pebble" where
  "alist_pebble after =
     \<lparr>pb_Get = (\<lambda>d k. case map_of d k of
          None \<Rightarrow> \<lparr>pg_val = None, pg_after = [], pg_closer = None, pg_err = Some pebble_ErrNotFound\<rparr>
        | Some v \<Rightarrow> \<lparr>pg_val = Some v, pg_after = after v, pg_closer = Some None, pg_err = None\<rparr>),
      pb_NewIter = (\<lambda>d lo hi. let ks = {k \<in> set (map fst d). in_range lo hi k} in
        Inr \<lparr>it_First = (if ks = {} then None else Some (Min ks)),
             it_Last = (if ks = {} then None else Some (Max ks)), it_Close = None\<rparr>),
      pb_Set = (\<lambda>k v _ d. (Inr (), AList.update k v d)),
      pb_DeleteRange = (\<lambda>lo hi _ d. (Inr (), AList.restrict {k. \<not> in_range lo hi k} d)),
      pb_NewBatch = [],
      pb_BatchSet = (\<lambda>k v wb. Inr (wb @ [(k, v)])),
      pb_BatchClose = (\<lambda>_. None),
      pb_Apply = (\<lambda>wb _ d. (Inr (), fold (\<lambda>(k, v). AList.update k v) wb d))\<rparr>"

lemma map_of_fold_update:
  "map_of (fold (\<lambda>(k, v). AList.update k v) wb d) = fold (\<lambda>(k, v) m. m(k \<mapsto> v)) wb (map_of d)"
  by (induction wb arbitrary: d) (auto simp: update_conv')

lemma alist_pebble_ok: "pebble_ok (alist_pebble after) (\<lambda>d. Some (map_of d)) (\<lambda>wb. wb)"
  by (auto simp: pebble_ok_def alist_pebble_def get_ok_def iter_ok_def Let_def update_conv' map_of_fold_update
      dom_map_of_conv_image_fst restr_conv' finite_dom_map_of split: option.split)

text \<open>A codec for entries: each byte of \<open>Extensions\<close> follows a one, and the data follow a zero.\<close>

fun unmark :: "bytes \<Rightarrow> bytes \<times> bytes" where
  "unmark (t # b # bs) = (if t = 0 then ([], b # bs) else (case unmark bs of (xs, ys) \<Rightarrow> (b # xs, ys)))"
| "unmark _ = ([], [])"

definition mark :: "bytes \<Rightarrow> bytes \<Rightarrow> bytes" where
  "mark xs ys = concat (map (\<lambda>b. [1, b]) xs) @ 0 # ys"

lemma unmark_mark: "unmark (mark xs ys) = (xs, ys)"
  unfolding mark_def by (induction xs) (auto simp: neq_Nil_conv intro: list.exhaust [of ys])

definition demo_msgpack :: msgpack where
  "demo_msgpack =
     \<lparr>encodeMsgPack = (\<lambda>lg. Inr (put_uint64 (rl_index lg) @ put_uint64 (rl_term lg) @ put_uint64 (rl_appendedAt lg) @
        rl_type lg # mark (rl_extensions lg) (rl_data lg))),
      decodeMsgPack = (\<lambda>b _. if length b < 25 then Inl EOF
        else case unmark (drop 25 b) of (ext, data) \<Rightarrow>
          Inr \<lparr>rl_index = get_uint64 (take 8 b), rl_term = get_uint64 (take 8 (drop 8 b)), rl_type = b ! 24, rl_data = data,
            rl_extensions = ext, rl_appendedAt = get_uint64 (take 8 (drop 16 b))\<rparr>)\<rparr>"

lemma demo_msgpack_ok: "msgpack_ok demo_msgpack"
  by (auto simp: msgpack_ok_def demo_msgpack_def nth_append unmark_mark)

lemma demo_encodes: "\<exists>v. encodeMsgPack demo_msgpack lg = Inr v"
  by (simp add: demo_msgpack_def)

lemma demo_kv_rep:
  "kv_rep (alist_pebble after) (\<lambda>d. Some (map_of d)) (\<lambda>wb. wb) demo_msgpack (Map.empty, Map.empty) []"
  by (simp add: kv_rep_def alist_pebble_ok demo_msgpack_ok kv_map_def log_at_def)

definition kv_entry :: "u64 \<Rightarrow> raft_log" where
  "kv_entry i = \<lparr>rl_index = i, rl_term = 1, rl_type = 0, rl_data = [7], rl_extensions = [3], rl_appendedAt = 50\<rparr>"

section \<open>Properties\<close>

text \<open>
  C17: the stable store keeps the contract of a \<open>raft\<close> log. After \<open>StoreLogs\<close> every entry of the
  batch is returned by \<open>GetLog\<close> at its index, in any order of the batch, and every other entry is
  as it was; an index that holds nothing gives \<open>ErrLogNotFound\<close>.
\<close>

theorem kv_get_after_store:
  assumes "kv_rep pb content ops mp a d" and "\<forall>lg \<in> set lgs. \<exists>v. encodeMsgPack mp lg = Inr v"
    and "distinct (map rl_index lgs)"
  shows "\<exists>t. kv_StoreLogs pb mp lgs d = (Inr (), t) \<and>
    (\<forall>lg \<in> set lgs. \<exists>u. kv_GetLog pb mp (rl_index lg) out t = (Inr lg, u)) \<and>
    (\<forall>i lg. i \<notin> rl_index ` set lgs \<longrightarrow> fst a i = Some lg \<longrightarrow> (\<exists>u. kv_GetLog pb mp i out t = (Inr lg, u))) \<and>
    (\<forall>i. fst a i = None \<longrightarrow> kv_GetLog pb mp i out d = (Inl (Error ErrLogNotFound), d))"
  using kv_store.get_after_store [OF assms, of out] by (auto simp: kv_GetLog_rep [OF assms(1)])

theorem kv_get_after_store_witness:
  "\<exists>t. kv_StoreLogs (alist_pebble id) demo_msgpack [kv_entry 9, kv_entry 3] [] = (Inr (), t) \<and>
     (\<exists>u. kv_GetLog (alist_pebble id) demo_msgpack 3 (kv_entry 0) t = (Inr (kv_entry 3), u))"
  using kv_get_after_store [OF demo_kv_rep, of "[kv_entry 9, kv_entry 3]" id "kv_entry 0"] demo_encodes
  by (auto simp: kv_entry_def)

text \<open>
  C18: \<open>FirstIndex\<close> and \<open>LastIndex\<close> return the least and the greatest index of the stored
  entries, and zero when there is none: big-endian keys are ordered as their indexes, and the keys
  of the other store lie outside the bounds of the iterator.
\<close>

theorem kv_first_last:
  assumes "kv_rep pb content ops mp (logs, conf) d"
  shows "kv_FirstIndex pb d = (Inr (if dom logs = {} then 0 else Min (dom logs)), d) \<and>
    kv_LastIndex pb d = (Inr (if dom logs = {} then 0 else Max (dom logs)), d)"
  using kv_rep_iter [OF assms] by (auto simp: kv_FirstIndex_def kv_LastIndex_def index_of_log_key)

theorem kv_first_last_witness:
  "\<exists>t. kv_StoreLogs (alist_pebble id) demo_msgpack [kv_entry 9, kv_entry 256] [] = (Inr (), t) \<and>
     fst (kv_FirstIndex (alist_pebble id) t) = Inr 9 \<and> fst (kv_LastIndex (alist_pebble id) t) = Inr 256"
proof -
  obtain t where t: "kv_StoreLogs (alist_pebble id) demo_msgpack [kv_entry 9, kv_entry 256] [] = (Inr (), t)"
    "kv_rep (alist_pebble id) (\<lambda>d. Some (map_of d)) (\<lambda>wb. wb) demo_msgpack
       (Map.empty(9 \<mapsto> kv_entry 9, 256 \<mapsto> kv_entry 256), Map.empty) t"
    using kv_StoreLogs_rep [OF demo_kv_rep, of "[kv_entry 9, kv_entry 256]" id] demo_encodes
    by (auto simp: kv_entry_def)
  show ?thesis
    using kv_first_last [OF t(2)] t(1) by simp
qed

text \<open>
  C19: \<open>DeleteRange\<close> deletes exactly the entries from \<open>min\<close> to \<open>max\<close> and no key of the other
  store, with one exception: \<open>max + 1\<close> wraps around, so that a range that ends at the greatest
  index deletes nothing.
\<close>

theorem kv_delete_range:
  assumes "kv_rep pb content ops mp (logs, conf) d"
  shows "\<exists>t. kv_DeleteRange pb lo hi d = (Inr (), t) \<and>
    kv_rep pb content ops mp (\<lambda>i. if lo \<le> i \<and> i \<le> hi \<and> hi \<noteq> - 1 then None else logs i, conf) t"
proof -
  have bound: "i < hi + 1 \<longleftrightarrow> i \<le> hi \<and> hi \<noteq> - 1" for i
  proof (cases "hi = - 1")
    case False
    then have "unat (hi + 1) = unat hi + 1"
      by (simp add: unatSuc add.commute eq_neg_iff_add_eq_0)
    then show ?thesis
      using False by (auto simp: word_less_nat_alt word_le_nat_alt)
  qed simp
  have "logs |` {i. \<not> (lo \<le> i \<and> i < hi + 1)} = (\<lambda>i. if lo \<le> i \<and> i \<le> hi \<and> hi \<noteq> - 1 then None else logs i)"
    unfolding bound restrict_map_def by (rule ext) simp
  then show ?thesis
    using kv_DeleteRange_rep [OF assms, of lo hi] by simp
qed

theorem kv_delete_range_witness:
  "\<exists>s t. kv_StoreLogs (alist_pebble id) demo_msgpack [kv_entry 4, kv_entry (- 1)] [] = (Inr (), s) \<and>
     kv_DeleteRange (alist_pebble id) 4 (- 1) s = (Inr (), t) \<and>
     fst (kv_GetLog (alist_pebble id) demo_msgpack 4 (kv_entry 0) t) = Inr (kv_entry 4)"
proof -
  let ?logs = "Map.empty(4 \<mapsto> kv_entry 4, - 1 \<mapsto> kv_entry (- 1))"
  obtain s where s: "kv_StoreLogs (alist_pebble id) demo_msgpack [kv_entry 4, kv_entry (- 1)] [] = (Inr (), s)"
    "kv_rep (alist_pebble id) (\<lambda>d. Some (map_of d)) (\<lambda>wb. wb) demo_msgpack (?logs, Map.empty) s"
    using kv_StoreLogs_rep [OF demo_kv_rep, of "[kv_entry 4, kv_entry (- 1)]" id] demo_encodes
    by (auto simp: kv_entry_def)
  show ?thesis
    using kv_delete_range [OF s(2), of 4 "- 1"] s(1) by (auto simp: kv_GetLog_rep)
qed

text \<open>
  C20: a number that \<open>SetUint64\<close> stores is what \<open>GetUint64\<close> returns for its key, every other key
  and every entry of the log is as before, and a key that was never set gives
  \<open>ErrKeyNotFound\<close>, whose text \<open>raft\<close> looks for.
\<close>

theorem kv_uint64_roundtrip:
  assumes "kv_rep pb content ops mp (logs, conf) d"
  shows "\<exists>t. kv_SetUint64 pb key val d = (Inr (), t) \<and> kv_GetUint64 pb key t = (Inr val, t) \<and>
    kv_rep pb content ops mp (logs, conf(key \<mapsto> uint64ToBytes val)) t \<and>
    (\<forall>i. fst (kv_GetLog pb mp i out t) = fst (kv_GetLog pb mp i out d)) \<and>
    (conf key = None \<longrightarrow> kv_GetUint64 pb key d = (Inl (Error ErrKeyNotFound), d))"
proof -
  obtain t where t: "kv_SetUint64 pb key val d = (Inr (), t)"
      "kv_rep pb content ops mp (logs, conf(key \<mapsto> uint64ToBytes val)) t"
    using kv_Set_rep [OF assms, of key "uint64ToBytes val"] by (auto simp: kv_SetUint64_def)
  have "kv_GetUint64 pb key t = (Inr val, t)"
    using kv_GetUint64_rep [OF t(2)] by (simp add: uint64ToBytes_def bytesToUint64_def)
  then show ?thesis
    using t kv_GetUint64_rep [OF assms, of key] kv_GetLog_rep [OF assms] kv_GetLog_rep [OF t(2)] by auto
qed

theorem kv_uint64_roundtrip_witness:
  "\<exists>t. kv_SetUint64 (alist_pebble id) [107] 5 [] = (Inr (), t) \<and> kv_GetUint64 (alist_pebble id) [107] t = (Inr 5, t)"
  using kv_uint64_roundtrip [OF demo_kv_rep, of id "[107]" 5] by auto

text \<open>
  \<open>Get\<close> hands out a slice that \<open>pebble\<close> may have reused: it closes the value before it
  returns it. Whatever the bytes \<open>junk\<close>, there is a database with the documented behaviour in
  which \<open>Get\<close> returns them for a key that was just set to \<open>val\<close>.
\<close>

theorem kv_get_after_close:
  "\<exists>(pb :: ((bytes \<times> bytes) list, (bytes \<times> bytes) list) pebble) content ops d t.
     pebble_ok pb content ops \<and> content d = Some Map.empty \<and>
     kv_Set pb key val d = (Inr (), t) \<and> content t = Some [prefixConf @ key \<mapsto> val] \<and>
     kv_Get pb key t = (Inr junk, t)"
proof (intro exI conjI)
  let ?pb = "alist_pebble (\<lambda>_. junk)"
  show "pebble_ok ?pb (\<lambda>d. Some (map_of d)) (\<lambda>wb. wb)"
    by (rule alist_pebble_ok)
  show "kv_Set ?pb key val [] = (Inr (), [(prefixConf @ key, val)])"
    by (simp add: kv_Set_def alist_pebble_def)
  show "kv_Get ?pb key [(prefixConf @ key, val)] = (Inr junk, [(prefixConf @ key, val)])"
    by (simp add: kv_Get_def kv_GetValue_def alist_pebble_def close_value_def prog_simps Let_def)
qed simp_all

end
