(* ===== verification/Fsm.thy ===== *)
theory Fsm
  imports LogSpec
begin

text \<open>
  The state machine that \<open>raft\<close> replicates, \<open>Apply\<close> and \<open>applyAppend\<close> of
  \<open>internal/log/distributed/fsm.go\<close>: an entry of the replicated log is a request type and a
  marshalled \<open>ProduceRequest\<close>, and applying it appends the record to the node's log.
\<close>

section \<open>Requests and responses\<close>

text \<open>
  \<open>proto.Marshal\<close> and \<open>proto.Unmarshal\<close> of a \<open>ProduceRequest\<close>, whose \<open>Record\<close> is a pointer.
\<close>

record req_codec =
  q_marshal :: "log_record option \<Rightarrow> goerr + bytes"
  q_unmarshal :: "bytes \<Rightarrow> goerr + log_record option"

text \<open>The values that \<open>Apply\<close> returns as an \<open>interface{}\<close>.\<close>

datatype response = RespError goerr | ProduceResponse u64 | NilResponse

definition AppendRequestType :: byte where
  "AppendRequestType = 0"

definition fsm_applyAppend :: "req_codec \<Rightarrow> codec \<Rightarrow> bytes \<Rightarrow> (log \<times> os, response) prog" where
  "fsm_applyAppend q cdc b = (case q_unmarshal q b of
       Inl e \<Rightarrow> ret (RespError e)
     | Inr record \<Rightarrow> iferr (log_append cdc record) (\<lambda>e. ret (RespError e)) (\<lambda>off. ret (ProduceResponse off)))"

definition fsm_Apply :: "req_codec \<Rightarrow> codec \<Rightarrow> bytes \<Rightarrow> (log \<times> os, response) prog" where
  "fsm_Apply q cdc buf = (case buf of
       [] \<Rightarrow> fail (Panic IndexOutOfRange)
     | reqType # b \<Rightarrow> if reqType = AppendRequestType then fsm_applyAppend q cdc b else ret NilResponse)"

section \<open>What a replica computes\<close>

text \<open>
  The effect of an entry on the list of records of a log that begins at \<open>b\<close>; an entry that does
  not unmarshal is answered with its error.
\<close>

definition spec_Apply :: "req_codec \<Rightarrow> u64 \<Rightarrow> bytes \<Rightarrow> log_record list \<Rightarrow> response res \<times> log_record list" where
  "spec_Apply q b buf rs = (case buf of
       [] \<Rightarrow> (Inl (Panic IndexOutOfRange), rs)
     | t # p \<Rightarrow>
         if t \<noteq> AppendRequestType then (Inr NilResponse, rs)
         else (case q_unmarshal q p of
             Inl e \<Rightarrow> (Inr (RespError e), rs)
           | Inr None \<Rightarrow> (Inl (Panic NilDereference), rs)
           | Inr (Some r) \<Rightarrow> (Inr (ProduceResponse (b + of_nat (length rs))), rs @ [seg_item b rs r])))"

definition entry_ok :: "req_codec \<Rightarrow> codec \<Rightarrow> seg_config \<Rightarrow> u64 \<Rightarrow> bytes \<Rightarrow> log_record list \<Rightarrow> bool" where
  "entry_ok q cdc c b buf rs \<longleftrightarrow> (\<forall>p r. buf = AppendRequestType # p \<longrightarrow> q_unmarshal q p = Inr (Some r) \<longrightarrow>
     marshals cdc c (seg_item b rs r) \<and> unat b + length rs + 1 < 2 ^ 64)"

lemma log_append_nil: "log_append cdc None s = (Inl (Panic NilDereference), s)"
  by (cases s) (auto simp: log_append_def segment_append_def prog_simps Let_def split: option.splits prod.splits)

interpretation fsm_spec: refinement "log_rep cdc d c b" "\<lambda>buf rs. codec_ok cdc \<and> entry_ok q cdc c b buf rs"
  "spec_Apply q b" "fsm_Apply q cdc"
  for cdc d c b q
proof unfold_locales
  fix rs s buf
  assume rep: "log_rep cdc d c b rs s" and ok: "codec_ok cdc \<and> entry_ok q cdc c b buf rs"
  show "fst (fsm_Apply q cdc buf s) = fst (spec_Apply q b buf rs) \<and>
      log_rep cdc d c b (snd (spec_Apply q b buf rs)) (snd (fsm_Apply q cdc buf s))"
  proof (cases "\<exists>p r. buf = AppendRequestType # p \<and> q_unmarshal q p = Inr (Some r)")
    case True
    then obtain p r where pr: "buf = AppendRequestType # p" "q_unmarshal q p = Inr (Some r)" by blast
    then have "log_fits cdc c b rs r"
      using ok by (intro log_fitsI) (auto simp: entry_ok_def)
    from commit_log.append_law [OF rep this] pr show ?thesis
      by (auto simp: fsm_Apply_def fsm_applyAppend_def spec_Apply_def prog_simps)
  next
    case False
    then show ?thesis
      using rep by (auto simp: fsm_Apply_def fsm_applyAppend_def spec_Apply_def prog_simps log_append_nil
          split: list.splits sum.splits option.splits)
  qed
qed

section \<open>An instance\<close>

definition demo_req :: req_codec where
  "demo_req =
     \<lparr>q_marshal = (\<lambda>r. case r of None \<Rightarrow> Inr [] | Some x \<Rightarrow> c_marshal demo_codec x),
      q_unmarshal = (\<lambda>p. if p = [] then Inr None else
        (case c_unmarshal demo_codec p of Inl e \<Rightarrow> Inl e | Inr r \<Rightarrow> Inr (Some r)))\<rparr>"

definition demo_apply :: "byte \<Rightarrow> bytes" where
  "demo_apply x = AppendRequestType # enc demo_codec (demo_record x)"

lemma demo_req_unmarshal: "q_unmarshal demo_req (enc demo_codec r) = Inr (Some r)"
  using demo_encodable [of r] length_demo_enc [of r] by (auto simp: demo_req_def encodable_def)

lemma demo_apply_ok: "length rs < 10 \<Longrightarrow> entry_ok demo_req demo_codec demo_config 0 (demo_apply x) rs"
  using demo_marshals by (auto simp: entry_ok_def demo_apply_def demo_req_unmarshal)

section \<open>Properties\<close>

text \<open>
  C3: replicas agree. Two nodes whose logs hold the same records, in directories and with segment
  sizes of their own, give the same response to every entry of the same sequence of committed
  entries, and hold the same records at the same offsets afterwards.
\<close>

theorem replicas_agree:
  assumes "log_rep cdc d1 c1 b rs s1" and "log_rep cdc d2 c2 b rs s2" and "codec_ok cdc"
    and "admissible (entry_ok q cdc c1 b) (spec_Apply q b) entries rs"
    and "admissible (entry_ok q cdc c2 b) (spec_Apply q b) entries rs"
  shows "fst (run_cmds (fsm_Apply q cdc) entries s1) = fst (run_cmds (fsm_Apply q cdc) entries s2) \<and>
    (\<exists>rs'. log_rep cdc d1 c1 b rs' (snd (run_cmds (fsm_Apply q cdc) entries s1)) \<and>
      log_rep cdc d2 c2 b rs' (snd (run_cmds (fsm_Apply q cdc) entries s2)))"
  using fsm_spec.run_refines [OF assms(1) admissible_conj [OF assms(3,4)]]
    fsm_spec.run_refines [OF assms(2) admissible_conj [OF assms(3,5)]] by auto

theorem replicas_agree_witness:
  "\<exists>s1 s2. fst (run_cmds (fsm_Apply demo_req demo_codec) [demo_apply 1, demo_apply 2] s1) =
     fst (run_cmds (fsm_Apply demo_req demo_codec) [demo_apply 1, demo_apply 2] s2) \<and>
     fst (fsm_Apply demo_req demo_codec (demo_apply 1) s1) = Inr (ProduceResponse 0)"
proof -
  obtain s where rep: "log_rep demo_codec ''log'' demo_config 0 [] s"
    using demo_log by blast
  have adm: "admissible (entry_ok demo_req demo_codec demo_config 0) (spec_Apply demo_req 0) [demo_apply 1, demo_apply 2] []"
    by (simp add: demo_apply_ok) (simp add: spec_Apply_def demo_apply_def demo_req_unmarshal demo_apply_ok [unfolded demo_apply_def])
  have "fst (fsm_Apply demo_req demo_codec (demo_apply 1) s) = Inr (ProduceResponse 0)"
    using fsm_spec.simulate [OF rep, of demo_req "demo_apply 1"] demo_codec_ok demo_apply_ok [of "[]" 1]
    by (simp add: spec_Apply_def demo_apply_def demo_req_unmarshal)
  with replicas_agree [OF rep rep demo_codec_ok adm adm] show ?thesis by blast
qed

text \<open>
  A \<open>ProduceRequest\<close> without a record is poison. Once such an entry is committed, applying it
  panics on every node, whatever the node's log holds.
\<close>

theorem apply_nil_record_panics:
  assumes "q_unmarshal q b = Inr None"
  shows "fsm_Apply q cdc (AppendRequestType # b) s = (Inl (Panic NilDereference), s)"
  using assms by (simp add: fsm_Apply_def fsm_applyAppend_def prog_simps log_append_nil)

theorem apply_nil_record_panics_witness:
  "fsm_Apply demo_req demo_codec [AppendRequestType]
     (\<lparr>l_dir = ''log'', l_config = demo_config, l_heap = [], l_segments = [], l_active = None\<rparr>, demo_disk) =
   (Inl (Panic NilDereference),
     (\<lparr>l_dir = ''log'', l_config = demo_config, l_heap = [], l_segments = [], l_active = None\<rparr>, demo_disk))"
  using apply_nil_record_panics [of demo_req "[]"] by (simp add: demo_req_def)


text \<open>An entry appends a record or not, whatever the log holds.\<close>

lemma spec_Apply_length: "\<exists>n. \<forall>rs. length (snd (run_cmds (spec_Apply q b) entries rs)) = length rs + n"
proof (induction entries)
  case (Cons e entries)
  then obtain n where n: "\<And>rs. length (snd (run_cmds (spec_Apply q b) entries rs)) = length rs + n"
    by blast
  obtain k where "\<And>rs. length (snd (spec_Apply q b e rs)) = length rs + k"
  proof (cases "\<exists>p r. e = AppendRequestType # p \<and> q_unmarshal q p = Inr (Some r)")
    case True
    then show ?thesis
      using that [of 1] by (auto simp: spec_Apply_def)
  next
    case False
    then have "snd (spec_Apply q b e rs) = rs" for rs
      by (auto simp: spec_Apply_def split: list.splits sum.splits option.splits)
    then show ?thesis
      using that [of 0] by simp
  qed
  then show ?case
    using n by (auto simp: split_beta intro!: exI [of _ "k + n"])
qed auto

lemma admissible_append:
  "admissible ok step (cs @ ds) s \<longleftrightarrow> admissible ok step cs s \<and> admissible ok step ds (snd (run_cmds step cs s))"
  by (induction cs arbitrary: s) (simp_all add: split_beta)

text \<open>
  C21: a restart of a node duplicates its records. The log of the state machine is kept on disk, and
  \<open>raft\<close> applies the committed entries again after a restart. When a node with an empty log has
  applied a sequence of entries, is closed and opened again, and the same entries are applied
  again, all of them succeed as before, and the log holds twice as many records, those of the
  entries two times in a row.
\<close>

theorem restart_duplicates:
  assumes "log_rep cdc d c b [] s" and "codec_ok cdc"
    and "admissible (entry_ok q cdc c b) (spec_Apply q b) (entries @ entries) []"
  shows "\<exists>l1 w1 l2 w2. log_close (snd (run_cmds (fsm_Apply q cdc) entries s)) = (Inr (), (l1, w1)) \<and> NewLog d c w1 = (Inr l2, w2) \<and>
    (let once = snd (run_cmds (spec_Apply q b) entries []); twice = snd (run_cmds (spec_Apply q b) entries once) in
     log_rep cdc d c b once (l2, w2) \<and> log_rep cdc d c b twice (snd (run_cmds (fsm_Apply q cdc) entries (l2, w2))) \<and>
     length twice = 2 * length once)"
proof -
  let ?once = "snd (run_cmds (spec_Apply q b) entries [])"
  let ?ok = "\<lambda>buf rs. codec_ok cdc \<and> entry_ok q cdc c b buf rs"
  have adm: "admissible ?ok (spec_Apply q b) entries []" "admissible ?ok (spec_Apply q b) entries ?once"
    using admissible_conj [OF assms(2,3)] by (simp_all add: admissible_append)
  obtain l w where lw: "snd (run_cmds (fsm_Apply q cdc) entries s) = (l, w)"
    by (cases "snd (run_cmds (fsm_Apply q cdc) entries s)")
  then have "log_rep cdc d c b ?once (l, w)"
    using fsm_spec.run_refines [OF assms(1) adm(1)] by simp
  from log_close_NewLog [OF this] obtain l1 w1 l2 w2 where re: "log_close (l, w) = (Inr (), (l1, w1))"
      "NewLog d c w1 = (Inr l2, w2)" "log_rep cdc d c b ?once (l2, w2)"
    by blast
  moreover have "log_rep cdc d c b (snd (run_cmds (spec_Apply q b) entries ?once)) (snd (run_cmds (fsm_Apply q cdc) entries (l2, w2)))"
    using fsm_spec.run_refines [OF re(3) adm(2)] by simp
  moreover have "length (snd (run_cmds (spec_Apply q b) entries ?once)) = 2 * length ?once"
    using spec_Apply_length [of q b entries] by fastforce
  ultimately show ?thesis
    unfolding lw Let_def by blast
qed

theorem restart_duplicates_witness:
  "\<exists>s l1 w1 l2 w2. log_close (snd (run_cmds (fsm_Apply demo_req demo_codec) [demo_apply 7] s)) = (Inr (), (l1, w1)) \<and>
     NewLog ''log'' demo_config w1 = (Inr l2, w2) \<and>
     log_rep demo_codec ''log'' demo_config 0 [demo_record 7\<lparr>r_offset := 0\<rparr>, demo_record 7\<lparr>r_offset := 1\<rparr>]
       (snd (run_cmds (fsm_Apply demo_req demo_codec) [demo_apply 7] (l2, w2)))"
proof -
  obtain l w where rep: "log_rep demo_codec ''log'' demo_config 0 [] (l, w)"
    using demo_log by blast
  have step: "spec_Apply demo_req 0 (demo_apply 7) rs =
      (Inr (ProduceResponse (of_nat (length rs))), rs @ [demo_record 7\<lparr>r_offset := of_nat (length rs)\<rparr>])" for rs
    by (simp add: spec_Apply_def demo_apply_def demo_req_unmarshal)
  have "admissible (entry_ok demo_req demo_codec demo_config 0) (spec_Apply demo_req 0) ([demo_apply 7] @ [demo_apply 7]) []"
    by (simp add: demo_apply_ok step)
  from restart_duplicates [OF rep demo_codec_ok this] show ?thesis
    by (intro exI [of _ "(l, w)"]) (auto simp: step Let_def split_beta)
qed

end
