(* ===== verification/LogStore.thy ===== *)
theory LogStore
  imports LogSpec RaftStore
begin

text \<open>
  The commit log as the log of \<open>raft\<close>, \<open>internal/log/distributed/store.go\<close>.
\<close>

section \<open>The operations\<close>

type_synonym logStore = log

definition newLogStore :: "string \<Rightarrow> seg_config \<Rightarrow> (os, logStore) prog" where
  "newLogStore dir c = NewLog dir c"

definition logStore_DeleteRange :: "u64 \<Rightarrow> u64 \<Rightarrow> (logStore \<times> os, unit) prog" where
  "logStore_DeleteRange _ hi = log_truncate hi"

definition logStore_FirstIndex :: "(logStore \<times> os, u64) prog" where
  "logStore_FirstIndex = LowestOffset"

text \<open>\<open>GetLog\<close> fills the entry that the caller passes.\<close>

definition logStore_GetLog :: "codec \<Rightarrow> u64 \<Rightarrow> raft_log \<Rightarrow> (logStore \<times> os, raft_log) prog" where
  "logStore_GetLog cdc index lg = bnd (log_read cdc index) (\<lambda>r.
     ret (lg\<lparr>rl_data := r_value r, rl_index := r_offset r, rl_type := ucast (r_type r), rl_term := r_term r\<rparr>))"

definition logStore_LastIndex :: "(logStore \<times> os, u64) prog" where
  "logStore_LastIndex = HighestOffset"

definition logStore_StoreLogs :: "codec \<Rightarrow> raft_log list \<Rightarrow> (logStore \<times> os, unit) prog" where
  "logStore_StoreLogs cdc = prog_iter (\<lambda>lg. andthen (log_append cdc (Some
     \<lparr>r_value = rl_data lg, r_offset = 0, r_term = rl_term lg, r_type = ucast (rl_type lg)\<rparr>)) (ret ()))"

definition logStore_StoreLog :: "codec \<Rightarrow> raft_log \<Rightarrow> (logStore \<times> os, unit) prog" where
  "logStore_StoreLog cdc lg = logStore_StoreLogs cdc [lg]"

section \<open>The contract\<close>

definition rec_of :: "raft_log \<Rightarrow> log_record" where
  "rec_of lg = \<lparr>r_value = rl_data lg, r_offset = 0, r_term = rl_term lg, r_type = ucast (rl_type lg)\<rparr>"

text \<open>
  The commit log has no place for \<open>Extensions\<close> and \<open>AppendedAt\<close>: an entry that is read has those of
  the entry \<open>lg0\<close> that the caller of \<open>GetLog\<close> passed.
\<close>

definition raft_of :: "raft_log \<Rightarrow> log_record \<Rightarrow> raft_log" where
  "raft_of lg0 r = lg0\<lparr>rl_index := r_offset r, rl_term := r_term r, rl_type := ucast (r_type r), rl_data := r_value r\<rparr>"

definition ls_kept :: "raft_log \<Rightarrow> raft_log \<Rightarrow> raft_log" where
  "ls_kept lg0 lg = lg\<lparr>rl_extensions := rl_extensions lg0, rl_appendedAt := rl_appendedAt lg0\<rparr>"

definition ls_view :: "raft_log \<Rightarrow> u64 \<Rightarrow> log_record list \<Rightarrow> u64 \<Rightarrow> raft_log option" where
  "ls_view lg0 b rs i = (if b \<le> i \<and> unat i < unat b + length rs then Some (raft_of lg0 (rs ! unat (i - b))) else None)"

text \<open>
  The log assigns the indexes itself: a batch is stored faithfully when its entries carry the
  indexes that come next.
\<close>

fun ls_storable :: "codec \<Rightarrow> seg_config \<Rightarrow> u64 \<Rightarrow> log_record list \<Rightarrow> raft_log list \<Rightarrow> bool" where
  "ls_storable cdc c b rs [] \<longleftrightarrow> True"
| "ls_storable cdc c b rs (lg # lgs) \<longleftrightarrow> log_fits cdc c b rs (rec_of lg) \<and> rl_index lg = b + of_nat (length rs) \<and>
     ls_storable cdc c b (rs @ [seg_item b rs (rec_of lg)]) lgs"

fun ls_add :: "u64 \<Rightarrow> log_record list \<Rightarrow> raft_log list \<Rightarrow> log_record list" where
  "ls_add b rs [] = rs"
| "ls_add b rs (lg # lgs) = ls_add b (rs @ [seg_item b rs (rec_of lg)]) lgs"

lemma ucast_byte_u32: "(ucast (ucast (t :: byte) :: u32) :: byte) = t"
  by (rule bit_word_eqI) (simp add: bit_simps)

lemma raft_of_item: "rl_index lg = off \<Longrightarrow> raft_of lg0 (rec_of lg\<lparr>r_offset := off\<rparr>) = ls_kept lg0 lg"
  by (cases lg, cases lg0) (simp add: raft_of_def rec_of_def ls_kept_def ucast_byte_u32)

lemma logStore_StoreLogs_rep:
  "log_rep cdc d c b rs s \<Longrightarrow> ls_storable cdc c b rs lgs \<Longrightarrow>
     \<exists>t. logStore_StoreLogs cdc lgs s = (Inr (), t) \<and> log_rep cdc d c b (ls_add b rs lgs) t"
proof (induction lgs arbitrary: rs s)
  case Nil
  then show ?case by (simp add: logStore_StoreLogs_def prog_simps)
next
  case (Cons lg lgs)
  obtain t where t: "log_append cdc (Some (rec_of lg)) s = (Inr (b + of_nat (length rs)), t)"
      "log_rep cdc d c b (rs @ [seg_item b rs (rec_of lg)]) t"
    using commit_log.append_law [OF Cons.prems(1), of "rec_of lg"] Cons.prems(2) by auto
  with Cons.IH [OF t(2)] Cons.prems(2) show ?case
    by (auto simp: logStore_StoreLogs_def prog_simps rec_of_def)
qed

lemma ls_view_snoc:
  assumes "unat b + length rs + 1 < 2 ^ 64" "rl_index lg = b + of_nat (length rs)"
  shows "ls_view lg0 b (rs @ [seg_item b rs (rec_of lg)]) = (ls_view lg0 b rs)(rl_index lg \<mapsto> ls_kept lg0 lg)"
proof
  fix i
  have u: "unat (b + of_nat (length rs)) = unat b + length rs"
    using assms(1) by (intro unat_plus_of_nat) simp
  show "ls_view lg0 b (rs @ [seg_item b rs (rec_of lg)]) i = ((ls_view lg0 b rs)(rl_index lg \<mapsto> ls_kept lg0 lg)) i"
  proof (cases "i = rl_index lg")
    case True
    have "unat (rl_index lg - b) = length rs" "b \<le> rl_index lg"
      using assms u by (simp_all add: no_wrap word_le_nat_alt)
    then show ?thesis
      using True u assms raft_of_item [OF assms(2)] by (simp add: ls_view_def)
  next
    case False
    then have "unat i \<noteq> unat b + length rs"
      using u assms(2) by (metis word_unat_eq_iff)
    moreover have "b \<le> i \<Longrightarrow> unat (i - b) = unat i - unat b"
      by (intro unat_sub_u64) (simp add: word_le_nat_alt)
    ultimately show ?thesis
      using False by (auto simp: ls_view_def nth_append word_le_nat_alt)
  qed
qed

lemma ls_view_add:
  "ls_storable cdc c b rs lgs \<Longrightarrow>
     ls_view lg0 b (ls_add b rs lgs) = fold (\<lambda>lg m. m(rl_index lg \<mapsto> ls_kept lg0 lg)) lgs (ls_view lg0 b rs)"
proof (induction lgs arbitrary: rs)
  case (Cons lg lgs)
  have "unat b + length rs + 1 < 2 ^ 64"
    using Cons.prems by (simp add: log_fits_def)
  with Cons show ?case
    using ls_view_snoc [of b rs lg lg0] by simp
qed simp

lemma logStore_GetLog_rep:
  assumes "log_rep cdc d c b rs s" "b \<le> i" "unat i < unat b + length rs"
  shows "\<exists>t. logStore_GetLog cdc i lg s = (Inr (raft_of lg (rs ! unat (i - b))), t) \<and> log_rep cdc d c b rs t"
  using log_read_spec [of cdc d c b rs "fst s" "snd s" i] assms
  by (auto simp: logStore_GetLog_def prog_simps raft_of_def)

interpretation log_store: raft_store "log_rep cdc d c b" "ls_view lg0 b" "ls_storable cdc c b" "ls_add b"
  "ls_kept lg0" "\<lambda>i. logStore_GetLog cdc i lg0" "logStore_StoreLogs cdc"
  for cdc d c b lg0
proof unfold_locales
  fix rs s i lg
  assume rep: "log_rep cdc d c b rs s" and "ls_view lg0 b rs i = Some lg"
  then show "\<exists>t. logStore_GetLog cdc i lg0 s = (Inr lg, t) \<and> log_rep cdc d c b rs t"
    using logStore_GetLog_rep [OF rep, of i] by (auto simp: ls_view_def split: if_splits)
next
  fix rs s i
  assume rep: "log_rep cdc d c b rs s" and "ls_view lg0 b rs i = None"
  then have "unat i < unat b \<or> unat b + length rs \<le> unat i"
    by (auto simp: ls_view_def word_le_nat_alt split: if_splits)
  with rep show "\<exists>e t. logStore_GetLog cdc i lg0 s = (Inl (Error e), t) \<and> log_rep cdc d c b rs t"
    using log_read_out_of_range [of cdc d c b rs "fst s" "snd s" i]
    by (auto simp: logStore_GetLog_def prog_simps)
qed (rule logStore_StoreLogs_rep ls_view_add; assumption)+

section \<open>An instance\<close>

definition demo_entry :: "u64 \<Rightarrow> raft_log" where
  "demo_entry i = \<lparr>rl_index = i, rl_term = 7, rl_type = 2, rl_data = [9], rl_extensions = [4], rl_appendedAt = 100\<rparr>"

lemma demo_entry_fits: "length rs < 10 \<Longrightarrow> log_fits demo_codec demo_config 0 rs (rec_of (demo_entry i))"
  by (intro log_fitsI [OF demo_codec_ok])
    (simp_all add: marshals_def demo_codec_def rec_of_def demo_entry_def max_alloc_def payload_ok_def demo_config_def)

section \<open>Properties\<close>

lemma length_ls_add: "length (ls_add b rs lgs) = length rs + length lgs"
  by (induction lgs arbitrary: rs) simp_all

lemma ls_storable_indexes:
  "ls_storable cdc c b rs lgs \<Longrightarrow> unat b + length rs < 2 ^ 64 \<Longrightarrow>
     map (unat \<circ> rl_index) lgs = map (\<lambda>k. unat b + length rs + k) [0..<length lgs]"
proof (induction lgs arbitrary: rs)
  case (Cons lg lgs)
  have "unat (rl_index lg) = unat b + length rs"
    using Cons.prems unat_plus_of_nat [of b "length rs"] by simp
  moreover have "map (unat \<circ> rl_index) lgs = map (\<lambda>k. unat b + length rs + Suc k) [0..<length lgs]"
    using Cons.IH [of "rs @ [seg_item b rs (rec_of lg)]"] Cons.prems by (simp add: log_fits_def comp_def)
  ultimately show ?case
    by (simp add: upt_conv_Cons map_Suc_upt [symmetric] comp_def del: upt_Suc)
qed simp

lemma ls_storable_distinct:
  assumes "log_rep cdc d c b rs s" and "ls_storable cdc c b rs lgs"
  shows "distinct (map rl_index lgs)" and "lg \<in> set lgs \<Longrightarrow> unat b + length rs \<le> unat (rl_index lg)"
proof -
  have "unat b + length rs < 2 ^ 64"
    using assms(1) by (cases s) (auto elim: log_repE)
  note ix = ls_storable_indexes [OF assms(2) this]
  have "distinct (map unat (map rl_index lgs))"
    unfolding map_map ix by (simp add: distinct_map inj_on_def)
  then show "distinct (map rl_index lgs)"
    by (rule distinct_map [THEN iffD1, THEN conjunct1])
  show "unat b + length rs \<le> unat (rl_index lg)" if "lg \<in> set lgs"
    using arg_cong [OF ix, of set] that by (force simp: comp_def)
qed

text \<open>\<open>DeleteRange\<close> below the last index keeps the entries above the range.\<close>

lemma logStore_delete_prefix:
  assumes rep: "log_rep cdc d c b rs s" and hi: "unat hi + 1 < unat b + length rs"
  shows "\<exists>v. logStore_DeleteRange lo hi s = (Inr (), v) \<and>
    (\<forall>i lg u. hi < i \<and> logStore_GetLog cdc i lg0 s = (Inr lg, u) \<longrightarrow> (\<exists>u'. logStore_GetLog cdc i lg0 v = (Inr lg, u')))"
proof -
  obtain l w where s: "s = (l, w)" by (cases s)
  obtain k v where v: "log_truncate hi s = (Inr (), v)" "log_rep cdc d c (b + of_nat k) (drop k rs) v"
      "k = 0 \<or> unat b + k \<le> unat hi + 1"
    using log_truncate_rep [OF rep [unfolded s] hi] unfolding s by auto
  have "\<exists>u'. logStore_GetLog cdc i lg0 v = (Inr lg, u')" if i: "hi < i" and get: "logStore_GetLog cdc i lg0 s = (Inr lg, u)" for i lg u
  proof -
    have "ls_view lg0 b rs i = Some lg"
      using log_store.get_iff [OF rep] get by blast
    then have lg: "lg = raft_of lg0 (rs ! unat (i - b))" "unat b \<le> unat i" "unat i < unat b + length rs"
      by (auto simp: ls_view_def word_le_nat_alt split: if_splits)
    have k: "unat b + k \<le> unat i"
      using v(3) i lg(2) by (auto simp: word_less_nat_alt)
    then have uk: "unat (b + of_nat k) = unat b + k"
      using unat_u64_less [of i] by (intro unat_plus_of_nat) linarith
    then have "unat (i - (b + of_nat k)) = unat i - (unat b + k)" "unat (i - b) = unat i - unat b"
      using k lg(2) by (simp_all add: no_wrap word_le_nat_alt)
    then have "ls_view lg0 (b + of_nat k) (drop k rs) i = Some lg"
      using k lg uk by (simp add: ls_view_def word_le_nat_alt)
    then show ?thesis
      using log_store.get_iff [OF v(2)] by blast
  qed
  with v(1) show ?thesis
    unfolding logStore_DeleteRange_def by blast
qed

text \<open>
  C5: the commit log as the log of \<open>raft\<close>, for entries that carry the next indexes. \<open>StoreLogs\<close>
  succeeds. After it \<open>GetLog\<close> returns every entry of the batch at its index with its index, term, type
  and data, but \<open>Extensions\<close> and \<open>AppendedAt\<close> are not stored and stay those of the entry that the
  caller passed; every entry that was there before is returned as before; an index outside the log
  gives the out-of-range error. \<open>FirstIndex\<close> is the first index of the log, also when it has no entry,
  and \<open>LastIndex\<close> the last one. \<open>DeleteRange\<close> with an upper bound below the last index succeeds and
  every entry above the bound is still returned.
\<close>

theorem logStore_contract:
  assumes "log_rep cdc d c b rs s" and "ls_storable cdc c b rs lgs"
  shows "\<exists>t. logStore_StoreLogs cdc lgs s = (Inr (), t) \<and>
    (\<forall>lg \<in> set lgs. \<exists>u. logStore_GetLog cdc (rl_index lg) lg0 t =
       (Inr (lg\<lparr>rl_extensions := rl_extensions lg0, rl_appendedAt := rl_appendedAt lg0\<rparr>), u)) \<and>
    (\<forall>i lg u. logStore_GetLog cdc i lg0 s = (Inr lg, u) \<longrightarrow> (\<exists>u'. logStore_GetLog cdc i lg0 t = (Inr lg, u'))) \<and>
    (\<forall>i. unat i < unat b \<or> unat b + length rs + length lgs \<le> unat i \<longrightarrow>
       logStore_GetLog cdc i lg0 t = (Inl (Error (ErrOffsetOutOfRange i)), t)) \<and>
    logStore_FirstIndex t = (Inr b, t) \<and>
    (rs @ map rec_of lgs \<noteq> [] \<longrightarrow> logStore_LastIndex t = (Inr (b + of_nat (length rs + length lgs) - 1), t)) \<and>
    (\<forall>lo hi. unat hi + 1 < unat b + length rs + length lgs \<longrightarrow> (\<exists>v. logStore_DeleteRange lo hi t = (Inr (), v) \<and>
       (\<forall>i lg u. hi < i \<and> logStore_GetLog cdc i lg0 t = (Inr lg, u) \<longrightarrow> (\<exists>u'. logStore_GetLog cdc i lg0 v = (Inr lg, u')))))"
proof -
  obtain t where t: "logStore_StoreLogs cdc lgs s = (Inr (), t)" "log_rep cdc d c b (ls_add b rs lgs) t"
      "\<forall>lg \<in> set lgs. \<exists>u. logStore_GetLog cdc (rl_index lg) lg0 t = (Inr (ls_kept lg0 lg), u)"
      "\<forall>i lg. i \<notin> rl_index ` set lgs \<longrightarrow> ls_view lg0 b rs i = Some lg \<longrightarrow> (\<exists>u. logStore_GetLog cdc i lg0 t = (Inr lg, u))"
    using log_store.get_after_store [OF assms ls_storable_distinct(1) [OF assms], of lg0] by blast
  obtain l w where lw: "t = (l, w)" by (cases t)
  note rep = t(2) [unfolded lw]
  have "\<exists>u'. logStore_GetLog cdc i lg0 t = (Inr lg, u')" if "logStore_GetLog cdc i lg0 s = (Inr lg, u)" for i lg u
  proof -
    have "ls_view lg0 b rs i = Some lg"
      using log_store.get_iff [OF assms(1)] that by blast
    moreover from this have "i \<notin> rl_index ` set lgs"
      using ls_storable_distinct(2) [OF assms] by (fastforce simp: ls_view_def split: if_splits)
    ultimately show ?thesis
      using t(4) by blast
  qed
  moreover have "logStore_GetLog cdc i lg0 t = (Inl (Error (ErrOffsetOutOfRange i)), t)"
    if "unat i < unat b \<or> unat b + length rs + length lgs \<le> unat i" for i
    using log_read_out_of_range [OF rep, of i] that by (simp add: logStore_GetLog_def prog_simps lw length_ls_add add.assoc)
  moreover have "logStore_FirstIndex t = (Inr b, t)"
    unfolding logStore_FirstIndex_def lw using rep by (rule LowestOffset_rep)
  moreover have "logStore_LastIndex t = (Inr (b + of_nat (length rs + length lgs) - 1), t)" if "rs @ map rec_of lgs \<noteq> []"
  proof -
    have "unat b + length (ls_add b rs lgs) < 2 ^ 64"
      using rep by (rule log_repE)
    then have "unat (b + of_nat (length rs + length lgs)) = unat b + (length rs + length lgs)"
      by (intro unat_plus_of_nat) (simp add: length_ls_add)
    then have "b + of_nat (length rs + length lgs) \<noteq> 0"
      using that by (auto simp: word_unat_eq_iff simp del: of_nat_add)
    then show ?thesis
      using HighestOffset_rep [OF rep] by (simp add: logStore_LastIndex_def length_ls_add lw del: of_nat_add)
  qed
  moreover have "\<exists>v. logStore_DeleteRange lo hi t = (Inr (), v) \<and>
       (\<forall>i lg u. hi < i \<and> logStore_GetLog cdc i lg0 t = (Inr lg, u) \<longrightarrow> (\<exists>u'. logStore_GetLog cdc i lg0 v = (Inr lg, u')))"
    if "unat hi + 1 < unat b + length rs + length lgs" for lo hi
    using that by (intro logStore_delete_prefix [OF t(2)]) (simp add: length_ls_add)
  ultimately show ?thesis
    using t(1,3) unfolding ls_kept_def by blast
qed

theorem logStore_contract_witness:
  "\<exists>l w t u v u'. NewLog ''log'' demo_config demo_disk = (Inr l, w) \<and>
     logStore_StoreLogs demo_codec [demo_entry 0, demo_entry 1, demo_entry 2] (l, w) = (Inr (), t) \<and>
     logStore_GetLog demo_codec 2 \<lparr>rl_index = 0, rl_term = 0, rl_type = 0, rl_data = [], rl_extensions = [], rl_appendedAt = 0\<rparr> t =
       (Inr (demo_entry 2\<lparr>rl_extensions := [], rl_appendedAt := 0\<rparr>), u) \<and>
     logStore_LastIndex t = (Inr 2, t) \<and> logStore_DeleteRange 0 1 t = (Inr (), v) \<and>
     logStore_GetLog demo_codec 2 \<lparr>rl_index = 0, rl_term = 0, rl_type = 0, rl_data = [], rl_extensions = [], rl_appendedAt = 0\<rparr> v =
       (Inr (demo_entry 2\<lparr>rl_extensions := [], rl_appendedAt := 0\<rparr>), u')"
proof -
  let ?lg0 = "\<lparr>rl_index = 0, rl_term = 0, rl_type = 0, rl_data = [], rl_extensions = [], rl_appendedAt = 0\<rparr>"
  let ?lgs = "[demo_entry 0, demo_entry 1, demo_entry 2]"
  obtain l w where nl: "NewLog ''log'' demo_config demo_disk = (Inr l, w)"
      and rep: "log_rep demo_codec ''log'' demo_config 0 [] (l, w)"
    using demo_log by blast
  have "ls_storable demo_codec demo_config 0 [] ?lgs"
    by (simp add: demo_entry_fits) (simp add: demo_entry_def)
  from logStore_contract [OF rep this, of ?lg0] obtain t where t: "logStore_StoreLogs demo_codec ?lgs (l, w) = (Inr (), t)"
      "\<forall>lg \<in> set ?lgs. \<exists>u. logStore_GetLog demo_codec (rl_index lg) ?lg0 t =
         (Inr (lg\<lparr>rl_extensions := rl_extensions ?lg0, rl_appendedAt := rl_appendedAt ?lg0\<rparr>), u)"
      "[] @ map rec_of ?lgs \<noteq> [] \<longrightarrow> logStore_LastIndex t = (Inr (0 + of_nat (length ([] :: log_record list) + length ?lgs) - 1), t)"
      "\<forall>lo hi. unat hi + 1 < unat (0 :: u64) + length ([] :: log_record list) + length ?lgs \<longrightarrow> (\<exists>v. logStore_DeleteRange lo hi t = (Inr (), v) \<and>
         (\<forall>i lg u. hi < i \<and> logStore_GetLog demo_codec i ?lg0 t = (Inr lg, u) \<longrightarrow> (\<exists>u'. logStore_GetLog demo_codec i ?lg0 v = (Inr lg, u'))))"
    by blast
  have "rl_index (demo_entry 2) = 2"
    by (simp add: demo_entry_def)
  then obtain u where u: "logStore_GetLog demo_codec 2 ?lg0 t = (Inr (demo_entry 2\<lparr>rl_extensions := [], rl_appendedAt := 0\<rparr>), u)"
    using t(2) by auto
  moreover obtain v where v: "logStore_DeleteRange 0 1 t = (Inr (), v)"
      "\<forall>i lg u. 1 < i \<and> logStore_GetLog demo_codec i ?lg0 t = (Inr lg, u) \<longrightarrow> (\<exists>u'. logStore_GetLog demo_codec i ?lg0 v = (Inr lg, u'))"
    using t(4) [rule_format, of 1 0] by auto
  moreover obtain u' where "logStore_GetLog demo_codec 2 ?lg0 v = (Inr (demo_entry 2\<lparr>rl_extensions := [], rl_appendedAt := 0\<rparr>), u')"
    using v(2) u by fastforce
  moreover have "logStore_LastIndex t = (Inr 2, t)"
    using t(3) by simp
  ultimately show ?thesis
    using nl t(1) by blast
qed

text \<open>
  \<open>DeleteRange\<close> does not look at its lower bound. When \<open>raft\<close> deletes a conflicting suffix,
  from some index up to the last one, every entry is removed, those below the range included,
  no entry can be read any more and asking for the last index panics.
\<close>

theorem logStore_delete_suffix:
  assumes "log_rep cdc d c b rs s" and "unat b + length rs = unat hi + 1" and "hi \<noteq> - 1"
  shows "\<exists>t. logStore_DeleteRange lo hi s = (Inr (), t) \<and>
    logStore_LastIndex t = (Inl (Panic IndexOutOfRange), t) \<and>
    (\<forall>i. logStore_GetLog cdc i lg t = (Inl (Error (ErrOffsetOutOfRange i)), t))"
proof -
  obtain l w where s: "s = (l, w)" by (cases s)
  obtain l' w' where "log_truncate hi (l, w) = (Inr (), (l', w'))" "l_segments l' = []"
    using log_truncate_everything [of cdc d c b rs l w hi] assms unfolding s by auto
  then show ?thesis
    by (intro exI [of _ "(l', w')"]) (simp add: s logStore_DeleteRange_def logStore_LastIndex_def logStore_GetLog_def
        HighestOffset_def log_read_def find_segment_def prog_simps)
qed

theorem logStore_delete_suffix_witness:
  "\<exists>s t. (\<exists>u. logStore_GetLog demo_codec 0 (demo_entry 9) s = (Inr (raft_of (demo_entry 9) (demo_records ! 0)), u)) \<and>
     logStore_DeleteRange 2 2 s = (Inr (), t) \<and>
     logStore_GetLog demo_codec 0 (demo_entry 9) t = (Inl (Error (ErrOffsetOutOfRange 0)), t)"
proof -
  obtain l w where rep: "log_rep demo_codec ''log'' demo_config 0 demo_records (l, w)"
    using demo_log_three by blast
  have "\<exists>u. logStore_GetLog demo_codec 0 (demo_entry 9) (l, w) = (Inr (raft_of (demo_entry 9) (demo_records ! 0)), u)"
    using logStore_GetLog_rep [OF rep, of 0 "demo_entry 9"] by (auto simp: demo_records_def)
  moreover obtain t where "logStore_DeleteRange 2 2 (l, w) = (Inr (), t)"
      "\<forall>i. logStore_GetLog demo_codec i (demo_entry 9) t = (Inl (Error (ErrOffsetOutOfRange i)), t)"
    using logStore_delete_suffix [OF rep, of 2 2 "demo_entry 9"] by (auto simp: demo_records_def)
  ultimately show ?thesis by blast
qed

text \<open>
  \<open>StoreLogs\<close> does not look at the index of an entry: it is stored at the next offset
  whatever index it carries, and \<open>GetLog\<close> there returns it with that offset as its index, and
  with the \<open>Extensions\<close> and \<open>AppendedAt\<close> that the caller passed.
\<close>

theorem logStore_ignores_index:
  assumes "log_rep cdc d c b rs s" and "log_fits cdc c b rs (rec_of lg)"
  shows "\<exists>t u. logStore_StoreLog cdc lg s = (Inr (), t) \<and>
    logStore_GetLog cdc (b + of_nat (length rs)) lg0 t = (Inr (ls_kept lg0 (lg\<lparr>rl_index := b + of_nat (length rs)\<rparr>)), u)"
proof -
  let ?off = "b + of_nat (length rs)"
  let ?lg = "lg\<lparr>rl_index := ?off\<rparr>"
  have "rec_of ?lg = rec_of lg"
    by (simp add: rec_of_def)
  then have "ls_storable cdc c b rs [?lg]"
    using assms(2) by simp
  then obtain t u where "logStore_StoreLogs cdc [?lg] s = (Inr (), t)"
      "logStore_GetLog cdc ?off lg0 t = (Inr (ls_kept lg0 ?lg), u)"
    using log_store.get_after_store [OF assms(1), of "[?lg]" lg0] by auto
  moreover have "logStore_StoreLog cdc lg = logStore_StoreLogs cdc [?lg]"
    by (simp add: logStore_StoreLog_def logStore_StoreLogs_def)
  ultimately show ?thesis by auto
qed

theorem logStore_ignores_index_witness:
  "\<exists>s t u. logStore_StoreLog demo_codec (demo_entry 41) s = (Inr (), t) \<and>
     logStore_GetLog demo_codec 0 (demo_entry 9) t = (Inr (demo_entry 0), u)"
proof -
  obtain l w where rep: "log_rep demo_codec ''log'' demo_config 0 [] (l, w)"
    using demo_log by blast
  from logStore_ignores_index [OF rep demo_entry_fits, of 41 "demo_entry 9"] show ?thesis
    by (auto simp: demo_entry_def ls_kept_def) blast
qed

end
