(* ===== verification/TwoLogs.thy ===== *)
theory TwoLogs
  imports LogSpec
begin

text \<open>
  A node keeps two commit logs on one disk, its own and that of \<open>raft\<close>, in two directories. This
  theory shows that what one log does leaves the directory of the other as it is.
\<close>

section \<open>Files\<close>

text \<open>The directory \<open>e\<close> is \<open>x\<close>, whatever happens to files of another directory \<open>d\<close>.\<close>

abbreviation dir_is :: "string \<Rightarrow> (string \<times> bytes) list option \<Rightarrow> os \<Rightarrow> bool" where
  "dir_is e x \<equiv> \<lambda>w. os_dirs w e = x"

lemma os_dirs_fput_other [simp]: "d \<noteq> e \<Longrightarrow> os_dirs (fput d n c w) e = os_dirs w e"
  by (simp add: fput_def)

lemma os_dirs_next_fault: "next_fault w = (f, w') \<Longrightarrow> os_dirs w' e = os_dirs w e"
  by (auto simp: next_fault_def split: list.splits)

lemma sys_dir: "keeps (dir_is e x) sys"
  by (rule keepsI) (auto simp: sys_def os_dirs_next_fault split: prod.splits option.splits)

lemma open_file_dir: "d \<noteq> e \<Longrightarrow> keeps (dir_is e x) (open_file d n)"
  unfolding open_file_def
  by (intro keeps_intros sys_dir) (auto intro!: keepsI split: option.splits if_splits)

lemma file_op_dir: "(\<And>c. keeps (dir_is e x) (m c)) \<Longrightarrow> keeps (dir_is e x) (file_op f m)"
  unfolding file_op_def by (intro keeps_intros sys_dir)

lemma file_size_dir: "keeps (dir_is e x) (file_size f)"
  unfolding file_size_def by (intro file_op_dir keeps_intros)

lemma file_mmap_dir: "keeps (dir_is e x) (file_mmap f n)"
  unfolding file_mmap_def by (intro file_op_dir keeps_intros)

lemma file_sync_dir: "keeps (dir_is e x) (file_sync f)"
  unfolding file_sync_def by (intro file_op_dir keeps_intros)

lemma file_truncate_dir: "f_dir f \<noteq> e \<Longrightarrow> keeps (dir_is e x) (file_truncate f n)"
  unfolding file_truncate_def by (intro file_op_dir keeps_intros keeps_upd_st) auto

lemma file_read_at_dir: "keeps (dir_is e x) (file_read_at f n off)"
  by (rule keepsI) (auto simp: file_read_at_def file_pread_def Let_def os_dirs_next_fault
      split: if_splits prod.splits option.splits)

lemma file_write_dir: "file_write f p w = (r, w') \<Longrightarrow> f_dir f \<noteq> e \<Longrightarrow> os_dirs w' e = os_dirs w e"
  by (auto simp: file_write_def os_dirs_next_fault split: if_splits prod.splits option.splits)

lemma read_dir_dir: "keeps (dir_is e x) (read_dir d)"
  unfolding read_dir_def by (intro keeps_intros sys_dir) (auto intro!: keepsI split: option.splits)

lemma mkdir_all_dir: "d \<noteq> e \<Longrightarrow> keeps (dir_is e x) (mkdir_all d)"
  unfolding mkdir_all_def by (intro keeps_intros sys_dir keeps_upd_st) (auto split: option.splits)

lemma flush_dir: "f_dir f \<noteq> e \<Longrightarrow> keeps (\<lambda>(b, w). dir_is e x w) (bufio_flush f)"
  by (rule keepsI) (auto simp: bufio_flush_def file_write_dir split: if_splits prod.splits option.splits)

lemma write_dir:
  assumes "f_dir f \<noteq> e"
  shows "keeps (\<lambda>(b, w). dir_is e x w) (bufio_write f p)"
proof (rule keepsI)
  fix s :: "bufw \<times> os" and r t
  assume s: "case s of (b, w) \<Rightarrow> dir_is e x w" and run: "bufio_write f p s = (r, t)"
  obtain p1 s1 where fill: "bufio_fill f p s = (p1, s1)" by (cases "bufio_fill f p s")
  obtain p2 b2 w2 where dir: "bufio_direct f p1 s1 = (p2, (b2, w2))" by (cases "bufio_direct f p1 s1") auto
  obtain b w where bw: "s = (b, w)" by (cases s)
  have "(\<lambda>(b, w). dir_is e x w) (snd (bufio_flush f (b\<lparr>bw_buf := y\<rparr>, w)))" for y
    using s by (intro keeps_snd [OF flush_dir [OF assms]]) (simp add: bw)
  moreover have "s1 = s \<or> (\<exists>y. s1 = snd (bufio_flush f (b\<lparr>bw_buf := y\<rparr>, w)))"
    using fill by (auto simp: bw bufio_fill_def split: if_splits)
  ultimately have "(\<lambda>(b, w). dir_is e x w) s1"
    using s by metis
  then have "dir_is e x w2"
    using dir file_write_dir [OF _ assms] by (auto simp: bufio_direct_def split: if_splits prod.splits)
  then show "case t of (b, w) \<Rightarrow> dir_is e x w"
    using run fill dir by (auto simp: bufio_write_def split: option.splits)
qed

section \<open>Stores, indexes and segments\<close>

abbreviation store_in :: "string \<Rightarrow> string \<Rightarrow> (string \<times> bytes) list option \<Rightarrow> store \<times> os \<Rightarrow> bool" where
  "store_in d e x \<equiv> \<lambda>(s, w). f_dir (st_file s) = d \<and> dir_is e x w"

abbreviation index_in :: "string \<Rightarrow> string \<Rightarrow> (string \<times> bytes) list option \<Rightarrow> index \<times> os \<Rightarrow> bool" where
  "index_in d e x \<equiv> \<lambda>(i, w). f_dir (ix_file i) = d \<and> dir_is e x w"

abbreviation files_in :: "string \<Rightarrow> segment \<Rightarrow> bool" where
  "files_in d s \<equiv> f_dir (st_file (sg_store s)) = d \<and> f_dir (ix_file (sg_index s)) = d"

abbreviation seg_in :: "string \<Rightarrow> string \<Rightarrow> (string \<times> bytes) list option \<Rightarrow> segment \<times> os \<Rightarrow> bool" where
  "seg_in d e x \<equiv> \<lambda>(s, w). files_in d s \<and> dir_is e x w"

lemma on_buf_dir: "(\<And>f. f_dir f = d \<Longrightarrow> keeps (\<lambda>(b, w). dir_is e x w) (m f)) \<Longrightarrow> keeps (store_in d e x) (on_buf m)"
  by (rule keepsI) (fastforce simp: on_buf_def split: prod.splits dest: keepsD)

lemma on_os_dir: "keeps (dir_is e x) m \<Longrightarrow> keeps (\<lambda>(s, w). P s \<and> dir_is e x w) (on_os m)"
  by (rule keepsI) (auto simp: on_os_def split: prod.splits dest: keepsD)

lemma store_append_dir: "d \<noteq> e \<Longrightarrow> keeps (store_in d e x) (store_append p)"
  unfolding store_append_def
  by (intro keeps_intros on_buf_dir write_dir keeps_upd_st) auto

lemma store_read_dir: "d \<noteq> e \<Longrightarrow> keeps (store_in d e x) (store_read pos)"
  unfolding store_read_def make_bytes_def
  by (intro keeps_intros on_buf_dir flush_dir on_os_dir file_read_at_dir) auto

lemma file_close_dir:
  assumes "file_close (f, w) = (r, (f', w'))"
  shows "f_dir f' = f_dir f" and "os_dirs w' e = os_dirs w e"
  using assms keepsD [OF sys_dir, of w _ w' e "os_dirs w e"] by (auto simp: file_close_def split: if_splits prod.splits)

lemma keeps_get_st_result: "(\<And>s. I s \<Longrightarrow> keeps I (k s)) \<Longrightarrow> keeps I (bnd get_st k)"
  by (simp add: keeps_def bnd_def get_st_def)

lemma store_close_dir: "d \<noteq> e \<Longrightarrow> keeps (store_in d e x) store_close"
  unfolding store_close_def
  by (intro keeps_intros on_buf_dir flush_dir) (auto intro!: keepsI simp: file_close_dir split: prod.splits)

lemma mmap_store_dir: "d \<noteq> e \<Longrightarrow> keeps (index_in d e x) (mmap_store lo hi b)"
  by (rule keepsI) (auto simp: mmap_store_def split: if_splits option.splits)

lemma index_write_dir: "d \<noteq> e \<Longrightarrow> keeps (index_in d e x) (index_write off pos)"
  unfolding index_write_def
  by (intro keeps_intros mmap_store_dir keeps_upd_st) auto

lemma index_close_dir:
  assumes "d \<noteq> e"
  shows "keeps (index_in d e x) index_close"
proof -
  have "keeps (index_in d e x) msync"
    unfolding msync_def by (intro keeps_intros on_os_dir sys_dir)
  moreover have "keeps (index_in d e x) munmap"
    unfolding munmap_def by (intro keeps_intros on_os_dir sys_dir) (auto intro!: keepsI split: if_splits)
  ultimately show ?thesis
    unfolding index_close_def
  proof (intro keeps_andthen keeps_get_st_result)
    fix s :: "index \<times> os"
    assume "index_in d e x s"
    then obtain i w where s: "s = (i, w)" "f_dir (ix_file i) \<noteq> e"
      using assms by auto
    show "keeps (index_in d e x) (case s of (i, _) \<Rightarrow> andthen (on_os (wrapf ''sync'' (file_sync (ix_file i))))
        (andthen (on_os (wrapf ''truncate'' (file_truncate (ix_file i) (sint (ix_size i)))))
          (\<lambda>(i, w). case file_close (ix_file i, w) of (r, (f, w')) \<Rightarrow> (r, (i\<lparr>ix_file := f\<rparr>, w')))))"
      unfolding s(1) prod.case
      by (intro keeps_andthen on_os_dir keeps_wrapf file_sync_dir file_truncate_dir s(2))
        (auto intro!: keepsI simp: file_close_dir split: prod.splits)
  qed
qed

lemma on_store_dir: "keeps (store_in d e x) m \<Longrightarrow> keeps (seg_in d e x) (on_store m)"
  by (rule keepsI) (auto simp: on_store_def split: prod.splits dest: keepsD)

lemma on_index_dir: "keeps (index_in d e x) m \<Longrightarrow> keeps (seg_in d e x) (on_index m)"
  by (rule keepsI) (auto simp: on_index_def split: prod.splits dest: keepsD)

lemma segment_append_dir: "d \<noteq> e \<Longrightarrow> keeps (seg_in d e x) (segment_append cdc r)"
  unfolding segment_append_def
  by (intro keeps_intros on_store_dir on_index_dir store_append_dir index_write_dir keeps_upd_st) auto

lemma segment_read_dir: "d \<noteq> e \<Longrightarrow> keeps (seg_in d e x) (segment_read cdc off)"
  unfolding segment_read_def
  by (intro keeps_intros on_store_dir on_index_dir store_read_dir keeps_index_read)

lemma segment_close_dir: "d \<noteq> e \<Longrightarrow> keeps (seg_in d e x) segment_close"
  unfolding segment_close_def
  by (intro keeps_intros on_store_dir on_index_dir store_close_dir index_close_dir)

lemma newSegment_dir:
  assumes "d \<noteq> e"
  shows "keeps (dir_is e x) (newSegment d b c)"
  unfolding newSegment_def
proof (intro keeps_bnd_result keeps_wrapf open_file_dir assms)
  fix st f s t
  show "keeps (dir_is e x) (newStore f)"
    unfolding newStore_def by (intro keeps_intros file_size_dir)
  assume "wrapf ''open index'' (open_file d (index_file_name b)) s = (Inr f, t)"
  then have "f_dir f \<noteq> e"
    using assms open_file_name by fastforce
  then show "keeps (dir_is e x) (newIndex f (MaxIndexBytes c))"
    unfolding newIndex_def by (intro keeps_intros file_size_dir file_truncate_dir file_mmap_dir)
next
  fix st ix
  show "keeps (dir_is e x) (\<lambda>w. case index_read (- 1) (ix, w) of
         (Inl (Panic p), (_, w')) \<Rightarrow> (Inl (Panic p), w')
       | (Inl (Error _), (ix', w')) \<Rightarrow>
           (Inr \<lparr>sg_store = st, sg_index = ix', baseOffset = b, nextOffset = b, sg_config = c\<rparr>, w')
       | (Inr (off, _), (ix', w')) \<Rightarrow>
           (Inr \<lparr>sg_store = st, sg_index = ix', baseOffset = b,
              nextOffset = b + ucast off + 1, sg_config = c\<rparr>, w'))"
    by (rule keepsI) (auto dest: index_read_world split: prod.splits sum.splits failure.splits)
qed

lemma newSegment_files:
  assumes "newSegment d b c w = (Inr s, w')"
  shows "files_in d s"
proof -
  have ix: "ix_file i = f" if "wrapf m (newIndex f n) w = (Inr i, w')" for m f n w i w'
    using that by (auto simp: newIndex_def prog_simps split: prod.splits sum.splits failure.splits)
  have "f_dir (ix_file (sg_index s)) = d"
    using assms unfolding newSegment_def
    by (elim bnd_InrE) (auto dest!: ix open_file_name index_read_world split: prod.splits sum.splits failure.splits)
  then show ?thesis
    using newSegment_file [OF assms] by simp
qed

section \<open>Logs\<close>

abbreviation log_in :: "string \<Rightarrow> string \<Rightarrow> (string \<times> bytes) list option \<Rightarrow> log \<times> os \<Rightarrow> bool" where
  "log_in d e x \<equiv> \<lambda>(l, w). (l_dir l = d \<and> (\<forall>s \<in> set (l_heap l). files_in d s)) \<and> dir_is e x w"

lemma on_segment_dir:
  assumes "keeps (seg_in d e x) m"
  shows "keeps (log_in d e x) (on_segment a m)"
proof (rule keepsI)
  fix s r t
  assume s: "log_in d e x s" and run: "on_segment a m s = (r, t)"
  obtain l w where lw: "s = (l, w)" by (cases s)
  show "log_in d e x t"
  proof (cases "a < length (l_heap l)")
    case True
    obtain g w' where m: "m (l_heap l ! a, w) = (r, (g, w'))" and t: "t = (l\<lparr>l_heap := (l_heap l)[a := g]\<rparr>, w')"
      using run True by (auto simp: lw on_segment_def split: prod.splits)
    have "seg_in d e x (g, w')"
      using s True by (intro keepsD [OF assms m]) (simp add: lw)
    moreover have "set ((l_heap l)[a := g]) \<subseteq> insert g (set (l_heap l))"
      by (rule set_update_subset_insert)
    ultimately show ?thesis
      using s by (auto simp: t lw)
  qed (use run s in \<open>simp add: lw on_segment_def\<close>)
qed

lemma log_newSegment_dir:
  assumes "d \<noteq> e"
  shows "keeps (log_in d e x) (log_newSegment off)"
  unfolding log_newSegment_def
proof (intro keeps_get_st_result)
  fix s :: "log \<times> os"
  assume "log_in d e x s"
  then obtain l w where s: "s = (l, w)" "l_dir l = d"
    by auto
  show "keeps (log_in d e x) (case s of (l, _) \<Rightarrow> bnd (on_os (newSegment (l_dir l) off (l_config l))) (\<lambda>s.
       upd_st (\<lambda>(l, w). (l\<lparr>l_heap := l_heap l @ [s],
         l_segments := l_segments l @ [length (l_heap l)], l_active := Some (length (l_heap l))\<rparr>, w))))"
    unfolding s(1) prod.case s(2)
  proof (intro keeps_bnd_result on_os_dir newSegment_dir assms keeps_upd_st)
    fix g t u and v :: "log \<times> os"
    assume "on_os (newSegment d off (l_config l)) t = (Inr g, u)" and v: "log_in d e x v"
    then have "files_in d g"
      by (auto simp: on_os_def split: prod.splits dest: newSegment_files)
    with v show "log_in d e x (case v of (l, w) \<Rightarrow> (l\<lparr>l_heap := l_heap l @ [g],
         l_segments := l_segments l @ [length (l_heap l)], l_active := Some (length (l_heap l))\<rparr>, w))"
      by auto
  qed
qed

lemma log_append_dir: "d \<noteq> e \<Longrightarrow> keeps (log_in d e x) (log_append cdc r)"
  unfolding log_append_def
  by (intro keeps_intros on_segment_dir segment_append_dir log_newSegment_dir)

lemma log_read_dir: "d \<noteq> e \<Longrightarrow> keeps (log_in d e x) (log_read cdc off)"
  unfolding log_read_def
  by (intro keeps_intros on_segment_dir segment_read_dir)

lemma log_close_dir: "d \<noteq> e \<Longrightarrow> keeps (log_in d e x) log_close"
  unfolding log_close_def
  by (intro keeps_intros on_segment_dir segment_close_dir)

lemma offsets_dir: "keeps (log_in d e x) LowestOffset" "keeps (log_in d e x) HighestOffset"
  unfolding LowestOffset_def HighestOffset_def
  by (rule keepsI; auto simp: prog_simps Let_def split: if_splits list.splits)+

lemma log_setup_dir: "d \<noteq> e \<Longrightarrow> keeps (log_in d e x) log_setup"
  unfolding log_setup_def
  by (intro keeps_intros on_os_dir read_dir_dir log_newSegment_dir)

lemma NewLog_dir:
  assumes "d \<noteq> e" and "NewLog d c w = (r, w')" and "dir_is e x w"
  shows "dir_is e x w'" and "r = Inr l \<Longrightarrow> log_in d e x (l, w')"
proof -
  let ?l = "\<lparr>l_dir = d, l_config = default_config c, l_heap = [], l_segments = [], l_active = None\<rparr>"
  have "log_in d e x (snd (log_setup (?l, w)))"
    using assms(3) by (intro keeps_snd [OF log_setup_dir [OF assms(1)]]) simp
  then show "dir_is e x w'" and "r = Inr l \<Longrightarrow> log_in d e x (l, w')"
    using assms(2) by (auto simp: NewLog_def split: prod.splits sum.splits)
qed

lemma snd_reply_of: "snd (reply_of f y) = snd y"
  by (auto simp: reply_of_def split: prod.splits sum.splits)

lemma log_reopen_dir:
  assumes "d \<noteq> e"
  shows "keeps (log_in d e x) log_reopen"
proof (rule keepsI)
  fix s r t
  assume s: "log_in d e x s" and run: "log_reopen s = (r, t)"
  obtain l w where lw: "s = (l, w)" and d: "l_dir l = d"
    using s by (cases s) auto
  obtain q l1 w1 where close: "log_close (l, w) = (q, (l1, w1))"
    by (metis prod.collapse)
  have l1: "log_in d e x (l1, w1)"
    using keepsD [OF log_close_dir [OF assms] close] s unfolding lw by blast
  show "log_in d e x t"
  proof (cases q)
    case (Inr u)
    obtain y w2 where new: "NewLog d (l_config l) w1 = (y, w2)"
      by (metis prod.collapse)
    have "dir_is e x w2" "\<And>l2. y = Inr l2 \<Longrightarrow> log_in d e x (l2, w2)"
      using NewLog_dir [OF assms new] l1 by simp_all
    then show ?thesis
      using run close new l1 by (auto simp: log_reopen_def lw d Inr split: sum.splits)
  qed (use run close l1 in \<open>auto simp: log_reopen_def lw\<close>)
qed

lemma exec_cmd_dir:
  assumes "d \<noteq> e" and "log_in d e x s"
  shows "log_in d e x (snd (exec_cmd cdc cmd s))"
  using assms(2)
  by (cases cmd; simp only: exec_cmd.simps snd_reply_of)
    (rule keeps_snd, rule log_append_dir log_read_dir offsets_dir log_reopen_dir, (rule assms(1))?, assumption)+

lemma run_cmds_dir:
  assumes "d \<noteq> e" and "log_in d e x s"
  shows "log_in d e x (snd (run_cmds (exec_cmd cdc) cmds s))"
  using assms(2)
proof (induction cmds arbitrary: s)
  case (Cons cmd cmds)
  have "snd (run_cmds (exec_cmd cdc) (cmd # cmds) s) = snd (run_cmds (exec_cmd cdc) cmds (snd (exec_cmd cdc cmd s)))"
    by (simp add: split_beta)
  then show ?case
    using Cons.IH [OF exec_cmd_dir [OF assms(1) Cons.prems]] by (simp only:)
qed (simp only: run_cmds.simps snd_conv)

section \<open>The other log\<close>

text \<open>A log depends on the disk through its own directory only.\<close>

lemma fget_dir_cong: "os_dirs w' d = os_dirs w d \<Longrightarrow> fget w' d n = fget w d n"
  by (simp add: fget_def)

lemma seg_rep_dir:
  assumes "seg_rep cdc d c b rs (s, w)" and "os_dirs w' d = os_dirs w d" and "healthy w'"
  shows "seg_rep cdc d c b rs (s, w')"
  using assms fget_dir_cong [OF assms(2)]
  by (auto simp: seg_rep_def store_rep_def index_rep_def writes_to_def)

lemma chain_dir:
  "chain cdc d c w b ss qs \<Longrightarrow> os_dirs w' d = os_dirs w d \<Longrightarrow> healthy w' \<Longrightarrow> chain cdc d c w' b ss qs"
  by (induction cdc d c w b ss qs rule: chain.induct) (auto intro: seg_rep_dir)

lemma log_rep_other_disk:
  assumes rep: "log_rep cdc d c b rs (l, w)" and dir: "os_dirs w' d = os_dirs w d" and h: "healthy w'"
  shows "log_rep cdc d c b rs (l, w')"
proof -
  have "log_segs cdc d c b qs (l, w) \<Longrightarrow> log_segs cdc d c b qs (l, w')" for qs
    using chain_dir [OF _ dir h] dir h by (simp add: log_segs_def)
  moreover have "dir_names w' d ns = dir_names w d ns" for ns
    by (simp add: dir_names_def dir)
  ultimately show ?thesis
    using rep unfolding log_rep_def prod.case by blast
qed

lemma log_rep_healthy: "log_rep cdc d c b rs (l, w) \<Longrightarrow> healthy w"
  by (auto simp: log_rep_def log_segs_def)

end
