(* ===== verification/Paths.thy ===== *)
theory Paths
  imports Prelude
begin

text \<open>
  \<open>filepath.Join\<close> of the Go standard library, with which \<open>internal/log/distributed/distributed.go\<close>
  names the directories of a node, and the fact that they are apart from each other.
\<close>

section \<open>Cleaning a path\<close>

text \<open>The parts between the slashes of a path.\<close>

fun path_split :: "string \<Rightarrow> string list" where
  "path_split [] = [[]]"
| "path_split (x # xs) = (if x = CHR ''/'' then [] # path_split xs
     else (case path_split xs of [] \<Rightarrow> [[x]] | p # ps \<Rightarrow> (x # p) # ps))"

fun path_concat :: "string list \<Rightarrow> string" where
  "path_concat [] = []"
| "path_concat [p] = p"
| "path_concat (p # q # ps) = p @ ''/'' @ path_concat (q # ps)"

text \<open>
  One part in \<open>filepath.Clean\<close>, over the parts that were kept: empty parts and dots are dropped,
  and two dots remove the part before them, if there is one that is not two dots itself.
\<close>

definition clean_part :: "bool \<Rightarrow> string list \<Rightarrow> string \<Rightarrow> string list" where
  "clean_part rooted kept p =
     (if p = '''' \<or> p = ''.'' then kept
      else if p = ''..'' then
        (if kept \<noteq> [] \<and> last kept \<noteq> ''..'' then butlast kept
         else if rooted then kept
         else kept @ [p])
      else kept @ [p])"

definition path_clean :: "string \<Rightarrow> string" where
  "path_clean path =
     (let rooted = (path \<noteq> [] \<and> hd path = CHR ''/'');
          kept = foldl (clean_part rooted) [] (path_split path)
      in if rooted then ''/'' @ path_concat kept
         else if kept = [] then ''.'' else path_concat kept)"

fun filepath_Join :: "string list \<Rightarrow> string" where
  "filepath_Join [] = ''''"
| "filepath_Join (e # es) = (if e = '''' then filepath_Join es else path_clean (path_concat (e # es)))"

section \<open>Directories below a directory\<close>

text \<open>A name that \<open>Clean\<close> leaves alone.\<close>

definition plain_name :: "string \<Rightarrow> bool" where
  "plain_name p \<longleftrightarrow> p \<noteq> '''' \<and> p \<noteq> ''.'' \<and> p \<noteq> ''..'' \<and> CHR ''/'' \<notin> set p"

lemma path_split_nonempty [simp]: "path_split s \<noteq> []"
  by (induction s) (auto split: list.splits)

lemma path_split_slash: "path_split (a @ CHR ''/'' # b) = path_split a @ path_split b"
proof (induction a)
  case (Cons x a)
  then show ?case
    by (cases "path_split a") auto
qed simp

lemma path_split_name: "CHR ''/'' \<notin> set p \<Longrightarrow> path_split p = [p]"
  by (induction p) auto

lemma path_split_concat:
  assumes "\<forall>p \<in> set ps. plain_name p" and "ps \<noteq> []"
  shows "path_split (path_concat ps) = ps"
  using assms
proof (induction ps rule: path_concat.induct)
  case (3 p q ps)
  then show ?case
    using path_split_slash [of p "path_concat (q # ps)"] by (simp add: path_split_name plain_name_def)
qed (auto simp: path_split_name plain_name_def)

lemma clean_plain: "\<forall>p \<in> set ps. plain_name p \<Longrightarrow> foldl (clean_part rooted) kept ps = kept @ ps"
  by (induction ps arbitrary: kept) (auto simp: clean_part_def plain_name_def)

lemma path_concat_Cons: "ps \<noteq> [] \<Longrightarrow> path_concat (p # ps) = p @ ''/'' @ path_concat ps"
  by (cases ps) auto

lemma path_concat_append:
  "qs \<noteq> [] \<Longrightarrow> path_concat (ps @ qs) = (if ps = [] then '''' else path_concat ps @ ''/'') @ path_concat qs"
proof (induction ps)
  case (Cons p ps)
  then show ?case
    by (cases "ps = []") (simp_all add: path_concat_Cons)
qed simp

text \<open>The directories below a directory all begin with the same path.\<close>

lemma filepath_Join_below:
  "\<exists>pre. \<forall>ps. ps \<noteq> [] \<longrightarrow> (\<forall>p \<in> set ps. plain_name p) \<longrightarrow> filepath_Join (dir # ps) = pre @ path_concat ps"
proof (cases "dir = ''''")
  case True
  have "filepath_Join (dir # ps) = path_concat ps" if ps: "ps \<noteq> []" "\<forall>p \<in> set ps. plain_name p" for ps
  proof -
    obtain q qs where q: "ps = q # qs" "q \<noteq> ''''" "CHR ''/'' \<notin> set q"
      using ps by (cases ps) (auto simp: plain_name_def)
    have "path_concat ps \<noteq> []" "hd (path_concat ps) \<noteq> CHR ''/''"
      using q by (cases qs; cases q; auto)+
    then have "path_clean (path_concat ps) = path_concat ps"
      using ps(1) by (simp add: path_clean_def Let_def path_split_concat [OF ps(2,1)] clean_plain [OF ps(2)])
    then show ?thesis
      using True q by simp
  qed
  then show ?thesis
    by (intro exI [of _ "''''"]) simp
next
  case False
  define rooted where "rooted \<longleftrightarrow> hd dir = CHR ''/''"
  define kept where "kept = foldl (clean_part rooted) [] (path_split dir)"
  define pre where "pre = (if rooted then ''/'' else '''') @ (if kept = [] then '''' else path_concat kept @ ''/'')"
  have "filepath_Join (dir # ps) = pre @ path_concat ps" if ps: "ps \<noteq> []" "\<forall>p \<in> set ps. plain_name p" for ps
  proof -
    have s: "path_split (path_concat (dir # ps)) = path_split dir @ ps"
      using path_split_slash [of dir "path_concat ps"] path_split_concat [OF ps(2,1)] ps(1) by (simp add: path_concat_Cons)
    have r: "path_concat (dir # ps) \<noteq> []" "hd (path_concat (dir # ps)) = hd dir"
      using False ps(1) by (simp_all add: path_concat_Cons)
    have "foldl (clean_part rooted) [] (path_split dir @ ps) = kept @ ps"
      using clean_plain [OF ps(2)] by (simp add: kept_def)
    then have "path_clean (path_concat (dir # ps)) = (if rooted then ''/'' else '''') @ path_concat (kept @ ps)"
      using s r ps(1) unfolding path_clean_def Let_def rooted_def by (cases "hd dir = CHR ''/''") (simp_all del: path_concat.simps foldl_append)
    then show ?thesis
      using False path_concat_append [OF ps(1), of kept] by (simp add: pre_def)
  qed
  then show ?thesis
    by (intro exI [of _ pre]) simp
qed

declare filepath_Join.simps [simp del]

lemma node_dirs_apart:
  "filepath_Join [dir, ''log''] \<noteq> filepath_Join [dir, ''raft'', ''log'']"
proof -
  obtain pre where pre: "\<And>ps. ps \<noteq> [] \<Longrightarrow> \<forall>p \<in> set ps. plain_name p \<Longrightarrow> filepath_Join (dir # ps) = pre @ path_concat ps"
    using filepath_Join_below [of dir] by auto
  show ?thesis
    using pre [of "[''log'']"] pre [of "[''raft'', ''log'']"] by (simp add: plain_name_def)
qed

end
