(* ===== verification/PebbleConfig.thy ===== *)
theory PebbleConfig
  imports Prelude
begin

text \<open>
  Opening the stable store, \<open>internal/raftpebble\<close>: the presets of \<open>config.go\<close>, the functional
  options of \<open>options.go\<close>, and \<open>New\<close> with its event listener of \<open>store.go\<close>. The \<open>pebble\<close>
  package is a parameter.
\<close>

section \<open>The configuration\<close>

record RaftLogRocksDBConfig =
  Shards :: u64
  KVKeepLogFileNum :: u64
  KVMaxBackgroundCompactions :: u64
  KVMaxBackgroundFlushes :: u64
  KVLRUCacheSize :: u64
  KVWriteBufferSize :: u64
  KVMaxWriteBufferNumber :: u64
  KVLevel0FileNumCompactionTrigger :: u64
  KVLevel0SlowdownWritesTrigger :: u64
  KVLevel0StopWritesTrigger :: u64
  KVMaxBytesForLevelBase :: u64
  KVMaxBytesForLevelMultiplier :: u64
  KVTargetFileSizeBase :: u64
  KVTargetFileSizeMultiplier :: u64
  KVLevelCompactionDynamicLevelBytes :: u64
  KVRecycleLogFileNum :: u64
  KVNumOfLevels :: u64
  KVBlockSize :: u64
  SaveBufferSize :: u64
  MaxSaveBufferSize :: u64

definition defaultLogDBShards :: u64 where
  "defaultLogDBShards = 1"

definition getDefaultRaftLogRocksDBConfig :: RaftLogRocksDBConfig where
  "getDefaultRaftLogRocksDBConfig =
     \<lparr>Shards = defaultLogDBShards,
      KVKeepLogFileNum = 16,
      KVMaxBackgroundCompactions = 2,
      KVMaxBackgroundFlushes = 2,
      KVLRUCacheSize = 0,
      KVWriteBufferSize = 128 * 1024 * 1024,
      KVMaxWriteBufferNumber = 4,
      KVLevel0FileNumCompactionTrigger = 8,
      KVLevel0SlowdownWritesTrigger = 17,
      KVLevel0StopWritesTrigger = 24,
      KVMaxBytesForLevelBase = 4 * 1024 * 1024 * 1024,
      KVMaxBytesForLevelMultiplier = 2,
      KVTargetFileSizeBase = 16 * 1024 * 1024,
      KVTargetFileSizeMultiplier = 2,
      KVLevelCompactionDynamicLevelBytes = 0,
      KVRecycleLogFileNum = 0,
      KVNumOfLevels = 7,
      KVBlockSize = 32 * 1024,
      SaveBufferSize = 32 * 1024,
      MaxSaveBufferSize = 64 * 1024 * 1024\<rparr>"

definition GetLargeMemRaftLogRocksDBConfig :: RaftLogRocksDBConfig where
  "GetLargeMemRaftLogRocksDBConfig = getDefaultRaftLogRocksDBConfig"

definition GetDefaultRaftLogRocksDBConfig :: RaftLogRocksDBConfig where
  "GetDefaultRaftLogRocksDBConfig = GetLargeMemRaftLogRocksDBConfig"

definition GetTinyMemRaftLogRocksDBConfig :: RaftLogRocksDBConfig where
  "GetTinyMemRaftLogRocksDBConfig =
     getDefaultRaftLogRocksDBConfig\<lparr>KVWriteBufferSize := 4 * 1024 * 1024, KVMaxWriteBufferNumber := 4\<rparr>"

definition GetSmallMemRaftLogRocksDBConfig :: RaftLogRocksDBConfig where
  "GetSmallMemRaftLogRocksDBConfig =
     getDefaultRaftLogRocksDBConfig\<lparr>KVWriteBufferSize := 16 * 1024 * 1024, KVMaxWriteBufferNumber := 4\<rparr>"

definition GetMediumMemRaftLogRocksDBConfig :: RaftLogRocksDBConfig where
  "GetMediumMemRaftLogRocksDBConfig =
     getDefaultRaftLogRocksDBConfig\<lparr>KVWriteBufferSize := 64 * 1024 * 1024, KVMaxWriteBufferNumber := 4\<rparr>"

definition MemorySizeMB :: "RaftLogRocksDBConfig \<Rightarrow> u64" where
  "MemorySizeMB cfg =
     (let ss = KVWriteBufferSize cfg * KVMaxWriteBufferNumber cfg; bs = ss * Shards cfg in bs div (1024 * 1024))"

definition zeroConfig :: RaftLogRocksDBConfig where
  "zeroConfig = \<lparr>Shards = 0, KVKeepLogFileNum = 0, KVMaxBackgroundCompactions = 0, KVMaxBackgroundFlushes = 0,
     KVLRUCacheSize = 0, KVWriteBufferSize = 0, KVMaxWriteBufferNumber = 0,
     KVLevel0FileNumCompactionTrigger = 0, KVLevel0SlowdownWritesTrigger = 0, KVLevel0StopWritesTrigger = 0,
     KVMaxBytesForLevelBase = 0, KVMaxBytesForLevelMultiplier = 0, KVTargetFileSizeBase = 0,
     KVTargetFileSizeMultiplier = 0, KVLevelCompactionDynamicLevelBytes = 0, KVRecycleLogFileNum = 0,
     KVNumOfLevels = 0, KVBlockSize = 0, SaveBufferSize = 0, MaxSaveBufferSize = 0\<rparr>"

definition IsEmpty :: "RaftLogRocksDBConfig \<Rightarrow> bool" where
  "IsEmpty cfg \<longleftrightarrow> cfg = zeroConfig"

section \<open>The pebble package\<close>

text \<open>
  The fields of \<open>pebble.Options\<close> that \<open>New\<close> sets. A logger, a file system and a cache are values of
  the \<open>pebble\<close> package. An event listener names the method that each kind of event calls.
\<close>

record LevelOptions =
  lo_Compression :: int
  lo_BlockSize :: int
  lo_TargetFileSize :: int

datatype listener_method = OnWALCreated | OnFlushEnd | OnCompactionEnd

record EventListener =
  el_WALCreated :: "listener_method option"
  el_FlushEnd :: "listener_method option"
  el_CompactionEnd :: "listener_method option"

record ('lg, 'fs, 'ch) pebble_Options =
  po_Levels :: "LevelOptions list"
  po_MaxManifestFileSize :: int
  po_MemTableSize :: u64
  po_MemTableStopWritesThreshold :: int
  po_LBaseMaxBytes :: int
  po_L0CompactionFileThreshold :: int
  po_L0StopWritesThreshold :: int
  po_Cache :: 'ch
  po_Logger :: 'lg
  po_FS :: 'fs
  po_WALDir :: string
  po_FormatMajorVersion :: u64
  po_EventListener :: "EventListener option"

text \<open>
  What \<open>New\<close> uses of the package, over its state \<open>'x\<close>: constants, the cache, and a database \<open>'d\<close>
  with the size of its memory tables and the sublevels of its level zero.
\<close>

record ('x, 'd, 'lg, 'fs, 'ch) pebble_pkg =
  pk_DefaultLogger :: 'lg
  pk_DefaultFS :: 'fs
  pk_NoCompression :: int
  pk_FormatNewest :: u64
  pk_NewCache :: "int \<Rightarrow> 'x \<Rightarrow> 'ch \<times> 'x"
  pk_Unref :: "'ch \<Rightarrow> 'x \<Rightarrow> 'x"
  pk_Open :: "string \<Rightarrow> ('lg, 'fs, 'ch) pebble_Options \<Rightarrow> ('x, 'd) prog"
  pk_Metrics :: "'d \<Rightarrow> 'x \<Rightarrow> u64 \<times> int"
  pk_Close :: "'d \<Rightarrow> ('x, unit) prog"

section \<open>The options\<close>

text \<open>The callback gets whether the database is busy.\<close>

record ('x, 'lg, 'fs, 'ch) options =
  o_config :: RaftLogRocksDBConfig
  o_logger :: 'lg
  o_fs :: 'fs
  o_walDir :: string
  o_dir :: string
  o_callback :: "(bool \<Rightarrow> ('x, unit) prog) option"
  o_pebbleOptions :: "('lg, 'fs, 'ch) pebble_Options option"

record ('x, 'lg, 'fs, 'ch) pebbleKVStoreOption =
  op_f :: "('x, 'lg, 'fs, 'ch) options \<Rightarrow> ('x, 'lg, 'fs, 'ch) options"

definition option_apply :: "('x, 'lg, 'fs, 'ch) pebbleKVStoreOption \<Rightarrow> ('x, 'lg, 'fs, 'ch) options \<Rightarrow> ('x, 'lg, 'fs, 'ch) options" where
  "option_apply fdo opt = op_f fdo opt"

definition newOption :: "(('x, 'lg, 'fs, 'ch) options \<Rightarrow> ('x, 'lg, 'fs, 'ch) options) \<Rightarrow> ('x, 'lg, 'fs, 'ch) pebbleKVStoreOption" where
  "newOption f = \<lparr>op_f = f\<rparr>"

definition WithConfig :: "RaftLogRocksDBConfig \<Rightarrow> ('x, 'lg, 'fs, 'ch) pebbleKVStoreOption" where
  "WithConfig config = newOption (\<lambda>opt. opt\<lparr>o_config := config\<rparr>)"

definition WithLogger :: "'lg \<Rightarrow> ('x, 'lg, 'fs, 'ch) pebbleKVStoreOption" where
  "WithLogger logger = newOption (\<lambda>opt. opt\<lparr>o_logger := logger\<rparr>)"

definition WithFS :: "'fs \<Rightarrow> ('x, 'lg, 'fs, 'ch) pebbleKVStoreOption" where
  "WithFS fs = newOption (\<lambda>opt. opt\<lparr>o_fs := fs\<rparr>)"

definition WithWalDirPath :: "string \<Rightarrow> ('x, 'lg, 'fs, 'ch) pebbleKVStoreOption" where
  "WithWalDirPath walDir = newOption (\<lambda>opt. opt\<lparr>o_walDir := walDir\<rparr>)"

definition WithDbDirPath :: "string \<Rightarrow> ('x, 'lg, 'fs, 'ch) pebbleKVStoreOption" where
  "WithDbDirPath dbDir = newOption (\<lambda>opt. opt\<lparr>o_dir := dbDir\<rparr>)"

text \<open>A callback and the options of \<open>pebble\<close> may be nil.\<close>

definition WithLogDBCallback :: "(bool \<Rightarrow> ('x, unit) prog) option \<Rightarrow> ('x, 'lg, 'fs, 'ch) pebbleKVStoreOption" where
  "WithLogDBCallback cb = newOption (\<lambda>opt. opt\<lparr>o_callback := cb\<rparr>)"

definition WithPebbleOptions :: "('lg, 'fs, 'ch) pebble_Options option \<Rightarrow> ('x, 'lg, 'fs, 'ch) pebbleKVStoreOption" where
  "WithPebbleOptions opts = newOption (\<lambda>opt. opt\<lparr>o_pebbleOptions := opts\<rparr>)"

text \<open>The options are applied in order, so a later one overrides an earlier one.\<close>

definition getOptions :: "('x, 'd, 'lg, 'fs, 'ch) pebble_pkg \<Rightarrow> ('x, 'lg, 'fs, 'ch) pebbleKVStoreOption list \<Rightarrow> ('x, 'lg, 'fs, 'ch) options" where
  "getOptions pk opts = fold option_apply opts
     \<lparr>o_config = GetDefaultRaftLogRocksDBConfig, o_logger = pk_DefaultLogger pk, o_fs = pk_DefaultFS pk, o_walDir = '''',
      o_dir = '''', o_callback = None, o_pebbleOptions = None\<rparr>"

section \<open>The store and its events\<close>

text \<open>
  The store: the database, whether the channel \<open>dbSet\<close> is closed, the listener with the state of
  its stopper, the options, and the \<open>Sync\<close> flag of the default write options, which are nil at first.
\<close>

record ('x, 'd, 'lg, 'fs, 'ch) PebbleKVStore =
  kv_db :: "'d option"
  kv_dbSet :: bool
  kv_event :: "bool option"
  kv_options :: "('x, 'lg, 'fs, 'ch) options"
  kv_defaultWriteOpts :: "bool option"

text \<open>
  The worker that \<open>notify\<close> starts: nothing happens before the channel is closed. The goroutine is run
  to its end as one step of the caller.
\<close>

definition kv_notify :: "('x, 'd, 'lg, 'fs, 'ch) pebble_pkg \<Rightarrow> ('x, 'd, 'lg, 'fs, 'ch) PebbleKVStore \<Rightarrow> ('x, unit) prog" where
  "kv_notify pk kv =
     (if \<not> kv_dbSet kv then ret ()
      else (case o_callback (kv_options kv) of
          None \<Rightarrow> ret ()
        | Some callback \<Rightarrow>
            let config = o_config (kv_options kv);
                memSizeThreshold = KVWriteBufferSize config * KVMaxWriteBufferNumber config * 19 div 20;
                l0FileNumThreshold = KVLevel0StopWritesTrigger config - 1
            in (case kv_db kv of
                 None \<Rightarrow> fail (Panic NilDereference)
               | Some db \<Rightarrow> bnd get_st (\<lambda>x. case pk_Metrics pk db x of (memTableSize, sublevels) \<Rightarrow>
                   callback (memSizeThreshold \<le> memTableSize \<or> l0FileNumThreshold \<le> word_of_int sublevels)))))"

definition onCompactionEnd :: "('x, 'd, 'lg, 'fs, 'ch) pebble_pkg \<Rightarrow> ('x, 'd, 'lg, 'fs, 'ch) PebbleKVStore \<Rightarrow> ('x, unit) prog" where
  "onCompactionEnd pk kv = kv_notify pk kv"

definition onFlushEnd :: "('x, 'd, 'lg, 'fs, 'ch) pebble_pkg \<Rightarrow> ('x, 'd, 'lg, 'fs, 'ch) PebbleKVStore \<Rightarrow> ('x, unit) prog" where
  "onFlushEnd pk kv = kv_notify pk kv"

definition onWALCreated :: "('x, 'd, 'lg, 'fs, 'ch) pebble_pkg \<Rightarrow> ('x, 'd, 'lg, 'fs, 'ch) PebbleKVStore \<Rightarrow> ('x, unit) prog" where
  "onWALCreated pk kv = kv_notify pk kv"

text \<open>An event of \<open>pebble\<close> calls the method that the listener has for it.\<close>

datatype pebble_event = WALCreated | FlushEnd | CompactionEnd

definition listener_for :: "EventListener \<Rightarrow> pebble_event \<Rightarrow> listener_method option" where
  "listener_for el ev = (case ev of WALCreated \<Rightarrow> el_WALCreated el | FlushEnd \<Rightarrow> el_FlushEnd el | CompactionEnd \<Rightarrow> el_CompactionEnd el)"

definition call_listener ::
  "('x, 'd, 'lg, 'fs, 'ch) pebble_pkg \<Rightarrow> ('lg, 'fs, 'ch) pebble_Options \<Rightarrow> pebble_event \<Rightarrow> ('x, 'd, 'lg, 'fs, 'ch) PebbleKVStore \<Rightarrow> ('x, unit) prog" where
  "call_listener pk opts ev kv = (case Option.bind (po_EventListener opts) (\<lambda>el. listener_for el ev) of
       None \<Rightarrow> ret ()
     | Some OnWALCreated \<Rightarrow> onWALCreated pk kv
     | Some OnFlushEnd \<Rightarrow> onFlushEnd pk kv
     | Some OnCompactionEnd \<Rightarrow> onCompactionEnd pk kv)"

section \<open>Opening the store\<close>

definition maxLogFileSize :: int where
  "maxLogFileSize = 1024 * 1024 * 128"

text \<open>The loop over the levels; the counter is an \<open>int64\<close> and the size wraps around.\<close>

function level_loop :: "int \<Rightarrow> RaftLogRocksDBConfig \<Rightarrow> int \<Rightarrow> u64 \<Rightarrow> LevelOptions list" where
  "level_loop noCompression config l sz =
     (if l < sint (KVNumOfLevels config) then
        \<lparr>lo_Compression = noCompression, lo_BlockSize = sint (KVBlockSize config), lo_TargetFileSize = sint sz\<rparr>
          # level_loop noCompression config (l + 1) (sz * KVTargetFileSizeMultiplier config)
      else [])"
  by pat_completeness auto
termination
  by (relation "measure (\<lambda>(_, config, l, _). nat (sint (KVNumOfLevels config) - l))") auto

declare level_loop.simps [simp del]

definition kv_pebble_Options :: "('x, 'd, 'lg, 'fs, 'ch) pebble_pkg \<Rightarrow> ('x, 'lg, 'fs, 'ch) options \<Rightarrow> 'ch \<Rightarrow> ('lg, 'fs, 'ch) pebble_Options" where
  "kv_pebble_Options pk kvStoreOpts cache = (let config = o_config kvStoreOpts in
     \<lparr>po_Levels = level_loop (pk_NoCompression pk) config 0 (KVTargetFileSizeBase config),
      po_MaxManifestFileSize = maxLogFileSize,
      po_MemTableSize = KVWriteBufferSize config,
      po_MemTableStopWritesThreshold = sint (KVMaxWriteBufferNumber config),
      po_LBaseMaxBytes = sint (KVMaxBytesForLevelBase config),
      po_L0CompactionFileThreshold = sint (KVLevel0FileNumCompactionTrigger config),
      po_L0StopWritesThreshold = sint (KVLevel0StopWritesTrigger config),
      po_Cache = cache,
      po_Logger = o_logger kvStoreOpts,
      po_FS = o_fs kvStoreOpts,
      po_WALDir = o_walDir kvStoreOpts,
      po_FormatMajorVersion = pk_FormatNewest pk,
      po_EventListener = Some \<lparr>el_WALCreated = Some OnWALCreated, el_FlushEnd = Some OnFlushEnd, el_CompactionEnd = Some OnCompactionEnd\<rparr>\<rparr>)"

definition setEventListener ::
  "('x, 'd, 'lg, 'fs, 'ch) pebble_pkg \<Rightarrow> ('x, 'd, 'lg, 'fs, 'ch) PebbleKVStore \<Rightarrow> ('x, ('x, 'd, 'lg, 'fs, 'ch) PebbleKVStore) prog" where
  "setEventListener pk s =
     (if kv_db s = None \<or> kv_event s \<noteq> None then fail (Panic (PanicMsg ''unexpected kv state''))
      else if kv_dbSet s then fail (Panic CloseOfClosedChannel)
      else (let s' = s\<lparr>kv_event := Some False, kv_dbSet := True\<rparr> in andthen (onWALCreated pk s') (ret s')))"

definition kv_New ::
  "('x, 'd, 'lg, 'fs, 'ch) pebble_pkg \<Rightarrow> ('x, 'lg, 'fs, 'ch) pebbleKVStoreOption list \<Rightarrow> ('x, ('x, 'd, 'lg, 'fs, 'ch) PebbleKVStore) prog" where
  "kv_New pk options = (\<lambda>x.
     let kvStoreOpts = getOptions pk options in
     (case pk_NewCache pk (sint (KVLRUCacheSize (o_config kvStoreOpts))) x of (cache, x1) \<Rightarrow>
        let opts = (case o_pebbleOptions kvStoreOpts of None \<Rightarrow> kv_pebble_Options pk kvStoreOpts cache | Some po \<Rightarrow> po) in
        bnd (pk_Open pk (o_dir kvStoreOpts) opts) (\<lambda>pdb.
          andthen (upd_st (pk_Unref pk cache))
            (bnd (setEventListener pk
                \<lparr>kv_db = Some pdb, kv_dbSet = False, kv_event = None, kv_options = kvStoreOpts, kv_defaultWriteOpts = None\<rparr>)
              (\<lambda>kv. ret (kv\<lparr>kv_defaultWriteOpts := Some False\<rparr>)))) x1))"

text \<open>\<open>Close\<close> stops the listener and closes the database.\<close>

definition eventListener_close :: "('x, 'd, 'lg, 'fs, 'ch) PebbleKVStore \<Rightarrow> ('x, 'd, 'lg, 'fs, 'ch) PebbleKVStore res" where
  "eventListener_close s = (case kv_event s of
       None \<Rightarrow> Inl (Panic NilDereference)
     | Some _ \<Rightarrow> Inr (s\<lparr>kv_event := Some True\<rparr>))"

definition kv_Close ::
  "('x, 'd, 'lg, 'fs, 'ch) pebble_pkg \<Rightarrow> (('x, 'd, 'lg, 'fs, 'ch) PebbleKVStore \<times> 'x, unit) prog" where
  "kv_Close pk = (\<lambda>(s, x). case eventListener_close s of
       Inl f \<Rightarrow> (Inl f, (s, x))
     | Inr s' \<Rightarrow> (case kv_db s' of
           None \<Rightarrow> (Inl (Panic NilDereference), (s', x))
         | Some db \<Rightarrow> (case pk_Close pk db x of (r, x') \<Rightarrow> (r, (s', x')))))"

section \<open>Properties\<close>

lemma level_loop_closed:
  "level_loop nc config l sz = map (\<lambda>i. \<lparr>lo_Compression = nc, lo_BlockSize = sint (KVBlockSize config),
       lo_TargetFileSize = sint (sz * KVTargetFileSizeMultiplier config ^ i)\<rparr>)
     [0..<nat (sint (KVNumOfLevels config) - l)]"
proof (induction nc config l sz rule: level_loop.induct)
  case (1 nc config l sz)
  show ?case
  proof (cases "l < sint (KVNumOfLevels config)")
    case True
    then have "nat (sint (KVNumOfLevels config) - l) = Suc (nat (sint (KVNumOfLevels config) - (l + 1)))"
      by simp
    then show ?thesis
      using 1 [OF True] True
      by (simp add: level_loop.simps [of nc config l] map_upt_Suc mult.assoc del: upt_Suc)
  qed (simp add: level_loop.simps)
qed

lemmas option_defs = option_apply_def newOption_def WithConfig_def WithLogger_def WithFS_def WithWalDirPath_def
  WithDbDirPath_def WithLogDBCallback_def WithPebbleOptions_def

lemmas listener_defs = call_listener_def listener_for_def onWALCreated_def onFlushEnd_def onCompactionEnd_def

text \<open>The options as \<open>setupRaft\<close> gives them.\<close>

abbreviation stable_options :: "string \<Rightarrow> 'lg \<Rightarrow> ('x, 'lg, 'fs, 'ch) pebbleKVStoreOption list" where
  "stable_options dir logger \<equiv> [WithDbDirPath dir, WithLogger logger]"

lemma getOptions_stable:
  "o_config (getOptions pk (stable_options dir logger)) = getDefaultRaftLogRocksDBConfig"
  "o_dir (getOptions pk (stable_options dir logger)) = dir" "o_logger (getOptions pk (stable_options dir logger)) = logger"
  "o_fs (getOptions pk (stable_options dir logger)) = pk_DefaultFS pk"
  "o_callback (getOptions pk (stable_options dir logger)) = None"
  "o_pebbleOptions (getOptions pk (stable_options dir logger)) = None"
  by (simp_all add: getOptions_def option_defs GetDefaultRaftLogRocksDBConfig_def GetLargeMemRaftLogRocksDBConfig_def)

text \<open>What \<open>New\<close> does when there are no options of \<open>pebble\<close> and no callback.\<close>

lemma kv_New_run:
  assumes "o_pebbleOptions (getOptions pk options) = None" and "o_callback (getOptions pk options) = None"
    and "pk_NewCache pk (sint (KVLRUCacheSize (o_config (getOptions pk options)))) x = (cache, x1)"
    and "pk_Open pk (o_dir (getOptions pk options)) (kv_pebble_Options pk (getOptions pk options) cache) x1 = (r, x2)"
  shows "kv_New pk options x = (case r of
      Inl f \<Rightarrow> (Inl f, x2)
    | Inr pdb \<Rightarrow> (Inr \<lparr>kv_db = Some pdb, kv_dbSet = True, kv_event = Some False, kv_options = getOptions pk options,
        kv_defaultWriteOpts = Some False\<rparr>, pk_Unref pk cache x2))"
  using assms
  by (simp add: kv_New_def setEventListener_def onWALCreated_def kv_notify_def prog_simps Let_def split: sum.split)

lemma kv_New_opens:
  assumes "I x" and "\<And>n x. I x \<Longrightarrow> I (snd (pk_NewCache pk n x))" and "\<And>ch x. I x \<Longrightarrow> I (pk_Unref pk ch x)"
    and "\<And>opts x. I x \<Longrightarrow> \<exists>db x'. pk_Open pk dir opts x = (Inr db, x') \<and> I x'"
  shows "\<exists>kv x'. kv_New pk (stable_options dir lg) x = (Inr kv, x') \<and> I x'"
proof -
  note o = getOptions_stable [of pk dir lg]
  let ?o = "getOptions pk (stable_options dir lg)"
  obtain cache x1 where c: "pk_NewCache pk (sint (KVLRUCacheSize (o_config ?o))) x = (cache, x1)"
    by (metis surj_pair)
  have "I x1"
    using assms(1,2) c by (metis snd_conv)
  then obtain db x2 where "pk_Open pk dir (kv_pebble_Options pk ?o cache) x1 = (Inr db, x2)" "I x2"
    using assms(4) by blast
  then show ?thesis
    using kv_New_run [OF o(6,5), of x cache x1 "Inr db" x2] c assms(3) by (simp add: o)
qed

text \<open>
  C33: \<open>New\<close> as \<open>setupRaft\<close> calls it opens the directory it is given, with seven levels without
  compression whose target sizes double from 16 MB on, and gives back a store that holds the opened
  database and whose writes are not synced, after it has released its reference to the cache; when
  \<open>pebble\<close> does not open the directory its error is returned. The panic of \<open>setEventListener\<close> is
  not reached. The listener takes every event to \<open>notify\<close>, which does nothing for an event that
  \<open>pebble\<close> reports while it opens the database.
\<close>

theorem kv_new_stable:
  fixes pk :: "('x, 'd, 'lg, 'fs, 'ch) pebble_pkg"
  assumes "pk_NewCache pk 0 x = (cache, x1)"
  shows "\<exists>opts. map lo_TargetFileSize (po_Levels opts) = map (\<lambda>i. 2 ^ 24 * 2 ^ i) [0..<7] \<and>
    (\<forall>l \<in> set (po_Levels opts). lo_Compression l = pk_NoCompression pk) \<and>
    po_MemTableSize opts = 2 ^ 27 \<and> po_Logger opts = logger \<and> po_FS opts = pk_DefaultFS pk \<and> po_Cache opts = cache \<and>
    (\<forall>ev kv y. call_listener pk opts ev kv = kv_notify pk kv \<and> (\<not> kv_dbSet kv \<longrightarrow> call_listener pk opts ev kv y = (Inr (), y))) \<and>
    kv_New pk (stable_options dir logger) x =
      (case pk_Open pk dir opts x1 of
         (Inl f, x2) \<Rightarrow> (Inl f, x2)
       | (Inr pdb, x2) \<Rightarrow> (Inr \<lparr>kv_db = Some pdb, kv_dbSet = True, kv_event = Some False,
           kv_options = getOptions pk (stable_options dir logger), kv_defaultWriteOpts = Some False\<rparr>, pk_Unref pk cache x2))"
proof -
  let ?o = "getOptions pk (stable_options dir logger)" and ?c = "getDefaultRaftLogRocksDBConfig"
  let ?p = "kv_pebble_Options pk ?o cache"
  note o = getOptions_stable [of pk dir logger]
  have c: "KVNumOfLevels ?c = 7" "KVTargetFileSizeMultiplier ?c = 2" "KVTargetFileSizeBase ?c = 2 ^ 24"
      "KVWriteBufferSize ?c = 2 ^ 27" "KVLRUCacheSize ?c = 0"
    by (simp_all add: getDefaultRaftLogRocksDBConfig_def)
  have levels: "map lo_TargetFileSize (po_Levels ?p) = map (\<lambda>i. 2 ^ 24 * 2 ^ i) [0..<7]"
      "\<forall>l \<in> set (po_Levels ?p). lo_Compression l = pk_NoCompression pk"
    by (simp_all add: kv_pebble_Options_def Let_def o level_loop_closed c upt_rec)
  have calls: "call_listener pk ?p ev kv = kv_notify pk kv" for ev kv
    by (cases ev) (simp_all add: listener_defs kv_pebble_Options_def Let_def)
  have fields: "po_MemTableSize ?p = 2 ^ 27" "po_Logger ?p = logger" "po_FS ?p = pk_DefaultFS pk" "po_Cache ?p = cache"
    by (simp_all add: kv_pebble_Options_def Let_def o c)
  obtain r x2 where "pk_Open pk dir ?p x1 = (r, x2)"
    by (cases "pk_Open pk dir ?p x1")
  then have "kv_New pk (stable_options dir logger) x =
      (case pk_Open pk dir ?p x1 of
         (Inl f, x2) \<Rightarrow> (Inl f, x2)
       | (Inr pdb, x2) \<Rightarrow> (Inr \<lparr>kv_db = Some pdb, kv_dbSet = True, kv_event = Some False, kv_options = ?o,
           kv_defaultWriteOpts = Some False\<rparr>, pk_Unref pk cache x2))"
    using kv_New_run [OF o(6,5), of x cache x1 r x2] assms by (simp add: o c)
  then show ?thesis
    using levels calls fields by (intro exI [of _ ?p]) (simp add: kv_notify_def prog_simps)
qed

text \<open>A package whose database is the name of its directory and whose state counts the references to caches.\<close>

definition demo_pebble :: "(int, string, unit, unit, nat) pebble_pkg" where
  "demo_pebble =
     \<lparr>pk_DefaultLogger = (), pk_DefaultFS = (), pk_NoCompression = 1, pk_FormatNewest = 16,
      pk_NewCache = (\<lambda>_ n. (nat n, n + 1)), pk_Unref = (\<lambda>_ n. n - 1),
      pk_Open = (\<lambda>dir _. if dir = '''' then fail (Error EINVAL) else ret dir),
      pk_Metrics = (\<lambda>_ _. (0, 0)), pk_Close = (\<lambda>_. ret ())\<rparr>"

theorem kv_new_stable_witness:
  "\<exists>kv. kv_New demo_pebble (stable_options ''raft/stable'' ()) 0 = (Inr kv, 0) \<and> kv_db kv = Some ''raft/stable'' \<and> kv_dbSet kv \<and>
     kv_New demo_pebble (stable_options '''' ()) 0 = (Inl (Error EINVAL), 1)"
proof -
  have c: "pk_NewCache demo_pebble 0 0 = (0, 1)"
    by (simp add: demo_pebble_def)
  from kv_new_stable [OF c, of "()" "''raft/stable''"] kv_new_stable [OF c, of "()" "''''"] show ?thesis
    by (auto simp: demo_pebble_def prog_simps)
qed

text \<open>
  The memory that the presets may use is 16, 64, 256 and 512 MB, with the one shard that
  the store has, and none of them is the empty configuration. The product of \<open>MemorySizeMB\<close> is a
  64-bit one: \<open>2 ^ 20\<close> buffers of \<open>2 ^ 44\<close> bytes count as no memory.
\<close>

theorem kv_memory_size:
  "map MemorySizeMB [GetTinyMemRaftLogRocksDBConfig, GetSmallMemRaftLogRocksDBConfig,
     GetMediumMemRaftLogRocksDBConfig, GetLargeMemRaftLogRocksDBConfig, GetDefaultRaftLogRocksDBConfig] =
     [16, 64, 256, 512, 512] \<and>
   \<not> IsEmpty GetTinyMemRaftLogRocksDBConfig \<and> \<not> IsEmpty GetDefaultRaftLogRocksDBConfig \<and> IsEmpty zeroConfig \<and>
   MemorySizeMB (cfg\<lparr>KVWriteBufferSize := 2 ^ 44, KVMaxWriteBufferNumber := 2 ^ 20\<rparr>) = 0"
proof -
  have zero: "(18446744073709551616 :: u64) = 0"
    by simp
  show ?thesis
    by (simp add: MemorySizeMB_def GetTinyMemRaftLogRocksDBConfig_def GetSmallMemRaftLogRocksDBConfig_def
      GetMediumMemRaftLogRocksDBConfig_def GetLargeMemRaftLogRocksDBConfig_def GetDefaultRaftLogRocksDBConfig_def
      getDefaultRaftLogRocksDBConfig_def IsEmpty_def zeroConfig_def defaultLogDBShards_def Let_def zero)
qed

end
