(* ===== verification/StreamLayer.thy ===== *)
theory StreamLayer
  imports Prelude
begin

text \<open>
  The connections of \<open>raft\<close>, \<open>internal/log/distributed/stream_layer.go\<close>: a connection begins
  with one byte that tells the multiplexer and the accepting side that it belongs to \<open>raft\<close>.
\<close>

section \<open>Connections\<close>

datatype tls_role = TLSClient | TLSServer

text \<open>
  A \<open>net.Conn\<close>: the bytes that the peer has sent and the error after them, the bytes written
  here, the error that a write reports, and the role of the TLS layer around it.
\<close>

record conn =
  cn_in :: bytes
  cn_in_err :: goerr
  cn_out :: bytes
  cn_out_err :: "goerr option"
  cn_tls :: "tls_role option"

definition RaftRPC :: byte where
  "RaftRPC = 1"

text \<open>\<open>conn.Read\<close> into a slice of length one.\<close>

definition conn_read1 :: "conn \<Rightarrow> goerr + byte \<times> conn" where
  "conn_read1 c = (case cn_in c of [] \<Rightarrow> Inl (cn_in_err c) | x # xs \<Rightarrow> Inr (x, c\<lparr>cn_in := xs\<rparr>))"

definition conn_write :: "bytes \<Rightarrow> conn \<Rightarrow> goerr + conn" where
  "conn_write p c = (case cn_out_err c of Some e \<Rightarrow> Inl e | None \<Rightarrow> Inr (c\<lparr>cn_out := cn_out c @ p\<rparr>))"

section \<open>The stream layer\<close>

text \<open>The listener is given by what its \<open>Accept\<close> returns; a TLS configuration is present or nil.\<close>

record stream_layer =
  ly_serverTLS :: bool
  ly_peerTLS :: bool

definition NewStreamLayer :: "bool \<Rightarrow> bool \<Rightarrow> stream_layer" where
  "NewStreamLayer serverTLS peerTLS = \<lparr>ly_serverTLS = serverTLS, ly_peerTLS = peerTLS\<rparr>"

definition StreamLayer_Accept :: "stream_layer \<Rightarrow> goerr + conn \<Rightarrow> goerr + conn" where
  "StreamLayer_Accept s accepted = (case accepted of
       Inl e \<Rightarrow> Inl e
     | Inr c \<Rightarrow> (case conn_read1 c of
           Inl e \<Rightarrow> Inl e
         | Inr (b, c') \<Rightarrow>
             if b \<noteq> RaftRPC then Inl (ErrMsg ''not a raft rpc'')
             else if ly_serverTLS s then Inr (c'\<lparr>cn_tls := Some TLSServer\<rparr>)
             else Inr c'))"

definition StreamLayer_Dial :: "stream_layer \<Rightarrow> goerr + conn \<Rightarrow> goerr + conn" where
  "StreamLayer_Dial s dialed = (case dialed of
       Inl e \<Rightarrow> Inl e
     | Inr c \<Rightarrow> (case conn_write [RaftRPC] c of
           Inl e \<Rightarrow> Inl e
         | Inr c' \<Rightarrow> if ly_peerTLS s then Inr (c'\<lparr>cn_tls := Some TLSClient\<rparr>) else Inr c'))"

text \<open>\<open>Addr\<close> and \<open>Close\<close> are those of the listener, over its state \<open>'w\<close>.\<close>

definition StreamLayer_Addr :: "('w \<Rightarrow> string) \<Rightarrow> 'w \<Rightarrow> string" where
  "StreamLayer_Addr ln_Addr = ln_Addr"

definition StreamLayer_Close :: "('w, unit) prog \<Rightarrow> ('w, unit) prog" where
  "StreamLayer_Close ln_Close = ln_Close"

section \<open>Properties\<close>

text \<open>
  What \<open>Dial\<close> sends is what \<open>Accept\<close> expects. When a dialled connection is accepted at the
  other end, \<open>Accept\<close> succeeds, has consumed exactly the identifying byte, so that the TLS
  handshake or the first \<open>raft\<close> message follows, and both ends agree on whether TLS is used if
  both sides were configured alike; a connection with another first byte is refused.
\<close>

theorem stream_layer_handshake:
  assumes "StreamLayer_Dial client (Inr c) = Inr c'" and "cn_out c = []"
    and "cn_in peer = cn_out c' @ rest" and "cn_tls c = None" and "cn_tls peer = None"
  shows "\<exists>p. StreamLayer_Accept server (Inr peer) = Inr p \<and> cn_in p = rest \<and>
    (ly_peerTLS client = ly_serverTLS server \<longrightarrow> (cn_tls c' = None \<longleftrightarrow> cn_tls p = None)) \<and>
    (\<forall>b xs. b \<noteq> RaftRPC \<longrightarrow>
       StreamLayer_Accept server (Inr (peer\<lparr>cn_in := b # xs\<rparr>)) = Inl (ErrMsg ''not a raft rpc''))"
  using assms
  by (auto simp: StreamLayer_Dial_def StreamLayer_Accept_def conn_write_def conn_read1_def
      split: option.splits if_splits)

definition demo_conn :: conn where
  "demo_conn = \<lparr>cn_in = [], cn_in_err = EOF, cn_out = [], cn_out_err = None, cn_tls = None\<rparr>"

theorem stream_layer_handshake_witness:
  "\<exists>c' p. StreamLayer_Dial (NewStreamLayer True True) (Inr demo_conn) = Inr c' \<and>
     StreamLayer_Accept (NewStreamLayer True True) (Inr (demo_conn\<lparr>cn_in := cn_out c' @ [22, 3]\<rparr>)) = Inr p \<and>
     cn_in p = [22, 3] \<and> cn_tls p = Some TLSServer"
proof -
  let ?c = "demo_conn\<lparr>cn_out := [RaftRPC], cn_tls := Some TLSClient\<rparr>"
  have "StreamLayer_Dial (NewStreamLayer True True) (Inr demo_conn) = Inr ?c"
    by (simp add: StreamLayer_Dial_def conn_write_def demo_conn_def NewStreamLayer_def)
  with stream_layer_handshake [OF this, of "demo_conn\<lparr>cn_in := [RaftRPC, 22, 3]\<rparr>" "[22, 3]" "NewStreamLayer True True"]
  show ?thesis
    by (auto simp: demo_conn_def NewStreamLayer_def StreamLayer_Accept_def conn_read1_def)
qed

end
