(* ===== verification/Distributed.thy ===== *)
theory Distributed
  imports Fsm LogStore TwoLogs Paths PebbleConfig StreamLayer
begin

text \<open>
  The replicated log of a node, \<open>internal/log/distributed/distributed.go\<close>. The \<open>raft\<close> package
  is not part of the repository: what the node calls of it is a parameter.
\<close>

section \<open>The raft package\<close>

record server =
  sv_id :: string
  sv_addr :: string

text \<open>
  The methods of \<open>*raft.Raft\<close> that the node calls, over a state \<open>'s\<close> of the node. A future's
  \<open>Error()\<close> is the failure of the method, its \<open>Response()\<close> the result.
\<close>

record 's raft =
  rf_Apply :: "bytes \<Rightarrow> ('s, response) prog"
  rf_GetConfiguration :: "('s, server list) prog"
  rf_RemoveServer :: "string \<Rightarrow> ('s, unit) prog"
  rf_AddVoter :: "string \<Rightarrow> string \<Rightarrow> ('s, unit) prog"
  rf_Shutdown :: "('s, unit) prog"

section \<open>Append and Read\<close>

text \<open>The state of the node is that of \<open>raft\<close> and the log that the state machine writes to.\<close>

definition on_log :: "(log \<times> os, 'a) prog \<Rightarrow> ('r \<times> log \<times> os, 'a) prog" where
  "on_log m = (\<lambda>(k, s). case m s of (r, s') \<Rightarrow> (r, (k, s')))"

definition dist_apply :: "req_codec \<Rightarrow> 's raft \<Rightarrow> byte \<Rightarrow> log_record option \<Rightarrow> ('s, response) prog" where
  "dist_apply q rf reqType req = (case q_marshal q req of
       Inl e \<Rightarrow> fail (Error e)
     | Inr b \<Rightarrow> bnd (rf_Apply rf (reqType # b)) (\<lambda>res. case res of
           RespError e \<Rightarrow> fail (Error e)
         | _ \<Rightarrow> ret res))"

definition dist_Append :: "req_codec \<Rightarrow> 's raft \<Rightarrow> log_record option \<Rightarrow> ('s, u64) prog" where
  "dist_Append q rf record = bnd (dist_apply q rf AppendRequestType record) (\<lambda>res. case res of
       ProduceResponse off \<Rightarrow> ret off
     | _ \<Rightarrow> fail (Panic TypeAssertion))"

definition dist_Read :: "codec \<Rightarrow> u64 \<Rightarrow> ('r \<times> log \<times> os, log_record) prog" where
  "dist_Read cdc off = on_log (log_read cdc off)"

definition dist_Close :: "('r \<times> log \<times> os) raft \<Rightarrow> ('r \<times> log \<times> os, unit) prog" where
  "dist_Close rf = andthen (rf_Shutdown rf) (on_log log_close)"

section \<open>Membership of the cluster\<close>

text \<open>
  The loop of \<open>Join\<close> over the servers of the configuration; it ends by adding the voter. The error of
  a removal is formatted into the message, which \<open>Wrap\<close> stands for.
\<close>

primrec join_loop :: "'s raft \<Rightarrow> string \<Rightarrow> string \<Rightarrow> server list \<Rightarrow> ('s, unit) prog" where
  "join_loop rf sid addr [] = rf_AddVoter rf sid addr"
| "join_loop rf sid addr (srv # srvs) =
     (if sv_id srv = sid \<or> sv_addr srv = addr then
        if sv_addr srv = addr \<and> sv_id srv = sid then ret ()
        else andthen (wrapf (''error removing existing node '' @ sid @ '' at '' @ addr) (rf_RemoveServer rf sid))
          (join_loop rf sid addr srvs)
      else join_loop rf sid addr srvs)"

definition dist_Join :: "'s raft \<Rightarrow> string \<Rightarrow> string \<Rightarrow> ('s, unit) prog" where
  "dist_Join rf sid addr = bnd (rf_GetConfiguration rf) (join_loop rf sid addr)"

definition dist_Leave :: "'s raft \<Rightarrow> string \<Rightarrow> ('s, unit) prog" where
  "dist_Leave rf sid = rf_RemoveServer rf sid"

text \<open>
  \<open>WaitForLeader\<close> waits for the first of its two channels: the events are the ticks, each with
  the address that \<open>LeaderWithID\<close> returns then, and the timeout. No result: it is still waiting.
\<close>

datatype wait_event = Tick string | TimedOut

fun WaitForLeader :: "wait_event list \<Rightarrow> unit res option" where
  "WaitForLeader [] = None"
| "WaitForLeader (TimedOut # _) = Some (Inl (Error (ErrMsg ''timed out waiting for leader'')))"
| "WaitForLeader (Tick addr # evs) = (if addr \<noteq> '''' then Some (Inr ()) else WaitForLeader evs)"

section \<open>Setting up a node\<close>

definition dist_setupLog :: "string \<Rightarrow> seg_config \<Rightarrow> (os, log) prog" where
  "dist_setupLog dataDir c = (let logDir = filepath_Join [dataDir, ''log''] in
     andthen (mkdir_all logDir) (NewLog logDir c))"

text \<open>The part of \<open>raft.Config\<close> that the node sets; the durations are in nanoseconds.\<close>

record raft_config =
  rc_LocalID :: string
  rc_HeartbeatTimeout :: int
  rc_ElectionTimeout :: int
  rc_LeaderLeaseTimeout :: int
  rc_CommitTimeout :: int

definition raft_settings :: "raft_config \<Rightarrow> raft_config \<Rightarrow> raft_config" where
  "raft_settings dflt c =
     \<lparr>rc_LocalID = rc_LocalID c,
      rc_HeartbeatTimeout = (if rc_HeartbeatTimeout c \<noteq> 0 then rc_HeartbeatTimeout c else rc_HeartbeatTimeout dflt),
      rc_ElectionTimeout = (if rc_ElectionTimeout c \<noteq> 0 then rc_ElectionTimeout c else rc_ElectionTimeout dflt),
      rc_LeaderLeaseTimeout = (if rc_LeaderLeaseTimeout c \<noteq> 0 then rc_LeaderLeaseTimeout c else rc_LeaderLeaseTimeout dflt),
      rc_CommitTimeout = (if rc_CommitTimeout c \<noteq> 0 then rc_CommitTimeout c else rc_CommitTimeout dflt)\<rparr>"

text \<open>
  \<open>log.Config\<close> and \<open>log.Raft\<close> of \<open>internal/log/config.go\<close>.
\<close>

record log_Raft =
  lr_Config :: raft_config
  lr_StreamLayer :: stream_layer
  lr_Bootstrap :: bool

record log_Config =
  cf_Raft :: log_Raft
  cf_Segment :: seg_config

text \<open>
  What \<open>setupRaft\<close> calls of the \<open>raft\<close> package: the snapshot store on a directory, the transport on
  a stream layer with its pool and its timeout, \<open>DefaultConfig\<close>, \<open>NewRaft\<close>, \<open>HasExistingState\<close> and
  \<open>BootstrapCluster\<close>. Its own state \<open>'x\<close> is shared with the \<open>pebble\<close> package. \<open>raft\<close> also holds the
  log of the state machine, its log store and the disk that both are on.
\<close>

type_synonym 'x node_state = "'x \<times> log \<times> logStore \<times> os"

record ('x, 'st, 'sn, 'tr, 'rf) raft_pkg =
  rp_NewFileSnapshotStore :: "string \<Rightarrow> nat \<Rightarrow> ('x, 'sn) prog"
  rp_NewNetworkTransport :: "stream_layer \<Rightarrow> nat \<Rightarrow> int \<Rightarrow> 'tr"
  rp_LocalAddr :: "'tr \<Rightarrow> string"
  rp_DefaultConfig :: raft_config
  rp_NewRaft :: "raft_config \<Rightarrow> 'st \<Rightarrow> 'sn \<Rightarrow> 'tr \<Rightarrow> ('x node_state, 'rf) prog"
  rp_HasExistingState :: "'st \<Rightarrow> 'sn \<Rightarrow> ('x node_state, bool) prog"
  rp_BootstrapCluster :: "'rf \<Rightarrow> server list \<Rightarrow> ('x node_state, unit) prog"

type_synonym ('x, 'd, 'lg, 'fs, 'ch, 'sn, 'tr, 'rf) node_pkg =
  "('x, 'd, 'lg, 'fs, 'ch) pebble_pkg \<times> ('x, ('x, 'd, 'lg, 'fs, 'ch) PebbleKVStore, 'sn, 'tr, 'rf) raft_pkg"

definition on_pkg :: "('x, 'a) prog \<Rightarrow> ('x \<times> os, 'a) prog" where
  "on_pkg m = (\<lambda>(x, w). case m x of (r, x') \<Rightarrow> (r, (x', w)))"

text \<open>One second, in nanoseconds.\<close>

definition time_Second :: int where
  "time_Second = 1000000000"

text \<open>The last part of \<open>setupRaft\<close>, from \<open>NewRaft\<close> on.\<close>

definition dist_startRaft ::
  "('x, 'st, 'sn, 'tr, 'rf) raft_pkg \<Rightarrow> log_Raft \<Rightarrow> 'st \<Rightarrow> 'sn \<Rightarrow> ('x node_state, 'rf) prog" where
  "dist_startRaft pkg c sdb fss =
     (let transport = rp_NewNetworkTransport pkg (lr_StreamLayer c) 5 (10 * time_Second);
          config = raft_settings (rp_DefaultConfig pkg) (lr_Config c) in
      bnd (rp_NewRaft pkg config sdb fss transport) (\<lambda>rf.
      bnd (rp_HasExistingState pkg sdb fss) (\<lambda>hasState.
        if lr_Bootstrap c \<and> \<not> hasState then
          andthen (rp_BootstrapCluster pkg rf [\<lparr>sv_id = rc_LocalID config, sv_addr = rp_LocalAddr pkg transport\<rparr>]) (ret rf)
        else ret rf)))"

definition with_logs :: "log \<Rightarrow> logStore \<Rightarrow> ('x node_state, 'a) prog \<Rightarrow> ('x \<times> os, log \<times> logStore \<times> 'a) prog" where
  "with_logs l ldb m = (\<lambda>(x, w). case m (x, l, ldb, w) of
       (Inl f, (x', _, _, w')) \<Rightarrow> (Inl f, (x', w'))
     | (Inr r, (x', l', ldb', w')) \<Rightarrow> (Inr (l', ldb', r), (x', w')))"

definition dist_setupRaft ::
  "('x, 'd, 'lg, 'fs, 'ch, 'sn, 'tr, 'rf) node_pkg \<Rightarrow> string \<Rightarrow> log_Config \<Rightarrow> log \<Rightarrow> ('x \<times> os, log \<times> logStore \<times> 'rf) prog" where
  "dist_setupRaft pkgs dataDir c fsm = (case pkgs of (pk, pkg) \<Rightarrow>
     let logDir = filepath_Join [dataDir, ''raft'', ''log'']; logConfig = (cf_Segment c)\<lparr>InitialOffset := 1\<rparr> in
      andthen (on_os (mkdir_all logDir))
     (bnd (on_os (newLogStore logDir logConfig)) (\<lambda>ldb.
      bnd (on_pkg (kv_New pk [WithDbDirPath (filepath_Join [dataDir, ''raft'', ''stable'']), WithLogger (pk_DefaultLogger pk)])) (\<lambda>sdb.
      bnd (on_pkg (rp_NewFileSnapshotStore pkg (filepath_Join [dataDir, ''raft'']) 1)) (\<lambda>fss.
        with_logs fsm ldb (dist_startRaft pkg (cf_Raft c) sdb fss))))))"

definition dist_NewLog ::
  "('x, 'd, 'lg, 'fs, 'ch, 'sn, 'tr, 'rf) node_pkg \<Rightarrow> string \<Rightarrow> log_Config \<Rightarrow> ('x \<times> os, log \<times> logStore \<times> 'rf) prog" where
  "dist_NewLog pkgs dataDir c =
     bnd (on_os (dist_setupLog dataDir (cf_Segment c))) (\<lambda>l. dist_setupRaft pkgs dataDir c l)"

section \<open>Joining\<close>

lemma join_loop_skip:
  "\<forall>v \<in> set vs. sv_id v \<noteq> sid \<and> sv_addr v \<noteq> addr \<Longrightarrow> join_loop rf sid addr (vs @ us) = join_loop rf sid addr us"
  by (induction vs) auto

text \<open>
  A configuration of \<open>raft\<close> has no two servers with the same identifier or the same address.
\<close>

definition servers_ok :: "server list \<Rightarrow> bool" where
  "servers_ok vs \<longleftrightarrow> distinct (map sv_id vs) \<and> distinct (map sv_addr vs)"

lemma servers_ok_split:
  assumes "servers_ok vs" "v \<in> set vs"
  obtains xs ys where "vs = xs @ v # ys"
    "\<forall>u \<in> set (xs @ ys). sv_id u \<noteq> sv_id v \<and> sv_addr u \<noteq> sv_addr v"
proof -
  obtain xs ys where vs: "vs = xs @ v # ys"
    using split_list [OF assms(2)] by blast
  have "sv_id u \<noteq> sv_id v \<and> sv_addr u \<noteq> sv_addr v" if "u \<in> set (xs @ ys)" for u
  proof -
    have "sv_id u \<in> sv_id ` set (xs @ ys)" "sv_addr u \<in> sv_addr ` set (xs @ ys)"
      using that by blast+
    then show ?thesis
      using assms(1) by (auto simp: servers_ok_def vs)
  qed
  with vs that show thesis by blast
qed

section \<open>An instance\<close>

text \<open>A node whose \<open>raft\<close> commits every entry at once and keeps its configuration in a list.\<close>

definition demo_raft :: "(server list \<times> log \<times> os) raft" where
  "demo_raft =
     \<lparr>rf_Apply = (\<lambda>data (k, s). case fsm_Apply demo_req demo_codec data s of (r, s') \<Rightarrow> (r, (k, s'))),
      rf_GetConfiguration = (\<lambda>(k, s). (Inr k, (k, s))),
      rf_RemoveServer = (\<lambda>i (k, s). (Inr (), (filter (\<lambda>v. sv_id v \<noteq> i) k, s))),
      rf_AddVoter = (\<lambda>i a (k, s). if \<exists>v \<in> set k. sv_addr v = a then (Inl (Error (ErrMsg ''duplicate address'')), (k, s))
         else (Inr (), (k @ [\<lparr>sv_id = i, sv_addr = a\<rparr>], s))),
      rf_Shutdown = ret ()\<rparr>"

section \<open>Properties\<close>

text \<open>
  What the node relies on when it leads a majority: the entry is stored, which changes no file of
  the node's own log, committed and applied to the local state machine, and the response of the
  future is what \<open>Apply\<close> returned.
\<close>

definition raft_commits :: "req_codec \<Rightarrow> codec \<Rightarrow> ('r \<times> log \<times> os) raft \<Rightarrow> bool" where
  "raft_commits q cdc rf \<longleftrightarrow> (\<forall>data k l w. \<exists>k' w1. os_dirs w1 (l_dir l) = os_dirs w (l_dir l) \<and> (healthy w \<longrightarrow> healthy w1) \<and>
     rf_Apply rf data (k, l, w) = (fst (fsm_Apply q cdc data (l, w1)), (k', snd (fsm_Apply q cdc data (l, w1)))))"

lemma raft_commitsE:
  assumes "raft_commits q cdc rf"
  obtains k' w1 where "os_dirs w1 (l_dir l) = os_dirs w (l_dir l)" "healthy w \<longrightarrow> healthy w1"
    "rf_Apply rf data (k, l, w) = (fst (fsm_Apply q cdc data (l, w1)), (k', snd (fsm_Apply q cdc data (l, w1))))"
  using assms unfolding raft_commits_def by metis

lemma demo_raft_commits: "raft_commits demo_req demo_codec demo_raft"
  by (auto simp: raft_commits_def demo_raft_def split_beta)

lemma dist_Append_rep:
  assumes "log_rep cdc d c b rs s" and "log_fits cdc c b rs r" and "raft_commits q cdc rf"
    and "q_marshal q (Some r) = Inr p" and "q_unmarshal q p = Inr (Some r)"
  shows "\<exists>k' s'. dist_Append q rf (Some r) (k, s) = (Inr (b + of_nat (length rs)), (k', s')) \<and>
    log_rep cdc d c b (rs @ [seg_item b rs r]) s'"
proof -
  let ?off = "b + of_nat (length rs)" and ?data = "AppendRequestType # p"
  obtain l w where s: "s = (l, w)" by (cases s)
  obtain k' w1 where w1: "os_dirs w1 d = os_dirs w d" "healthy w1"
      and run: "rf_Apply rf ?data (k, l, w) = (fst (fsm_Apply q cdc ?data (l, w1)), (k', snd (fsm_Apply q cdc ?data (l, w1))))"
    using raft_commitsE [OF assms(3), of l w ?data k] assms(1) log_rep_healthy log_rep_dir unfolding s by metis
  obtain s' where app: "log_append cdc (Some r) (l, w1) = (Inr ?off, s')"
      and rep: "log_rep cdc d c b (rs @ [seg_item b rs r]) s'"
    using commit_log.append_law [OF log_rep_other_disk [OF assms(1) [unfolded s] w1] assms(2)] by blast
  have "fsm_Apply q cdc ?data (l, w1) = (Inr (ProduceResponse ?off), s')"
    using app assms(5) by (simp add: fsm_Apply_def fsm_applyAppend_def prog_simps)
  then show ?thesis
    using assms(4) rep run by (simp add: s dist_Append_def dist_apply_def prog_simps)
qed

text \<open>
  C4: a record that is appended through \<open>raft\<close> gets the next offset of the log, and the node
  then reads it at that offset.
\<close>

theorem dist_append_then_read:
  assumes "log_rep cdc d c b rs s" and "log_fits cdc c b rs r" and "raft_commits q cdc rf"
    and "q_marshal q (Some r) = Inr p" and "q_unmarshal q p = Inr (Some r)"
  shows "\<exists>k' s' u. dist_Append q rf (Some r) (k, s) = (Inr (b + of_nat (length rs)), (k', s')) \<and>
    dist_Read cdc (b + of_nat (length rs)) (k', s') = (Inr (seg_item b rs r), u)"
proof -
  obtain k' s' where s': "dist_Append q rf (Some r) (k, s) = (Inr (b + of_nat (length rs)), (k', s'))"
      "log_rep cdc d c b (rs @ [seg_item b rs r]) s'"
    using dist_Append_rep [OF assms] by blast
  moreover obtain u where "log_read cdc (b + of_nat (length rs)) s' = (Inr (seg_item b rs r), u)"
    using commit_log.read_law [OF s'(2), of "length rs"] by auto
  ultimately show ?thesis
    by (auto simp: dist_Read_def on_log_def)
qed

theorem dist_append_then_read_witness:
  "\<exists>l w k' s' u. NewLog ''log'' demo_config demo_disk = (Inr l, w) \<and>
     dist_Append demo_req demo_raft (Some (demo_record 5)) ([], l, w) = (Inr 0, (k', s')) \<and>
     dist_Read demo_codec 0 (k', s') = (Inr (demo_record 5\<lparr>r_offset := 0\<rparr>), u)"
proof -
  obtain l w where nl: "NewLog ''log'' demo_config demo_disk = (Inr l, w)"
      and rep: "log_rep demo_codec ''log'' demo_config 0 [] (l, w)"
    using demo_log by blast
  have fits: "log_fits demo_codec demo_config 0 [] (demo_record 5)"
    by (intro log_fitsI [OF demo_codec_ok demo_marshals]) simp
  have "q_marshal demo_req (Some (demo_record 5)) = Inr (enc demo_codec (demo_record 5))"
    using demo_encodable [of "demo_record 5"] by (simp add: demo_req_def encodable_def)
  from dist_append_then_read [OF rep fits demo_raft_commits this demo_req_unmarshal, of "[]"] nl
  show ?thesis by auto
qed

text \<open>
  C32: \<open>Append\<close> of a node is \<open>Append\<close> of its log. For every record, also one that cannot be marshalled
  and nil, and in every state of the log, \<open>Append\<close> through \<open>raft\<close> returns what the log returns for
  the request that the state machine decodes: the offset, the error or the panic, and the log ends
  in the same state. In particular the unchecked type assertion does not add a panic: the
  response to an append request is a \<open>ProduceResponse\<close> or an error, which is returned before.
\<close>

theorem dist_append_is_log_append:
  assumes "raft_commits q cdc rf"
  shows "\<exists>k' w1. os_dirs w1 (l_dir l) = os_dirs w (l_dir l) \<and> (healthy w \<longrightarrow> healthy w1) \<and>
    dist_Append q rf record (k, l, w) =
      (case q_marshal q record of
         Inl e \<Rightarrow> (Inl (Error e), (k, l, w))
       | Inr p \<Rightarrow> (case q_unmarshal q p of
           Inl e \<Rightarrow> (Inl (Error e), (k', l, w1))
         | Inr req \<Rightarrow> (case log_append cdc req (l, w1) of (r, s) \<Rightarrow> (r, (k', s)))))"
proof (cases "q_marshal q record")
  case (Inl e)
  then show ?thesis
    by (intro exI [of _ k] exI [of _ w]) (simp add: dist_Append_def dist_apply_def prog_simps)
next
  case (Inr p)
  obtain k' w1 where w1: "os_dirs w1 (l_dir l) = os_dirs w (l_dir l)" "healthy w \<longrightarrow> healthy w1"
      and run: "rf_Apply rf (AppendRequestType # p) (k, l, w) =
        (fst (fsm_Apply q cdc (AppendRequestType # p) (l, w1)), (k', snd (fsm_Apply q cdc (AppendRequestType # p) (l, w1))))"
    using raft_commitsE [OF assms] by metis
  show ?thesis
    using w1 run Inr
    by (intro exI [of _ k'] exI [of _ w1])
      (auto simp: dist_Append_def dist_apply_def fsm_Apply_def fsm_applyAppend_def prog_simps
        split: sum.split prod.split failure.split)
qed

theorem dist_append_is_log_append_witness:
  "\<exists>l w t k' w1. NewLog ''log'' demo_config demo_disk = (Inr l, w) \<and>
     dist_Append demo_req demo_raft (Some (demo_record 5)) ([], l, w) = (Inr 0, (k', t)) \<and>
     log_append demo_codec (Some (demo_record 5)) (l, w1) = (Inr 0, t)"
proof -
  obtain l w where nl: "NewLog ''log'' demo_config demo_disk = (Inr l, w)"
      and rep: "log_rep demo_codec ''log'' demo_config 0 [] (l, w)"
    using demo_log by blast
  have fits: "log_fits demo_codec demo_config 0 [] (demo_record 5)"
    by (intro log_fitsI [OF demo_codec_ok demo_marshals]) simp
  have m: "q_marshal demo_req (Some (demo_record 5)) = Inr (enc demo_codec (demo_record 5))"
    using demo_encodable [of "demo_record 5"] by (simp add: demo_req_def encodable_def)
  obtain k' w1 where w1: "os_dirs w1 (l_dir l) = os_dirs w (l_dir l)" "healthy w \<longrightarrow> healthy w1"
      and run: "dist_Append demo_req demo_raft (Some (demo_record 5)) ([], l, w) =
        (case log_append demo_codec (Some (demo_record 5)) (l, w1) of (r, s) \<Rightarrow> (r, (k', s)))"
    using dist_append_is_log_append [OF demo_raft_commits, of l w "Some (demo_record 5)" "[]"]
    unfolding m sum.case demo_req_unmarshal by blast
  have "log_rep demo_codec ''log'' demo_config 0 [] (l, w1)"
    using log_rep_other_disk [OF rep] w1 log_rep_healthy [OF rep] log_rep_dir [OF rep] by metis
  from commit_log.append_law [OF this fits] obtain t where "log_append demo_codec (Some (demo_record 5)) (l, w1) = (Inr 0, t)"
    by auto
  with nl run show ?thesis
    by (intro exI [of _ l] exI [of _ w] exI [of _ t] exI [of _ k'] exI [of _ w1]) simp
qed

text \<open>
  A \<open>Join\<close> of a server that is a member with the same address changes nothing, and a \<open>Join\<close>
  of a server whose identifier and address are both new adds it as a voter and removes nobody.
\<close>

theorem dist_join_member_or_new:
  assumes "rf_GetConfiguration rf s = (Inr servers, t)" and "servers_ok servers"
  shows "(\<lparr>sv_id = sid, sv_addr = addr\<rparr> \<in> set servers \<longrightarrow> dist_Join rf sid addr s = (Inr (), t)) \<and>
    (sid \<notin> sv_id ` set servers \<and> addr \<notin> sv_addr ` set servers \<longrightarrow>
       dist_Join rf sid addr s = rf_AddVoter rf sid addr t)"
proof (intro conjI impI)
  assume "\<lparr>sv_id = sid, sv_addr = addr\<rparr> \<in> set servers"
  then obtain xs ys where "servers = xs @ \<lparr>sv_id = sid, sv_addr = addr\<rparr> # ys"
      "\<forall>u \<in> set (xs @ ys). sv_id u \<noteq> sid \<and> sv_addr u \<noteq> addr"
    using servers_ok_split [OF assms(2)] by (metis server.select_convs)
  then show "dist_Join rf sid addr s = (Inr (), t)"
    using assms(1) by (simp add: dist_Join_def prog_simps join_loop_skip)
next
  assume "sid \<notin> sv_id ` set servers \<and> addr \<notin> sv_addr ` set servers"
  then have "\<forall>v \<in> set servers. sv_id v \<noteq> sid \<and> sv_addr v \<noteq> addr"
    by blast
  then show "dist_Join rf sid addr s = rf_AddVoter rf sid addr t"
    using assms(1) join_loop_skip [of servers sid addr rf "[]"] by (simp add: dist_Join_def prog_simps)
qed

theorem dist_join_member_or_new_witness:
  "\<exists>s. dist_Join demo_raft ''b'' ''b:1'' ([\<lparr>sv_id = ''a'', sv_addr = ''a:1''\<rparr>], s) =
       (Inr (), ([\<lparr>sv_id = ''a'', sv_addr = ''a:1''\<rparr>, \<lparr>sv_id = ''b'', sv_addr = ''b:1''\<rparr>], s)) \<and>
     dist_Join demo_raft ''a'' ''a:1'' ([\<lparr>sv_id = ''a'', sv_addr = ''a:1''\<rparr>], s) =
       (Inr (), ([\<lparr>sv_id = ''a'', sv_addr = ''a:1''\<rparr>], s))"
proof -
  have conf: "rf_GetConfiguration demo_raft (k, s) = (Inr k, (k, s))" for k s
    by (simp add: demo_raft_def)
  have "servers_ok [\<lparr>sv_id = ''a'', sv_addr = ''a:1''\<rparr>]"
    by (simp add: servers_ok_def)
  from dist_join_member_or_new [OF conf this, of "''b''" "''b:1''"]
    dist_join_member_or_new [OF conf this, of "''a''" "''a:1''"]
  show ?thesis by (simp add: demo_raft_def)
qed

text \<open>
  A \<open>Join\<close> with an address that another member has does not replace that member. The code
  removes the identifier that joins, which is no member, instead of the identifier of the server
  it found, so the old server is still in the configuration when the voter is added.
\<close>

theorem dist_join_address_taken:
  assumes "rf_GetConfiguration rf s = (Inr servers, t)" and "servers_ok servers"
    and "srv \<in> set servers" and "sv_addr srv = addr" and "sid \<notin> sv_id ` set servers"
    and "rf_RemoveServer rf sid t = (Inr (), u)" and "set (members u) = {v \<in> set servers. sv_id v \<noteq> sid}"
  shows "dist_Join rf sid addr s = rf_AddVoter rf sid addr u \<and> srv \<in> set (members u)"
proof
  obtain xs ys where vs: "servers = xs @ srv # ys"
      "\<forall>u \<in> set (xs @ ys). sv_id u \<noteq> sv_id srv \<and> sv_addr u \<noteq> sv_addr srv"
    using servers_ok_split [OF assms(2,3)] by blast
  have ids: "sv_id v \<noteq> sid" if "v \<in> set servers" for v
    using assms(5) that by blast
  have "join_loop rf sid addr servers t =
      andthen (wrapf (''error removing existing node '' @ sid @ '' at '' @ addr) (rf_RemoveServer rf sid)) (join_loop rf sid addr ys) t"
    using vs ids assms(4) by (simp add: join_loop_skip)
  moreover have "join_loop rf sid addr ys = rf_AddVoter rf sid addr"
    using vs ids assms(4) join_loop_skip [of ys sid addr rf "[]"] by simp
  ultimately show "dist_Join rf sid addr s = rf_AddVoter rf sid addr u"
    using assms(1,6) by (simp add: dist_Join_def prog_simps)
  show "srv \<in> set (members u)"
    using assms(3,7) ids by simp
qed

theorem dist_join_address_taken_witness:
  "\<exists>s. fst (dist_Join demo_raft ''c'' ''a:1'' ([\<lparr>sv_id = ''a'', sv_addr = ''a:1''\<rparr>], s)) =
     Inl (Error (ErrMsg ''duplicate address''))"
proof -
  have "dist_Join demo_raft ''c'' ''a:1'' ([\<lparr>sv_id = ''a'', sv_addr = ''a:1''\<rparr>], s) =
      rf_AddVoter demo_raft ''c'' ''a:1'' ([\<lparr>sv_id = ''a'', sv_addr = ''a:1''\<rparr>], s) \<and>
      \<lparr>sv_id = ''a'', sv_addr = ''a:1''\<rparr> \<in> set (fst ([\<lparr>sv_id = ''a'', sv_addr = ''a:1''\<rparr>], s))" for s
    by (rule dist_join_address_taken [where members = fst]) (auto simp: demo_raft_def servers_ok_def)
  then show ?thesis
    by (simp add: demo_raft_def)
qed

text \<open>
  \<open>WaitForLeader\<close> does not wait for ever. It returns by the time its timer fires, and it
  succeeds exactly when some tick before the timer saw the address of a leader.
\<close>

theorem wait_for_leader_returns:
  assumes "TimedOut \<in> set evs"
  shows "\<exists>r. WaitForLeader evs = Some r \<and>
    (r = Inr () \<longleftrightarrow> (\<exists>a. a \<noteq> '''' \<and> Tick a \<in> set (takeWhile (\<lambda>e. e \<noteq> TimedOut) evs)))"
  using assms by (induction evs rule: WaitForLeader.induct) auto

theorem wait_for_leader_returns_witness:
  "WaitForLeader [Tick '''', Tick ''a:1'', TimedOut] = Some (Inr ())"
  using wait_for_leader_returns [of "[Tick '''', Tick ''a:1'', TimedOut]"] by auto

end
