(* ===== verification/Server.thy ===== *)
theory Server
  imports Distributed
begin

text \<open>
  The log service: the handlers of \<open>internal/server/log.go\<close> and the error mapping of \<open>error.go\<close>,
  over the \<open>CommitLog\<close> interface, whose contract both logs of the repository keep.
\<close>

section \<open>Errors of a call\<close>

datatype code = CodeUnknown | CodeNotFound | CodePermissionDenied | CodeUnimplemented | CodeInternal

text \<open>
  An error of a handler: an error of the log, a \<open>*log.ErrOffsetOutOfRange\<close>, which is not the same
  type as the \<open>log.ErrOffsetOutOfRange\<close> that the log returns, or a \<open>*connect.Error\<close> with its
  cause and its details.
\<close>

datatype rpcerr =
    Plain goerr
  | OffsetOutOfRangePtr u64
  | ConnectError code rpcerr "string list"

datatype rpc_failure = RpcError rpcerr | RpcPanic gopanic

type_synonym 'a rpc = "rpc_failure + 'a"

text \<open>\<open>errors.As\<close> with a target of type \<open>**log.ErrOffsetOutOfRange\<close>, along the causes.\<close>

fun as_out_of_range :: "rpcerr \<Rightarrow> u64 option" where
  "as_out_of_range (Plain e) = None"
| "as_out_of_range (OffsetOutOfRangePtr off) = Some off"
| "as_out_of_range (ConnectError c e ds) = as_out_of_range e"

text \<open>\<open>connect.CodeOf\<close>.\<close>

fun CodeOf :: "rpcerr \<Rightarrow> code" where
  "CodeOf (ConnectError c e ds) = c"
| "CodeOf e = CodeUnknown"

text \<open>\<open>fmt.Sprintf\<close> of an offset is its decimal digits.\<close>

definition addErrOffsetOutOfRangeDetails :: "(string \<Rightarrow> goerr + string) \<Rightarrow> u64 \<Rightarrow> rpcerr" where
  "addErrOffsetOutOfRangeDetails NewErrorDetail off =
     (let msg = ''The requested offset is outside the log's range: '' @ show_nat (unat off) in
      (case NewErrorDetail msg of
         Inl e \<Rightarrow> ConnectError CodeNotFound (OffsetOutOfRangePtr off) []
       | Inr detail \<Rightarrow> ConnectError CodeNotFound (OffsetOutOfRangePtr off) [detail]))"

definition WrapToConnectError :: "(string \<Rightarrow> goerr + string) \<Rightarrow> rpcerr option \<Rightarrow> rpcerr option" where
  "WrapToConnectError NewErrorDetail err = (case err of
       None \<Rightarrow> None
     | Some e \<Rightarrow> (case as_out_of_range e of
           Some off \<Rightarrow> Some (addErrOffsetOutOfRangeDetails NewErrorDetail off)
         | None \<Rightarrow> Some e))"

section \<open>The handlers\<close>

text \<open>The \<open>CommitLog\<close> interface, which both \<open>log.Log\<close> and \<open>distributed.Log\<close> have.\<close>

record 's CommitLog =
  cl_Append :: "log_record option \<Rightarrow> ('s, u64) prog"
  cl_Read :: "u64 \<Rightarrow> ('s, log_record) prog"

definition Consume :: "'s CommitLog \<Rightarrow> u64 \<Rightarrow> ('s, log_record) prog" where
  "Consume cl off = bnd (cl_Read cl off) ret"

definition Produce :: "'s CommitLog \<Rightarrow> log_record option \<Rightarrow> ('s, u64) prog" where
  "Produce cl record = bnd (cl_Append cl record) ret"

text \<open>
  A stream is served while other handlers run. What happens at each turn of the loop of
  \<open>ConsumeStream\<close> is a list of events: the context is done, the loop takes its default branch,
  or another call appends a record in between. \<open>send\<close> is what the sends return, in order.
  Without a result the loop is still running.
\<close>

datatype stream_event = CtxDone | Poll | Other "log_record option"

fun ConsumeStream ::
  "'s CommitLog \<Rightarrow> (nat \<Rightarrow> goerr option) \<Rightarrow> stream_event list \<Rightarrow> u64 \<Rightarrow> log_record list \<Rightarrow> 's \<Rightarrow>
     unit rpc option \<times> log_record list \<times> 's" where
  "ConsumeStream cl send [] off sent s = (None, sent, s)"
| "ConsumeStream cl send (CtxDone # evs) off sent s = (Some (Inr ()), sent, s)"
| "ConsumeStream cl send (Other record # evs) off sent s =
     ConsumeStream cl send evs off sent (snd (Produce cl record s))"
| "ConsumeStream cl send (Poll # evs) off sent s = (case Consume cl off s of
       (Inr record, t) \<Rightarrow> (case send (length sent) of
           Some e \<Rightarrow> (Some (Inl (RpcError (ConnectError CodeInternal (Plain e) []))), sent, t)
         | None \<Rightarrow> ConsumeStream cl send evs (off + 1) (sent @ [record]) t)
     | (Inl (Error (ErrOffsetOutOfRange _)), t) \<Rightarrow> ConsumeStream cl send evs off sent t
     | (Inl (Error e), t) \<Rightarrow> (Some (Inl (RpcError (ConnectError CodeInternal (Plain e) []))), sent, t)
     | (Inl (Panic p), t) \<Rightarrow> (Some (Inl (RpcPanic p)), sent, t))"

text \<open>\<open>ProduceStream\<close> over what its \<open>Receive\<close> returns, in order.\<close>

fun ProduceStream ::
  "'s CommitLog \<Rightarrow> (nat \<Rightarrow> goerr option) \<Rightarrow> (goerr + log_record option) list \<Rightarrow> u64 list \<Rightarrow> 's \<Rightarrow>
     unit rpc option \<times> u64 list \<times> 's" where
  "ProduceStream cl send [] sent s = (None, sent, s)"
| "ProduceStream cl send (Inl err # rs) sent s =
     (if err = EOF then (Some (Inr ()), sent, s)
      else (Some (Inl (RpcError (ConnectError CodeUnknown (Plain err) []))), sent, s))"
| "ProduceStream cl send (Inr record # rs) sent s = (case Produce cl record s of
       (Inr off, t) \<Rightarrow> (case send (length sent) of
           Some e \<Rightarrow> (Some (Inl (RpcError (ConnectError CodeInternal (Plain e) []))), sent, t)
         | None \<Rightarrow> ProduceStream cl send rs (sent @ [off]) t)
     | (Inl (Error e), t) \<Rightarrow> (Some (Inl (RpcError (ConnectError CodeInternal (Plain e) []))), sent, t)
     | (Inl (Panic p), t) \<Rightarrow> (Some (Inl (RpcPanic p)), sent, t))"

text \<open>A turn of \<open>ConsumeStream\<close> that finds a record, and one that is at the end of the log.\<close>

lemma ConsumeStream_record:
  "cl_Read cl off s = (Inr x, t) \<Longrightarrow> send (length sent) = None \<Longrightarrow>
     ConsumeStream cl send (Poll # evs) off sent s = ConsumeStream cl send evs (off + 1) (sent @ [x]) t"
  by (simp add: Consume_def prog_simps)

lemma ConsumeStream_at_end:
  "cl_Read cl off s = (Inl (Error (ErrOffsetOutOfRange e)), t) \<Longrightarrow>
     ConsumeStream cl send (Poll # evs) off sent s = ConsumeStream cl send evs off sent t"
  by (simp add: Consume_def prog_simps)

section \<open>What the streams rely on\<close>

text \<open>
  The contract of a \<open>CommitLog\<close>: that of an append-only log whose keys are consecutive offsets,
  and the offset after the last record is out of range.
\<close>

locale commit_log_api =
  record_log rep fits stamp "\<lambda>_ k. b + of_nat k" "\<lambda>r. cl_Append cl (Some r)" "cl_Read cl"
  for rep :: "log_record list \<Rightarrow> 's \<Rightarrow> bool" and fits stamp and b :: u64 and cl :: "'s CommitLog" +
  assumes read_end: "rep xs s \<Longrightarrow>
    \<exists>e t. cl_Read cl (b + of_nat (length xs)) s = (Inl (Error (ErrOffsetOutOfRange e)), t) \<and> rep xs t"

text \<open>The records that other calls append.\<close>

fun others :: "stream_event list \<Rightarrow> log_record list" where
  "others [] = []"
| "others (Other (Some r) # evs) = r # others evs"
| "others (_ # evs) = others evs"

context commit_log_api
begin

lemma consume_stream:
  assumes "rep xs s" and "fits_all xs (others evs)" and "\<forall>ev \<in> set evs. ev \<noteq> CtxDone \<and> ev \<noteq> Other None"
    and "\<forall>n. send n = None" and "i \<le> length xs" and "sent = take (length sent) (drop i xs)"
  shows "\<exists>sent' t. ConsumeStream cl send evs (b + of_nat (i + length sent)) sent s = (None, sent', t) \<and>
    rep (extend xs (others evs)) t \<and> sent' = take (length sent') (drop i (extend xs (others evs))) \<and>
    min (length xs - i) (length sent + count_list evs Poll) \<le> length sent'"
  using assms
proof (induction evs arbitrary: xs s sent)
  case (Cons ev evs)
  have len: "length sent \<le> length xs - i"
    using arg_cong [OF Cons.prems(6), of length] by simp
  show ?case
  proof (cases ev)
    case (Other rc)
    then obtain r where r: "ev = Other (Some r)"
      using Cons.prems(3) by (cases rc) auto
    let ?xs = "xs @ [stamp xs r]"
    obtain t where t: "cl_Append cl (Some r) s = (Inr (b + of_nat (length xs)), t)" "rep ?xs t"
      using append_law [OF Cons.prems(1), of r] Cons.prems(2) by (auto simp: r)
    have "sent = take (length sent) (drop i ?xs)"
      using Cons.prems(5,6) len by simp
    with Cons.IH [OF t(2) _ _ Cons.prems(4), of sent] Cons.prems(2,3,5) show ?thesis
      by (auto simp: r Produce_def prog_simps t(1) min_le_iff_disj)
  next
    case Poll
    show ?thesis
    proof (cases "i + length sent < length xs")
      case True
      let ?x = "xs ! (i + length sent)"
      obtain t where t: "cl_Read cl (b + of_nat (i + length sent)) s = (Inr ?x, t)" "rep xs t"
        using read_law [OF Cons.prems(1) True] by blast
      have f: "fits_all xs (others evs)" "\<forall>ev \<in> set evs. ev \<noteq> CtxDone \<and> ev \<noteq> Other None"
        using Cons.prems(2,3) by (auto simp: Poll)
      have "sent @ [?x] = take (length (sent @ [?x])) (drop i xs)"
        using True Cons.prems(6) by (simp add: take_Suc_conv_app_nth)
      from Cons.IH [OF t(2) f Cons.prems(4,5) this] obtain sent' u where
          u: "ConsumeStream cl send evs (b + of_nat (i + length (sent @ [?x]))) (sent @ [?x]) t = (None, sent', u)"
          and r: "rep (extend xs (others evs)) u" "sent' = take (length sent') (drop i (extend xs (others evs)))"
            "min (length xs - i) (length (sent @ [?x]) + count_list evs Poll) \<le> length sent'"
        by blast
      have "ConsumeStream cl send (ev # evs) (b + of_nat (i + length sent)) sent s = (None, sent', u)"
        unfolding Poll ConsumeStream_record [OF t(1) Cons.prems(4) [rule_format]] using u by (simp add: add_ac)
      with r show ?thesis
        by (auto simp: Poll)
    next
      case False
      then have e: "i + length sent = length xs"
        using len Cons.prems(5) by simp
      obtain x t where t: "cl_Read cl (b + of_nat (i + length sent)) s = (Inl (Error (ErrOffsetOutOfRange x)), t)" "rep xs t"
        using read_end [OF Cons.prems(1)] unfolding e by blast
      with Cons.IH [OF t(2) _ _ Cons.prems(4,5,6)] Cons.prems(2,3) e show ?thesis
        using ConsumeStream_at_end [where send = send and evs = evs, OF t(1)]
        by (auto simp: Poll min_le_iff_disj simp del: ConsumeStream.simps)
    qed
  qed (use Cons.prems(3) in auto)
qed (auto simp: min_le_iff_disj)

lemma produce_stream:
  assumes "rep xs s" and "fits_all xs rs" and "\<forall>n. send n = None"
  shows "\<exists>t. ProduceStream cl send (map (Inr \<circ> Some) rs @ [Inl EOF]) sent s =
      (Some (Inr ()), sent @ map (\<lambda>k. b + of_nat k) [length xs..<length xs + length rs], t) \<and> rep (extend xs rs) t"
  using assms
proof (induction rs arbitrary: xs s sent)
  case (Cons r rs)
  let ?xs = "xs @ [stamp xs r]"
  obtain t where t: "cl_Append cl (Some r) s = (Inr (b + of_nat (length xs)), t)" "rep ?xs t"
    using append_law [OF Cons.prems(1), of r] Cons.prems(2) by auto
  have "[length xs..<length xs + length (r # rs)] = length xs # [length ?xs..<length ?xs + length rs]"
    by (simp add: upt_rec)
  with Cons.IH [OF t(2), of "sent @ [b + of_nat (length xs)]"] Cons.prems(2,3) show ?case
    by (simp add: Produce_def prog_simps t(1) del: upt_Suc)
qed auto

end

section \<open>The two logs\<close>

definition log_api :: "codec \<Rightarrow> (log \<times> os) CommitLog" where
  "log_api cdc = \<lparr>cl_Append = log_append cdc, cl_Read = log_read cdc\<rparr>"

definition dist_api :: "req_codec \<Rightarrow> codec \<Rightarrow> ('r \<times> log \<times> os) raft \<Rightarrow> ('r \<times> log \<times> os) CommitLog" where
  "dist_api q cdc rf = \<lparr>cl_Append = dist_Append q rf, cl_Read = dist_Read cdc\<rparr>"

definition dist_rep ::
  "req_codec \<Rightarrow> codec \<Rightarrow> ('r \<times> log \<times> os) raft \<Rightarrow> string \<Rightarrow> seg_config \<Rightarrow> u64 \<Rightarrow> log_record list \<Rightarrow> 'r \<times> log \<times> os \<Rightarrow> bool" where
  "dist_rep q cdc rf d c b rs = (\<lambda>(k, s). raft_commits q cdc rf \<and> log_rep cdc d c b rs s)"

definition dist_fits :: "req_codec \<Rightarrow> codec \<Rightarrow> seg_config \<Rightarrow> u64 \<Rightarrow> log_record list \<Rightarrow> log_record \<Rightarrow> bool" where
  "dist_fits q cdc c b rs r \<longleftrightarrow> log_fits cdc c b rs r \<and>
     (\<exists>p. q_marshal q (Some r) = Inr p \<and> q_unmarshal q p = Inr (Some r))"

lemma log_read_end:
  assumes "log_rep cdc d c b rs s"
  shows "log_read cdc (b + of_nat (length rs)) s = (Inl (Error (ErrOffsetOutOfRange (b + of_nat (length rs)))), s)"
proof (cases s)
  case (Pair l w)
  have "unat b + length rs < 2 ^ 64"
    using assms by (auto simp: log_rep_def)
  then have "unat (b + of_nat (length rs)) = unat b + length rs"
    by (rule unat_plus_of_nat)
  then show ?thesis
    using log_read_out_of_range [OF assms [unfolded Pair]] by (simp add: Pair)
qed

interpretation log_service: commit_log_api "log_rep cdc d c b" "log_fits cdc c b" "seg_item b" b "log_api cdc"
  for cdc d c b
proof -
  have *: "(\<lambda>r. cl_Append (log_api cdc) (Some r)) = (\<lambda>r. log_append cdc (Some r))" "cl_Read (log_api cdc) = log_read cdc"
    by (simp_all add: log_api_def)
  show "commit_log_api (log_rep cdc d c b) (log_fits cdc c b) (seg_item b) b (log_api cdc)"
    unfolding commit_log_api_def commit_log_api_axioms_def *
    using commit_log.record_log_axioms log_read_end by blast
qed

interpretation dist_service: commit_log_api "dist_rep q cdc rf d c b" "dist_fits q cdc c b" "seg_item b" b "dist_api q cdc rf"
  for q cdc rf d c b
proof unfold_locales
  fix rs x r
  assume "dist_rep q cdc rf d c b rs x" "dist_fits q cdc c b rs r"
  then show "\<exists>t. cl_Append (dist_api q cdc rf) (Some r) x = (Inr (b + of_nat (length rs)), t) \<and>
      dist_rep q cdc rf d c b (rs @ [seg_item b rs r]) t"
    using dist_Append_rep by (fastforce simp: dist_rep_def dist_fits_def dist_api_def)
next
  fix rs x k
  assume "dist_rep q cdc rf d c b rs x" "k < length rs"
  then show "\<exists>t. cl_Read (dist_api q cdc rf) (b + of_nat k) x = (Inr (rs ! k), t) \<and> dist_rep q cdc rf d c b rs t"
    using commit_log.read_law by (fastforce simp: dist_rep_def dist_api_def dist_Read_def on_log_def)
next
  fix rs x
  assume "dist_rep q cdc rf d c b rs x"
  then show "\<exists>e t. cl_Read (dist_api q cdc rf) (b + of_nat (length rs)) x = (Inl (Error (ErrOffsetOutOfRange e)), t) \<and>
      dist_rep q cdc rf d c b rs t"
    by (auto simp: dist_rep_def dist_api_def dist_Read_def on_log_def log_read_end)
qed simp

text \<open>The records of a log that begins at \<open>b\<close> after a list of appends.\<close>

fun log_extend :: "u64 \<Rightarrow> log_record list \<Rightarrow> log_record list \<Rightarrow> log_record list" where
  "log_extend b rs [] = rs"
| "log_extend b rs (r # new) = log_extend b (rs @ [seg_item b rs r]) new"

fun dist_fits_all :: "req_codec \<Rightarrow> codec \<Rightarrow> seg_config \<Rightarrow> u64 \<Rightarrow> log_record list \<Rightarrow> log_record list \<Rightarrow> bool" where
  "dist_fits_all q cdc c b rs [] \<longleftrightarrow> True"
| "dist_fits_all q cdc c b rs (r # new) \<longleftrightarrow> dist_fits q cdc c b rs r \<and> dist_fits_all q cdc c b (rs @ [seg_item b rs r]) new"

lemma dist_service_extend: "dist_service.extend b rs new = log_extend b rs new"
  by (induction b rs new rule: log_extend.induct) simp_all

lemma dist_service_fits_all: "dist_service.fits_all q cdc c b rs new = dist_fits_all q cdc c b rs new"
  by (induction q cdc c b rs new rule: dist_fits_all.induct) simp_all

section \<open>Properties\<close>

text \<open>
  C10: a consumer sees every record once and in order. While \<open>ConsumeStream\<close> runs on the
  replicated log from some offset on, other calls append records between its turns. Whatever the
  interleaving, it keeps running, and what it has sent is at every time a contiguous part of the
  final log that begins at the offset it was asked for; once it has had as many turns as there
  were records from that offset on, it has sent all of these.
\<close>

theorem consume_stream_delivers:
  assumes "log_rep cdc d c b rs s" and "raft_commits q cdc rf" and "dist_fits_all q cdc c b rs (others evs)"
    and "\<forall>ev \<in> set evs. ev \<noteq> CtxDone \<and> ev \<noteq> Other None" and "i \<le> length rs"
  shows "\<exists>sent t. ConsumeStream (dist_api q cdc rf) (\<lambda>_. None) evs (b + of_nat i) [] (k, s) = (None, sent, t) \<and>
    dist_rep q cdc rf d c b (log_extend b rs (others evs)) t \<and>
    sent = take (length sent) (drop i (log_extend b rs (others evs))) \<and>
    (length rs - i \<le> count_list evs Poll \<longrightarrow> take (length rs - i) sent = drop i rs)"
proof -
  have "dist_rep q cdc rf d c b rs (k, s)"
    using assms(1,2) by (simp add: dist_rep_def)
  then obtain sent t where st: "ConsumeStream (dist_api q cdc rf) (\<lambda>_. None) evs (b + of_nat i) [] (k, s) = (None, sent, t)"
      "dist_rep q cdc rf d c b (log_extend b rs (others evs)) t"
      "sent = take (length sent) (drop i (log_extend b rs (others evs)))"
      "min (length rs - i) (count_list evs Poll) \<le> length sent"
    using dist_service.consume_stream [of q cdc rf d c b rs "(k, s)" evs "\<lambda>_. None" i "[]"] assms(3-5)
    by (auto simp: dist_service_extend dist_service_fits_all)
  obtain zs where zs: "log_extend b rs (others evs) = rs @ zs"
    using dist_service.extend_prefix [of b rs "others evs"] by (auto simp: dist_service_extend)
  have "take (length rs - i) sent = drop i rs" if "length rs - i \<le> count_list evs Poll"
  proof -
    have "take (length rs - i) sent = take (length rs - i) (take (length sent) (drop i (rs @ zs)))"
      using arg_cong [OF st(3), of "take (length rs - i)"] by (simp only: zs)
    also have "\<dots> = drop i rs"
      using st(4) that assms(5) by (simp add: min_absorb1)
    finally show ?thesis .
  qed
  with st show ?thesis
    by blast
qed

lemma demo_dist_fitsI:
  assumes "length rs < 10" and "\<And>off. marshals demo_codec c (demo_record x\<lparr>r_offset := off\<rparr>)"
  shows "dist_fits demo_req demo_codec c 0 rs (demo_record x)"
proof -
  have "log_fits demo_codec c 0 rs (demo_record x)"
    using assms(1) by (intro log_fitsI [OF demo_codec_ok assms(2)]) simp
  moreover have "q_marshal demo_req (Some (demo_record x)) = Inr (enc demo_codec (demo_record x))"
    using demo_encodable [of "demo_record x"] by (simp add: demo_req_def encodable_def)
  ultimately show ?thesis
    using demo_req_unmarshal by (auto simp: dist_fits_def)
qed

lemmas demo_dist_fits = demo_dist_fitsI [OF _ demo_marshals]

lemmas demo_dist_fits_zero = demo_dist_fitsI [OF _ demo_marshals_zero]

theorem consume_stream_delivers_witness:
  "\<exists>l w sent t. ConsumeStream (dist_api demo_req demo_codec demo_raft) (\<lambda>_. None)
     [Poll, Other (Some (demo_record 9)), Poll, Poll] 1 [] ([], l, w) = (None, sent, t) \<and>
     take 2 sent = [demo_record 2\<lparr>r_offset := 1\<rparr>, demo_record 3\<lparr>r_offset := 2\<rparr>]"
proof -
  obtain l w where rep: "log_rep demo_codec ''log'' demo_config 0 demo_records (l, w)"
    using demo_log_three by blast
  have "dist_fits_all demo_req demo_codec demo_config 0 demo_records (others [Poll, Other (Some (demo_record 9)), Poll, Poll])"
    using demo_dist_fits [of demo_records 9] by (simp add: demo_records_def)
  from consume_stream_delivers [OF rep demo_raft_commits this, of 1 "[]"] obtain sent t where
    "ConsumeStream (dist_api demo_req demo_codec demo_raft) (\<lambda>_. None)
       [Poll, Other (Some (demo_record 9)), Poll, Poll] 1 [] ([], l, w) = (None, sent, t)"
    "take (Suc (Suc 0)) sent = [demo_record 2\<lparr>r_offset := 1\<rparr>, demo_record 3\<lparr>r_offset := 2\<rparr>]"
    by (auto simp: demo_records_def simp del: ConsumeStream.simps)
  then show ?thesis
    unfolding numeral_2_eq_2 by blast
qed

text \<open>
  C11: a producer's stream is appended completely and in order. \<open>ProduceStream\<close> on the replicated
  log answers the records it receives with consecutive offsets from the end of the log on, returns
  nil at the end of the stream, and the log is then extended by exactly these records.
\<close>

theorem produce_stream_appends:
  assumes "log_rep cdc d c b rs s" and "raft_commits q cdc rf" and "dist_fits_all q cdc c b rs new"
  shows "\<exists>t. ProduceStream (dist_api q cdc rf) (\<lambda>_. None) (map (Inr \<circ> Some) new @ [Inl EOF]) [] (k, s) =
      (Some (Inr ()), map (\<lambda>j. b + of_nat j) [length rs..<length rs + length new], t) \<and>
    dist_rep q cdc rf d c b (log_extend b rs new) t"
  using dist_service.produce_stream [of q cdc rf d c b rs "(k, s)" new "\<lambda>_. None" "[]"] assms
  by (auto simp: dist_rep_def dist_service_extend dist_service_fits_all)

theorem produce_stream_appends_witness:
  "\<exists>l w t. ProduceStream (dist_api demo_req demo_codec demo_raft) (\<lambda>_. None)
     [Inr (Some (demo_record 8)), Inr (Some (demo_record 9)), Inl EOF] [] ([], l, w) = (Some (Inr ()), [3, 4], t)"
proof -
  obtain l w where rep: "log_rep demo_codec ''log'' demo_config 0 demo_records (l, w)"
    using demo_log_three by blast
  have "dist_fits_all demo_req demo_codec demo_config 0 demo_records [demo_record 8, demo_record 9]"
    using demo_dist_fits by (simp add: demo_records_def)
  from produce_stream_appends [OF rep demo_raft_commits this, of "[]"] obtain t where
    "ProduceStream (dist_api demo_req demo_codec demo_raft) (\<lambda>_. None)
       (map (Inr \<circ> Some) [demo_record 8, demo_record 9] @ [Inl EOF]) [] ([], l, w) =
       (Some (Inr ()), map (\<lambda>j. 0 + of_nat j) [length demo_records..<length demo_records + 2], t)"
    by auto
  then show ?thesis
    by (intro exI) (simp add: demo_records_def upt_rec del: ProduceStream.simps)
qed

end
