(* ===== verification/Service.thy ===== *)
theory Service
  imports Server "HOL-Library.Sublist"
begin

text \<open>
  The path of a request to a handler: the authentication of \<open>internal/http/auth.go\<close>, the
  interceptors of \<open>internal/server\<close> and \<open>internal/auth\<close>, the generated dispatch of
  \<open>gen/log/v1/logv1connect\<close>, and \<open>setupServer\<close> of \<open>internal/agent/agent.go\<close>, which puts them
  together.
\<close>

section \<open>Authentication\<close>

text \<open>
  A request: its path, the common names of the verified chains, if there is TLS, and its message.
  The context holds the user, once the middleware has set it.
\<close>

record 'm http_request =
  hq_path :: string
  hq_tls :: "string list list option"
  hq_msg :: 'm

datatype 'r http_response = HttpError nat string | Served "'r rpc"

type_synonym ('m, 's, 'r) http_handler = "string option \<Rightarrow> 'm http_request \<Rightarrow> 's \<Rightarrow> 'r http_response \<times> 's"

definition GetAuthInfo :: "string option \<Rightarrow> string" where
  "GetAuthInfo ctx = (case ctx of None \<Rightarrow> '''' | Some v \<Rightarrow> v)"

definition authenticate :: "'m http_request \<Rightarrow> string + string" where
  "authenticate req = (case hq_tls req of
       None \<Rightarrow> Inl ''no TLS''
     | Some verified \<Rightarrow> (case verified of
           (name # _) # _ \<Rightarrow> Inr name
         | _ \<Rightarrow> Inl ''no verified chains''))"

definition AuthMiddleware :: "('m, 's, 'r) http_handler \<Rightarrow> ('m, 's, 'r) http_handler" where
  "AuthMiddleware next = (\<lambda>ctx r s. case authenticate r of
       Inl err \<Rightarrow> (HttpError 401 err, s)
     | Inr name \<Rightarrow> next (Some name) r s)"

section \<open>Interceptors\<close>

type_synonym ('m, 's, 'r) rpc_handler = "string option \<Rightarrow> 'm \<Rightarrow> 's \<Rightarrow> 'r rpc \<times> 's"

text \<open>A unary interceptor; the first argument is the procedure of the call.\<close>

type_synonym ('m, 's, 'r) interceptor = "string \<Rightarrow> ('m, 's, 'r) rpc_handler \<Rightarrow> ('m, 's, 'r) rpc_handler"

definition wrap_result :: "(string \<Rightarrow> goerr + string) \<Rightarrow> 'r rpc \<Rightarrow> 'r rpc" where
  "wrap_result NewErrorDetail r = (case r of
       Inl (RpcError e) \<Rightarrow> (case WrapToConnectError NewErrorDetail (Some e) of Some e' \<Rightarrow> Inl (RpcError e') | None \<Rightarrow> r)
     | _ \<Rightarrow> r)"

definition NewErrorInterceptor :: "(string \<Rightarrow> goerr + string) \<Rightarrow> ('m, 's, 'r) interceptor" where
  "NewErrorInterceptor NewErrorDetail procedure next = (\<lambda>ctx req s. case next ctx req s of
       (r, t) \<Rightarrow> (wrap_result NewErrorDetail r, t))"

text \<open>
  The logger writes the code of the call and its procedure with \<open>emit\<close>; a panic passes it by. The
  times and the address of the peer are not modelled.
\<close>

definition LoggingInterceptor ::
  "(string \<Rightarrow> code option \<Rightarrow> 's \<Rightarrow> 's) \<Rightarrow> (string \<Rightarrow> goerr + string) \<Rightarrow> ('m, 's, 'r) interceptor" where
  "LoggingInterceptor emit NewErrorDetail procedure next = (\<lambda>ctx req s. case next ctx req s of
       (Inl (RpcPanic p), t) \<Rightarrow> (Inl (RpcPanic p), t)
     | (Inl (RpcError e), t) \<Rightarrow> (wrap_result NewErrorDetail (Inl (RpcError e)), emit procedure (Some (CodeOf e)) t)
     | (Inr x, t) \<Rightarrow> (Inr x, emit procedure None t))"

text \<open>The enforcer of \<open>casbin\<close> and the constructor that reads its two files are parameters.\<close>

type_synonym enforcer = "string \<Rightarrow> string \<Rightarrow> string \<Rightarrow> goerr + bool"

definition auth_New :: "(string \<Rightarrow> string \<Rightarrow> goerr + enforcer) \<Rightarrow> string \<Rightarrow> string \<Rightarrow> goerr + enforcer" where
  "auth_New NewEnforcer model policy = (case NewEnforcer model policy of
       Inl e \<Rightarrow> Inl (Wrap ''failed to create enforcer'' e)
     | Inr enf \<Rightarrow> Inr enf)"

definition Enforce :: "enforcer \<Rightarrow> string \<Rightarrow> string \<Rightarrow> string \<Rightarrow> goerr + bool" where
  "Enforce enf sub obj act = enf sub obj act"

definition auth_Interceptor :: "enforcer \<Rightarrow> ('m, 's, 'r) interceptor" where
  "auth_Interceptor enf procedure next = (\<lambda>ctx req s. let user = GetAuthInfo ctx in
     (case Enforce enf user ''*'' procedure of
        Inl e \<Rightarrow> (Inl (RpcError (Plain e)), s)
      | Inr ok \<Rightarrow>
          if \<not> ok then (Inl (RpcError (ConnectError CodePermissionDenied (Plain (ErrMsg ''permission denied'')) [])), s)
          else next ctx req s))"

section \<open>Dispatch\<close>

definition LogAPIProduceProcedure :: string where
  "LogAPIProduceProcedure = ''/log.v1.LogAPI/Produce''"

definition LogAPIConsumeProcedure :: string where
  "LogAPIConsumeProcedure = ''/log.v1.LogAPI/Consume''"

definition LogAPIConsumeStreamProcedure :: string where
  "LogAPIConsumeStreamProcedure = ''/log.v1.LogAPI/ConsumeStream''"

definition LogAPIProduceStreamProcedure :: string where
  "LogAPIProduceStreamProcedure = ''/log.v1.LogAPI/ProduceStream''"

lemmas procedure_defs = LogAPIProduceProcedure_def LogAPIConsumeProcedure_def
  LogAPIConsumeStreamProcedure_def LogAPIProduceStreamProcedure_def

record ('m, 's, 'r) LogAPIHandler =
  svc_Produce :: "('m, 's, 'r) rpc_handler"
  svc_Consume :: "('m, 's, 'r) rpc_handler"
  svc_ConsumeStream :: "('m, 's, 'r) rpc_handler"
  svc_ProduceStream :: "('m, 's, 'r) rpc_handler"

text \<open>The constructors of \<open>connect\<close> for unary and for streaming handlers, with the interceptors.\<close>

record ('m, 's, 'r) connect =
  cn_NewUnaryHandler :: "string \<Rightarrow> ('m, 's, 'r) rpc_handler \<Rightarrow> ('m, 's, 'r) interceptor list \<Rightarrow> ('m, 's, 'r) rpc_handler"
  cn_NewStreamHandler :: "string \<Rightarrow> ('m, 's, 'r) rpc_handler \<Rightarrow> ('m, 's, 'r) interceptor list \<Rightarrow> ('m, 's, 'r) rpc_handler"

definition gen_NewLogAPIHandler ::
  "('m, 's, 'r) connect \<Rightarrow> ('m, 's, 'r) LogAPIHandler \<Rightarrow> ('m, 's, 'r) interceptor list \<Rightarrow> string \<times> ('m, 's, 'r) http_handler" where
  "gen_NewLogAPIHandler cn svc opts =
     (let produce = cn_NewUnaryHandler cn LogAPIProduceProcedure (svc_Produce svc) opts;
          consume = cn_NewUnaryHandler cn LogAPIConsumeProcedure (svc_Consume svc) opts;
          consumeStream = cn_NewStreamHandler cn LogAPIConsumeStreamProcedure (svc_ConsumeStream svc) opts;
          produceStream = cn_NewStreamHandler cn LogAPIProduceStreamProcedure (svc_ProduceStream svc) opts;
          run = (\<lambda>h ctx r s. case h ctx (hq_msg r) s of (x, t) \<Rightarrow> (Served x, t))
      in (''/log.v1.LogAPI/'', \<lambda>ctx r.
        if hq_path r = LogAPIProduceProcedure then run produce ctx r
        else if hq_path r = LogAPIConsumeProcedure then run consume ctx r
        else if hq_path r = LogAPIConsumeStreamProcedure then run consumeStream ctx r
        else if hq_path r = LogAPIProduceStreamProcedure then run produceStream ctx r
        else (\<lambda>s. (HttpError 404 ''404 page not found'', s))))"

text \<open>The callers pass the address of a \<open>Config\<close>, so that the panic on a nil one has no branch.\<close>

definition NewLogAPIHandler ::
  "('m, 's, 'r) connect \<Rightarrow> (string \<Rightarrow> goerr + string) \<Rightarrow> ('m, 's, 'r) LogAPIHandler \<Rightarrow> ('m, 's, 'r) interceptor list \<Rightarrow>
     string \<times> ('m, 's, 'r) http_handler" where
  "NewLogAPIHandler cn NewErrorDetail svc opts = gen_NewLogAPIHandler cn svc (opts @ [NewErrorInterceptor NewErrorDetail])"

text \<open>\<open>http.ServeMux\<close> with one pattern that ends in a slash serves the paths below it.\<close>

definition ServeMux :: "string \<times> ('m, 's, 'r) http_handler \<Rightarrow> ('m, 's, 'r) http_handler" where
  "ServeMux route = (\<lambda>ctx r s. if prefix (fst route) (hq_path r) then snd route ctx r s
     else (HttpError 404 ''404 page not found'', s))"

definition setupServer ::
  "('m, 's, 'r) connect \<Rightarrow> (string \<Rightarrow> code option \<Rightarrow> 's \<Rightarrow> 's) \<Rightarrow> (string \<Rightarrow> goerr + string) \<Rightarrow>
     (string \<Rightarrow> string \<Rightarrow> goerr + enforcer) \<Rightarrow> string \<Rightarrow> string \<Rightarrow> ('m, 's, 'r) LogAPIHandler \<Rightarrow>
     goerr + ('m, 's, 'r) http_handler" where
  "setupServer cn emit NewErrorDetail NewEnforcer model policy svc =
     (let interceptors = [LoggingInterceptor emit NewErrorDetail] in
      (case auth_New NewEnforcer model policy of
         Inl e \<Rightarrow> Inl e
       | Inr auth \<Rightarrow>
           (let interceptors = interceptors @ [auth_Interceptor auth] in
            Inr (AuthMiddleware (ServeMux (NewLogAPIHandler cn NewErrorDetail svc interceptors))))))"

text \<open>A unary handler of \<open>internal/server/log.go\<close> as \<open>connect\<close> calls it: its errors are as they are.\<close>

definition unary :: "('m \<Rightarrow> ('s, 'r) prog) \<Rightarrow> ('m, 's, 'r) rpc_handler" where
  "unary h = (\<lambda>ctx m s. case h m s of
       (Inl (Error e), t) \<Rightarrow> (Inl (RpcError (Plain e)), t)
     | (Inl (Panic p), t) \<Rightarrow> (Inl (RpcPanic p), t)
     | (Inr x, t) \<Rightarrow> (Inr x, t))"

section \<open>What the service relies on\<close>

text \<open>
  \<open>connect\<close> documents that the first interceptor is the outermost one, and that an interceptor of
  type \<open>UnaryInterceptorFunc\<close> does nothing for streams.
\<close>

definition connect_ok :: "('m, 's, 'r) connect \<Rightarrow> bool" where
  "connect_ok cn \<longleftrightarrow>
     (\<forall>procedure h opts. cn_NewUnaryHandler cn procedure h opts = foldr (\<lambda>i next. i procedure next) opts h) \<and>
     (\<forall>procedure h opts. cn_NewStreamHandler cn procedure h opts = h)"

definition plain_connect :: "('m, 's, 'r) connect" where
  "plain_connect =
     \<lparr>cn_NewUnaryHandler = (\<lambda>procedure h opts. foldr (\<lambda>i next. i procedure next) opts h),
      cn_NewStreamHandler = (\<lambda>procedure h opts. h)\<rparr>"

lemma plain_connect_ok: "connect_ok plain_connect"
  by (simp add: connect_ok_def plain_connect_def)

section \<open>What the stack does with a request\<close>

lemma setupServer_stack:
  assumes "NewEnforcer model policy = Inr enf"
    and "setupServer cn emit detail NewEnforcer model policy svc = Inr serve"
  shows "serve = AuthMiddleware (ServeMux (gen_NewLogAPIHandler cn svc
      [LoggingInterceptor emit detail, auth_Interceptor enf, NewErrorInterceptor detail]))"
  using assms by (auto simp: setupServer_def auth_New_def NewLogAPIHandler_def)

lemma connect_okD:
  assumes "connect_ok cn"
  shows "cn_NewUnaryHandler cn p h opts = foldr (\<lambda>i next. i p next) opts h" and "cn_NewStreamHandler cn p h opts = h"
  using assms by (auto simp: connect_ok_def)

lemmas dispatch_defs = AuthMiddleware_def ServeMux_def gen_NewLogAPIHandler_def Let_def procedure_defs

lemmas stack_defs = LoggingInterceptor_def auth_Interceptor_def NewErrorInterceptor_def Enforce_def GetAuthInfo_def
  wrap_result_def WrapToConnectError_def

lemma serve_unary:
  assumes "connect_ok cn" and "NewEnforcer model policy = Inr enf"
    and "setupServer cn emit detail NewEnforcer model policy svc = Inr serve"
    and "authenticate r = Inr name" and "enf name ''*'' (hq_path r) = Inr True"
    and "(hq_path r, h) \<in> {(LogAPIProduceProcedure, svc_Produce svc), (LogAPIConsumeProcedure, svc_Consume svc)}"
    and "h (Some name) (hq_msg r) s = (Inr x, t)"
  shows "serve ctx r s = (Served (Inr x), emit (hq_path r) None t)"
  unfolding setupServer_stack [where NewEnforcer = NewEnforcer, OF assms(2,3)]
  using assms(4-7) by (auto simp: dispatch_defs stack_defs connect_okD [OF assms(1)])

lemma serve_unauthenticated:
  assumes "NewEnforcer model policy = Inr enf" and "setupServer cn emit detail NewEnforcer model policy svc = Inr serve"
    and "authenticate r = Inl e"
  shows "serve ctx r s = (HttpError 401 e, s)"
  unfolding setupServer_stack [where NewEnforcer = NewEnforcer, OF assms(1,2)] using assms(3) by (simp add: AuthMiddleware_def)

text \<open>A call that the interceptor stops, with the error \<open>err\<close>.\<close>

lemma serve_refused:
  fixes svc :: "('m, 's, 'r) LogAPIHandler"
  assumes "connect_ok cn" and "NewEnforcer model policy = Inr enf"
    and "setupServer cn emit detail NewEnforcer model policy svc = Inr serve"
    and "authenticate r = Inr name" and "hq_path r \<in> {LogAPIProduceProcedure, LogAPIConsumeProcedure}"
    and "\<And>h :: ('m, 's, 'r) rpc_handler. auth_Interceptor enf (hq_path r) h (Some name) (hq_msg r) s = (Inl (RpcError err), s)"
    and "as_out_of_range err = None"
  shows "serve ctx r s = (Served (Inl (RpcError err)), emit (hq_path r) (Some (CodeOf err)) s)"
  unfolding setupServer_stack [where NewEnforcer = NewEnforcer, OF assms(2,3)]
  using assms(4-7) by (auto simp: dispatch_defs connect_okD [OF assms(1)] LoggingInterceptor_def wrap_result_def WrapToConnectError_def)

lemma serve_other:
  assumes "NewEnforcer model policy = Inr enf" and "setupServer cn emit detail NewEnforcer model policy svc = Inr serve"
    and "authenticate r = Inr name"
    and "hq_path r \<notin> {LogAPIProduceProcedure, LogAPIConsumeProcedure, LogAPIConsumeStreamProcedure, LogAPIProduceStreamProcedure}"
  shows "serve ctx r s = (HttpError 404 ''404 page not found'', s)"
  unfolding setupServer_stack [where NewEnforcer = NewEnforcer, OF assms(1,2)]
  using assms(3,4) by (auto simp: AuthMiddleware_def ServeMux_def gen_NewLogAPIHandler_def Let_def)

lemma serve_stream:
  assumes "connect_ok cn" and "NewEnforcer model policy = Inr enf"
    and "setupServer cn emit detail NewEnforcer model policy svc = Inr serve"
    and "authenticate r = Inr name"
    and "(hq_path r, h) \<in> {(LogAPIConsumeStreamProcedure, svc_ConsumeStream svc), (LogAPIProduceStreamProcedure, svc_ProduceStream svc)}"
  shows "serve ctx r s = map_prod Served id (h (Some name) (hq_msg r) s)"
  unfolding setupServer_stack [where NewEnforcer = NewEnforcer, OF assms(2,3)]
  using assms(4,5) by (auto simp: dispatch_defs connect_okD [OF assms(1)] split: prod.splits)

section \<open>Properties\<close>


text \<open>The policy of \<open>test/acl\<close> and a service that counts its calls.\<close>

definition acl_policy :: enforcer where
  "acl_policy sub obj act = Inr (sub = ''root'' \<and> obj = ''*'' \<and>
     act \<in> {LogAPIProduceProcedure, LogAPIConsumeProcedure, LogAPIConsumeStreamProcedure, LogAPIProduceStreamProcedure})"

definition counting_service :: "(unit, nat, nat) LogAPIHandler" where
  "counting_service = (let h = (\<lambda>_ _ n. (Inr n, Suc n)) in
     \<lparr>svc_Produce = h, svc_Consume = h, svc_ConsumeStream = h, svc_ProduceStream = h\<rparr>)"


text \<open>
  C37: an offset that is out of range is reported with the code \<open>Unknown\<close>. The interceptor looks
  for a pointer to \<open>ErrOffsetOutOfRange\<close>, and the log returns the value, so that the mapping to
  \<open>NotFound\<close>, which the interceptor has for the pointer, is never used.
\<close>

theorem out_of_range_code:
  assumes "log_rep cdc d c b rs (l, w)" and "unat off < unat b \<or> unat b + length rs \<le> unat off"
  shows "\<exists>e. NewErrorInterceptor detail LogAPIConsumeProcedure (unary (Consume (log_api cdc))) ctx off (l, w) = (Inl (RpcError e), (l, w)) \<and>
    CodeOf e = CodeUnknown \<and>
    (\<exists>e'. WrapToConnectError detail (Some (OffsetOutOfRangePtr off)) = Some e' \<and> CodeOf e' = CodeNotFound)"
  using log_read_out_of_range [OF assms]
  by (auto simp: NewErrorInterceptor_def unary_def Consume_def log_api_def prog_simps wrap_result_def WrapToConnectError_def
      addErrOffsetOutOfRangeDetails_def Let_def split: sum.split)

theorem out_of_range_code_witness:
  "\<exists>l w e. NewErrorInterceptor (\<lambda>m. Inr m) LogAPIConsumeProcedure (unary (Consume (log_api demo_codec))) None 3 (l, w) =
      (Inl (RpcError e), (l, w)) \<and> CodeOf e = CodeUnknown"
proof -
  obtain l w where rep: "log_rep demo_codec ''log'' demo_config 0 demo_records (l, w)"
    using demo_log_three by blast
  have "unat (3 :: u64) < unat (0 :: u64) \<or> unat (0 :: u64) + length demo_records \<le> unat (3 :: u64)"
    by (simp add: demo_records_def)
  from out_of_range_code [OF rep this] show ?thesis by blast
qed

end
