(* ===== verification/Client.thy ===== *)
theory Client
  imports Service
begin

text \<open>
  The generated client of the log service, \<open>gen/log/v1/logv1connect/log.connect.go\<close>, and the way
  of a call from it to the handlers: the URL of the procedure, the request, and the path that the
  server dispatches on. The client side of \<open>connect\<close> is a parameter.
\<close>

section \<open>URLs\<close>

text \<open>\<open>strings.TrimRight\<close> with a cutset of one character.\<close>

definition trim_right :: "char \<Rightarrow> string \<Rightarrow> string" where
  "trim_right c s = rev (dropWhile (\<lambda>x. x = c) (rev s))"

text \<open>The path of a URL \<open>scheme://host/path\<close> without query, as \<open>net/url\<close> parses it.\<close>

definition url_path :: "string \<Rightarrow> string" where
  "url_path u = dropWhile (\<lambda>x. x \<noteq> CHR ''/'') (drop 3 (dropWhile (\<lambda>x. x \<noteq> CHR '':'') u))"

section \<open>The generated client\<close>

text \<open>
  The client side of \<open>connect\<close>: \<open>NewClient\<close> for an HTTP client, a URL and options, and the calls.
  A message stands for all that the caller sends, which for a bidirectional stream is a sequence.
\<close>

record ('h, 'o, 'cl, 'm, 's, 'r) connect_client =
  cc_NewClient :: "'h \<Rightarrow> string \<Rightarrow> 'o list \<Rightarrow> 'cl"
  cc_CallUnary :: "'cl \<Rightarrow> 'm \<Rightarrow> 's \<Rightarrow> 'r rpc \<times> 's"
  cc_CallServerStream :: "'cl \<Rightarrow> 'm \<Rightarrow> 's \<Rightarrow> 'r rpc \<times> 's"
  cc_CallBidiStream :: "'cl \<Rightarrow> 'm \<Rightarrow> 's \<Rightarrow> 'r rpc \<times> 's"

record 'cl logAPIClient =
  lc_produce :: 'cl
  lc_consume :: 'cl
  lc_consumeStream :: 'cl
  lc_produceStream :: 'cl

definition NewLogAPIClient ::
  "('h, 'o, 'cl, 'm, 's, 'r) connect_client \<Rightarrow> 'h \<Rightarrow> string \<Rightarrow> 'o list \<Rightarrow> 'cl logAPIClient" where
  "NewLogAPIClient cc httpClient baseURL opts =
     (let baseURL = trim_right (CHR ''/'') baseURL in
      \<lparr>lc_produce = cc_NewClient cc httpClient (baseURL @ LogAPIProduceProcedure) opts,
       lc_consume = cc_NewClient cc httpClient (baseURL @ LogAPIConsumeProcedure) opts,
       lc_consumeStream = cc_NewClient cc httpClient (baseURL @ LogAPIConsumeStreamProcedure) opts,
       lc_produceStream = cc_NewClient cc httpClient (baseURL @ LogAPIProduceStreamProcedure) opts\<rparr>)"

definition client_Produce ::
  "('h, 'o, 'cl, 'm, 's, 'r) connect_client \<Rightarrow> 'cl logAPIClient \<Rightarrow> 'm \<Rightarrow> 's \<Rightarrow> 'r rpc \<times> 's" where
  "client_Produce cc c req = cc_CallUnary cc (lc_produce c) req"

definition client_Consume ::
  "('h, 'o, 'cl, 'm, 's, 'r) connect_client \<Rightarrow> 'cl logAPIClient \<Rightarrow> 'm \<Rightarrow> 's \<Rightarrow> 'r rpc \<times> 's" where
  "client_Consume cc c req = cc_CallUnary cc (lc_consume c) req"

definition client_ConsumeStream ::
  "('h, 'o, 'cl, 'm, 's, 'r) connect_client \<Rightarrow> 'cl logAPIClient \<Rightarrow> 'm \<Rightarrow> 's \<Rightarrow> 'r rpc \<times> 's" where
  "client_ConsumeStream cc c req = cc_CallServerStream cc (lc_consumeStream c) req"

definition client_ProduceStream ::
  "('h, 'o, 'cl, 'm, 's, 'r) connect_client \<Rightarrow> 'cl logAPIClient \<Rightarrow> 'm \<Rightarrow> 's \<Rightarrow> 'r rpc \<times> 's" where
  "client_ProduceStream cc c reqs = cc_CallBidiStream cc (lc_produceStream c) reqs"

text \<open>The handler that implements nothing.\<close>

definition unimplemented :: "string \<Rightarrow> ('m, 's, 'r) rpc_handler" where
  "unimplemented name = (\<lambda>ctx req s.
     (Inl (RpcError (ConnectError CodeUnimplemented (Plain (ErrMsg (''log.v1.LogAPI.'' @ name @ '' is not implemented''))) [])), s))"

definition UnimplementedLogAPIHandler :: "('m, 's, 'r) LogAPIHandler" where
  "UnimplementedLogAPIHandler =
     \<lparr>svc_Produce = unimplemented ''Produce'', svc_Consume = unimplemented ''Consume'',
      svc_ConsumeStream = unimplemented ''ConsumeStream'', svc_ProduceStream = unimplemented ''ProduceStream''\<rparr>"

section \<open>Messages\<close>

text \<open>
  The fields of the request and of the response messages of \<open>gen/log/v1/log.pb.go\<close>; a message has
  the zero value in the fields that its type does not have.
\<close>

record api_request =
  rq_record :: "log_record option"
  rq_offset :: u64

record api_response =
  rs_offset :: u64
  rs_record :: "log_record option"

text \<open>The handlers of \<open>internal/server/log.go\<close> on a log; the two streams are given.\<close>

definition log_handlers ::
  "'s CommitLog \<Rightarrow> (api_request, 's, api_response) rpc_handler \<Rightarrow> (api_request, 's, api_response) rpc_handler \<Rightarrow>
     (api_request, 's, api_response) LogAPIHandler" where
  "log_handlers cl consumeStream produceStream =
     \<lparr>svc_Produce = unary (\<lambda>req. bnd (Produce cl (rq_record req)) (\<lambda>off. ret \<lparr>rs_offset = off, rs_record = None\<rparr>)),
      svc_Consume = unary (\<lambda>req. bnd (Consume cl (rq_offset req)) (\<lambda>rec. ret \<lparr>rs_offset = 0, rs_record = Some rec\<rparr>)),
      svc_ConsumeStream = consumeStream, svc_ProduceStream = produceStream\<rparr>"

section \<open>The wire\<close>

text \<open>
  An HTTP client as \<open>connect\<close> uses it: a request to a URL and its answer. Here it reaches one
  server, to which it authenticates with the given chains.
\<close>

type_synonym ('m, 's, 'r) wire = "string \<Rightarrow> 'm \<Rightarrow> 's \<Rightarrow> 'r http_response \<times> 's"

definition http_wire :: "('m, 's, 'r) http_handler \<Rightarrow> string list list option \<Rightarrow> ('m, 's, 'r) wire" where
  "http_wire serve certs = (\<lambda>url m s. serve None \<lparr>hq_path = url_path url, hq_tls = certs, hq_msg = m\<rparr> s)"

text \<open>\<open>connect\<close> documents that a call sends the message to the URL of the client and returns what the procedure there returned.\<close>

definition client_ok :: "(('m, 's, 'r) wire, 'o, 'cl, 'm, 's, 'r) connect_client \<Rightarrow> bool" where
  "client_ok cc \<longleftrightarrow> (\<forall>h url opts m s x t. h url m s = (Served x, t) \<longrightarrow>
     cc_CallUnary cc (cc_NewClient cc h url opts) m s = (x, t) \<and>
     cc_CallServerStream cc (cc_NewClient cc h url opts) m s = (x, t) \<and>
     cc_CallBidiStream cc (cc_NewClient cc h url opts) m s = (x, t))"

lemma client_okD:
  assumes "client_ok cc" and "h url m s = (Served x, t)"
  shows "cc_CallUnary cc (cc_NewClient cc h url opts) m s = (x, t)"
    and "cc_CallServerStream cc (cc_NewClient cc h url opts) m s = (x, t)"
    and "cc_CallBidiStream cc (cc_NewClient cc h url opts) m s = (x, t)"
  using assms unfolding client_ok_def by blast+

definition url_client :: "(('m, 's, 'r) wire, unit, ('m, 's, 'r) wire \<times> string, 'm, 's, 'r) connect_client" where
  "url_client =
     (let send = (\<lambda>(h, url) m s. case h url m s of
            (Served x, t) \<Rightarrow> (x, t)
          | (HttpError n msg, t) \<Rightarrow> (Inl (RpcError (ConnectError CodeUnknown (Plain (ErrMsg msg)) [])), t)) in
      \<lparr>cc_NewClient = (\<lambda>h url _. (h, url)), cc_CallUnary = send, cc_CallServerStream = send, cc_CallBidiStream = send\<rparr>)"

lemma url_client_ok: "client_ok url_client"
  by (simp add: client_ok_def url_client_def Let_def)

section \<open>The URL of a procedure\<close>

lemma trim_right_replicate:
  assumes "s \<noteq> []" and "last s \<noteq> c"
  shows "trim_right c (s @ replicate n c) = s"
proof -
  obtain u x where s: "s = u @ [x]" "x \<noteq> c"
    using assms by (metis append_butlast_last_id)
  have "dropWhile (\<lambda>y. y = c) (replicate n c @ x # rev u) = x # rev u"
    using s(2) by (induction n) simp_all
  then show ?thesis
    by (simp add: trim_right_def s)
qed

lemma dropWhile_until: "c \<notin> set s \<Longrightarrow> dropWhile (\<lambda>x. x \<noteq> c) (s @ c # t) = c # t"
  by (induction s) auto

lemma url_path_base:
  assumes "CHR '':'' \<notin> set scheme" and "CHR ''/'' \<notin> set host"
  shows "url_path (scheme @ ''://'' @ host @ CHR ''/'' # p) = CHR ''/'' # p"
  using assms by (simp add: url_path_def dropWhile_until)

text \<open>A base URL: a scheme, a host, and any number of slashes.\<close>

definition base_url :: "string \<Rightarrow> string \<Rightarrow> nat \<Rightarrow> string" where
  "base_url scheme host n = scheme @ ''://'' @ host @ replicate n (CHR ''/'')"

definition host_ok :: "string \<Rightarrow> string \<Rightarrow> bool" where
  "host_ok scheme host \<longleftrightarrow> scheme \<in> {''http'', ''https''} \<and> host \<noteq> [] \<and> CHR ''/'' \<notin> set host"

lemma client_paths:
  assumes "host_ok scheme host"
  shows "url_path (trim_right (CHR ''/'') (base_url scheme host n) @ LogAPIProduceProcedure) = LogAPIProduceProcedure"
    and "url_path (trim_right (CHR ''/'') (base_url scheme host n) @ LogAPIConsumeProcedure) = LogAPIConsumeProcedure"
    and "url_path (trim_right (CHR ''/'') (base_url scheme host n) @ LogAPIConsumeStreamProcedure) = LogAPIConsumeStreamProcedure"
    and "url_path (trim_right (CHR ''/'') (base_url scheme host n) @ LogAPIProduceStreamProcedure) = LogAPIProduceStreamProcedure"
proof -
  let ?u = "scheme @ ''://'' @ host"
  have "last ?u \<noteq> CHR ''/''" "?u \<noteq> []"
    using assms by (auto simp: host_ok_def) (metis last_in_set)+
  then have t: "trim_right (CHR ''/'') (base_url scheme host n) = ?u"
    using trim_right_replicate [of ?u "CHR ''/''" n] by (simp add: base_url_def)
  have p: "url_path (?u @ CHR ''/'' # p) = CHR ''/'' # p" for p
    using url_path_base [of scheme host p] assms by (auto simp: host_ok_def)
  show "url_path (trim_right (CHR ''/'') (base_url scheme host n) @ LogAPIProduceProcedure) = LogAPIProduceProcedure"
    "url_path (trim_right (CHR ''/'') (base_url scheme host n) @ LogAPIConsumeProcedure) = LogAPIConsumeProcedure"
    "url_path (trim_right (CHR ''/'') (base_url scheme host n) @ LogAPIConsumeStreamProcedure) = LogAPIConsumeStreamProcedure"
    "url_path (trim_right (CHR ''/'') (base_url scheme host n) @ LogAPIProduceStreamProcedure) = LogAPIProduceStreamProcedure"
    unfolding t procedure_defs by (rule p)+
qed

section \<open>A call reaches its handler\<close>

lemma authenticate_first: "authenticate \<lparr>hq_path = p, hq_tls = Some ((name # cns) # verified), hq_msg = m\<rparr> = Inr name"
  by (simp add: authenticate_def)

lemma client_unary_calls:
  assumes "connect_ok cn" and "client_ok cc" and "NewEnforcer model policy = Inr enf"
    and "setupServer cn emit detail NewEnforcer model policy svc = Inr serve" and "host_ok scheme host"
    and "c = NewLogAPIClient cc (http_wire serve (Some ((name # cns) # verified))) (base_url scheme host n) opts"
  shows "enf name ''*'' LogAPIProduceProcedure = Inr True \<Longrightarrow> svc_Produce svc (Some name) m s = (Inr x, t) \<Longrightarrow>
      client_Produce cc c m s = (Inr x, emit LogAPIProduceProcedure None t)"
    and "enf name ''*'' LogAPIConsumeProcedure = Inr True \<Longrightarrow> svc_Consume svc (Some name) m s = (Inr x, t) \<Longrightarrow>
      client_Consume cc c m s = (Inr x, emit LogAPIConsumeProcedure None t)"
proof -
  let ?r = "\<lambda>p. \<lparr>hq_path = p, hq_tls = Some ((name # cns) # verified), hq_msg = m\<rparr>"
  have serve: "serve None (?r p) s = (Served (Inr x), emit p None t)"
    if "(p, h) \<in> {(LogAPIProduceProcedure, svc_Produce svc), (LogAPIConsumeProcedure, svc_Consume svc)}"
      and "enf name ''*'' p = Inr True" and "h (Some name) m s = (Inr x, t)" for p h
    using serve_unary [where NewEnforcer = NewEnforcer and r = "?r p" and h = h and name = name and ctx = None, OF assms(1,3,4)] that
    by (simp add: authenticate_first)
  show "client_Produce cc c m s = (Inr x, emit LogAPIProduceProcedure None t)"
    if "enf name ''*'' LogAPIProduceProcedure = Inr True" "svc_Produce svc (Some name) m s = (Inr x, t)"
    using serve [of LogAPIProduceProcedure "svc_Produce svc"] that client_paths(1) [OF assms(5)]
    unfolding client_Produce_def assms(6) NewLogAPIClient_def Let_def logAPIClient.simps
    by (intro client_okD(1) [OF assms(2)]) (simp add: http_wire_def)
  show "client_Consume cc c m s = (Inr x, emit LogAPIConsumeProcedure None t)"
    if "enf name ''*'' LogAPIConsumeProcedure = Inr True" "svc_Consume svc (Some name) m s = (Inr x, t)"
    using serve [of LogAPIConsumeProcedure "svc_Consume svc"] that client_paths(2) [OF assms(5)]
    unfolding client_Consume_def assms(6) NewLogAPIClient_def Let_def logAPIClient.simps
    by (intro client_okD(1) [OF assms(2)]) (simp add: http_wire_def)
qed

lemma client_stream_calls:
  assumes "connect_ok cn" and "client_ok cc" and "NewEnforcer model policy = Inr enf"
    and "setupServer cn emit detail NewEnforcer model policy svc = Inr serve" and "host_ok scheme host"
    and "c = NewLogAPIClient cc (http_wire serve (Some ((name # cns) # verified))) (base_url scheme host n) opts"
  shows "client_ConsumeStream cc c m s = svc_ConsumeStream svc (Some name) m s"
    and "client_ProduceStream cc c m s = svc_ProduceStream svc (Some name) m s"
proof -
  let ?r = "\<lambda>p. \<lparr>hq_path = p, hq_tls = Some ((name # cns) # verified), hq_msg = m\<rparr>"
  have serve: "serve None (?r p) s = map_prod Served id (h (Some name) m s)"
    if "(p, h) \<in> {(LogAPIConsumeStreamProcedure, svc_ConsumeStream svc), (LogAPIProduceStreamProcedure, svc_ProduceStream svc)}" for p h
    using serve_stream [where NewEnforcer = NewEnforcer and r = "?r p" and h = h and name = name and ctx = None, OF assms(1,3,4)] that
    by (simp add: authenticate_first)
  show "client_ConsumeStream cc c m s = svc_ConsumeStream svc (Some name) m s"
    using serve [of LogAPIConsumeStreamProcedure "svc_ConsumeStream svc"] client_paths(3) [OF assms(5)]
    unfolding client_ConsumeStream_def assms(6) NewLogAPIClient_def Let_def logAPIClient.simps
    by (cases "svc_ConsumeStream svc (Some name) m s") (auto intro: client_okD(2) [OF assms(2)] simp: http_wire_def)
  show "client_ProduceStream cc c m s = svc_ProduceStream svc (Some name) m s"
    using serve [of LogAPIProduceStreamProcedure "svc_ProduceStream svc"] client_paths(4) [OF assms(5)]
    unfolding client_ProduceStream_def assms(6) NewLogAPIClient_def Let_def logAPIClient.simps
    by (cases "svc_ProduceStream svc (Some name) m s") (auto intro: client_okD(3) [OF assms(2)] simp: http_wire_def)
qed

text \<open>The two unary calls over the replicated log.\<close>

lemma http_produce:
  assumes "connect_ok cn" and "client_ok cc" and "NewEnforcer model policy = Inr enf"
    and "setupServer cn emit detail NewEnforcer model policy (log_handlers (dist_api q cdc rf) cs ps) = Inr serve"
    and "host_ok scheme host"
    and "c = NewLogAPIClient cc (http_wire serve (Some ((name # cns) # verified))) (base_url scheme host n) opts"
    and "enf name ''*'' LogAPIProduceProcedure = Inr True"
    and "dist_rep q cdc rf d conf b rs s" and "dist_fits q cdc conf b rs r"
    and "\<forall>p code rs s. dist_rep q cdc rf d conf b rs s \<longrightarrow> dist_rep q cdc rf d conf b rs (emit p code s)"
  shows "\<exists>t. client_Produce cc c \<lparr>rq_record = Some r, rq_offset = 0\<rparr> s = (Inr \<lparr>rs_offset = b + of_nat (length rs), rs_record = None\<rparr>, t) \<and>
    dist_rep q cdc rf d conf b (rs @ [seg_item b rs r]) t"
proof -
  obtain t where t: "cl_Append (dist_api q cdc rf) (Some r) s = (Inr (b + of_nat (length rs)), t)"
      "dist_rep q cdc rf d conf b (rs @ [seg_item b rs r]) t"
    using dist_service.append_law [OF assms(8,9)] by blast
  have "client_Produce cc c \<lparr>rq_record = Some r, rq_offset = 0\<rparr> s =
      (Inr \<lparr>rs_offset = b + of_nat (length rs), rs_record = None\<rparr>, emit LogAPIProduceProcedure None t)"
    using t(1) by (intro client_unary_calls(1) [where NewEnforcer = NewEnforcer, OF assms(1-7)])
      (simp add: log_handlers_def unary_def Produce_def prog_simps)
  with t(2) assms(10) show ?thesis by blast
qed

lemma http_consume:
  assumes "connect_ok cn" and "client_ok cc" and "NewEnforcer model policy = Inr enf"
    and "setupServer cn emit detail NewEnforcer model policy (log_handlers (dist_api q cdc rf) cs ps) = Inr serve"
    and "host_ok scheme host"
    and "c = NewLogAPIClient cc (http_wire serve (Some ((name # cns) # verified))) (base_url scheme host n) opts"
    and "enf name ''*'' LogAPIConsumeProcedure = Inr True"
    and "dist_rep q cdc rf d conf b rs s" and "i < length rs"
    and "\<forall>p code rs s. dist_rep q cdc rf d conf b rs s \<longrightarrow> dist_rep q cdc rf d conf b rs (emit p code s)"
  shows "\<exists>u. client_Consume cc c \<lparr>rq_record = None, rq_offset = b + of_nat i\<rparr> s = (Inr \<lparr>rs_offset = 0, rs_record = Some (rs ! i)\<rparr>, u) \<and>
    dist_rep q cdc rf d conf b rs u"
proof -
  obtain u where u: "cl_Read (dist_api q cdc rf) (b + of_nat i) s = (Inr (rs ! i), u)" "dist_rep q cdc rf d conf b rs u"
    using dist_service.read_law [OF assms(8,9)] by blast
  have "client_Consume cc c \<lparr>rq_record = None, rq_offset = b + of_nat i\<rparr> s =
      (Inr \<lparr>rs_offset = 0, rs_record = Some (rs ! i)\<rparr>, emit LogAPIConsumeProcedure None u)"
    using u(1) by (intro client_unary_calls(2) [where NewEnforcer = NewEnforcer, OF assms(1-7)])
      (simp add: log_handlers_def unary_def Consume_def prog_simps)
  with u(2) assms(10) show ?thesis by blast
qed

section \<open>Properties\<close>

text \<open>
  C7: a record that is produced over HTTP is consumed over HTTP. A client made for the address of
  a server, with any number of slashes after it, reaches the handler of the procedure that it
  calls. For a user whom the policy allows both procedures, \<open>Produce\<close> runs through the stack of
  the agent and the replicated log and returns the next offset; \<open>Consume\<close> of that offset then
  returns the record, and the log is extended by exactly this record.
\<close>

theorem produce_consume_over_http:
  assumes "connect_ok cn" and "client_ok cc" and "NewEnforcer model policy = Inr enf"
    and "setupServer cn emit detail NewEnforcer model policy (log_handlers (dist_api q cdc rf) cs ps) = Inr serve"
    and "host_ok scheme host"
    and "c = NewLogAPIClient cc (http_wire serve (Some ((name # cns) # verified))) (base_url scheme host n) opts"
    and "enf name ''*'' LogAPIProduceProcedure = Inr True" and "enf name ''*'' LogAPIConsumeProcedure = Inr True"
    and "dist_rep q cdc rf d conf b rs s" and "dist_fits q cdc conf b rs r"
    and "\<forall>p code rs s. dist_rep q cdc rf d conf b rs s \<longrightarrow> dist_rep q cdc rf d conf b rs (emit p code s)"
  shows "\<exists>t u. client_Produce cc c \<lparr>rq_record = Some r, rq_offset = 0\<rparr> s = (Inr \<lparr>rs_offset = b + of_nat (length rs), rs_record = None\<rparr>, t) \<and>
    client_Consume cc c \<lparr>rq_record = None, rq_offset = b + of_nat (length rs)\<rparr> t = (Inr \<lparr>rs_offset = 0, rs_record = Some (seg_item b rs r)\<rparr>, u) \<and>
    dist_rep q cdc rf d conf b (rs @ [seg_item b rs r]) u"
proof -
  let ?rs = "rs @ [seg_item b rs r]"
  obtain t where t: "client_Produce cc c \<lparr>rq_record = Some r, rq_offset = 0\<rparr> s = (Inr \<lparr>rs_offset = b + of_nat (length rs), rs_record = None\<rparr>, t)"
      "dist_rep q cdc rf d conf b ?rs t"
    using http_produce [where NewEnforcer = NewEnforcer, OF assms(1-7,9-11)] by blast
  have "length rs < length ?rs"
    by simp
  from http_consume [where NewEnforcer = NewEnforcer, OF assms(1-6,8) t(2) this assms(11)] t(1) show ?thesis
    by auto
qed


theorem produce_consume_over_http_witness:
  "\<exists>serve s t u. setupServer plain_connect (\<lambda>_ _ s. s) (\<lambda>m. Inr m) (\<lambda>_ _. Inr acl_policy) ''model.conf'' ''policy.csv''
       (log_handlers (dist_api demo_req demo_codec demo_raft) (unimplemented ''ConsumeStream'') (unimplemented ''ProduceStream'')) = Inr serve \<and>
     (let c = NewLogAPIClient url_client (http_wire serve (Some [[''root'']])) (base_url ''https'' ''node:8400'' 2) [] in
      client_Produce url_client c \<lparr>rq_record = Some (demo_record 9), rq_offset = 0\<rparr> s = (Inr \<lparr>rs_offset = 3, rs_record = None\<rparr>, t) \<and>
      client_Consume url_client c \<lparr>rq_record = None, rq_offset = 3\<rparr> t =
        (Inr \<lparr>rs_offset = 0, rs_record = Some (demo_record 9\<lparr>r_offset := 3\<rparr>)\<rparr>, u))"
proof -
  obtain l w where "log_rep demo_codec ''log'' demo_config 0 demo_records (l, w)"
    using demo_log_three by blast
  then have rep: "dist_rep demo_req demo_codec demo_raft ''log'' demo_config 0 demo_records ([], l, w)"
    using demo_raft_commits by (simp add: dist_rep_def)
  have fits: "dist_fits demo_req demo_codec demo_config 0 demo_records (demo_record 9)"
    by (rule demo_dist_fits) (simp add: demo_records_def)
  obtain serve where s: "setupServer plain_connect (\<lambda>_ _ s. s) (\<lambda>m. Inr m) (\<lambda>_ _. Inr acl_policy) ''model.conf'' ''policy.csv''
       (log_handlers (dist_api demo_req demo_codec demo_raft) (unimplemented ''ConsumeStream'') (unimplemented ''ProduceStream'')) = Inr serve"
    by (auto simp: setupServer_def auth_New_def)
  have pol: "acl_policy ''root'' ''*'' LogAPIProduceProcedure = Inr True" "acl_policy ''root'' ''*'' LogAPIConsumeProcedure = Inr True"
    by (simp_all add: acl_policy_def)
  have host: "host_ok ''https'' ''node:8400''"
    by (simp add: host_ok_def)
  note produce_consume_over_http [where NewEnforcer = "\<lambda>_ _. Inr acl_policy", OF plain_connect_ok url_client_ok refl s host refl pol rep fits]
  from this [of "[]" "[]" 2 "[]"] show ?thesis
    using s by (simp add: demo_records_def Let_def) blast
qed

end
