(* ===== verification/Membership.thy ===== *)
theory Membership
  imports Distributed
begin

text \<open>
  Discovery, \<open>internal/discovery/membership.go\<close>: the events of \<open>serf\<close> become calls of a handler,
  which in the agent is the replicated log. The \<open>serf\<close> package is a parameter.
\<close>

section \<open>Members, events and handlers\<close>

record member =
  m_Name :: string
  m_Tags :: "string \<rightharpoonup> string"

datatype serf_kind = EventMemberJoin | EventMemberLeave | EventMemberFailed | EventOther

record serf_event =
  ev_Type :: serf_kind
  ev_Members :: "member list"

text \<open>The \<open>Handler\<close> interface.\<close>

record 's Handler =
  h_Join :: "string \<Rightarrow> string \<Rightarrow> ('s, unit) prog"
  h_Leave :: "string \<Rightarrow> ('s, unit) prog"

section \<open>Setting up\<close>

record discovery_config =
  dc_NodeName :: string
  dc_BindAddress :: string
  dc_Tags :: "string \<rightharpoonup> string"
  dc_StartJoinAddresses :: "string list option"

text \<open>What \<open>setupSerf\<close> sets in the configuration of \<open>serf\<close>.\<close>

record serf_config =
  sc_BindAddr :: string
  sc_BindPort :: int
  sc_EventBuffer :: nat
  sc_Tags :: "string \<rightharpoonup> string"
  sc_NodeName :: string

text \<open>
  The \<open>serf\<close> package, over a state \<open>'x\<close>, and \<open>net.ResolveTCPAddr\<close>, which may ask a name server.
\<close>

record ('x, 'sf) serf_pkg =
  sp_ResolveTCPAddr :: "string \<Rightarrow> ('x, string \<times> int) prog"
  sp_Create :: "serf_config \<Rightarrow> ('x, 'sf) prog"
  sp_Join :: "'sf \<Rightarrow> string list \<Rightarrow> ('x, unit) prog"
  sp_Members :: "'sf \<Rightarrow> 'x \<Rightarrow> member list"
  sp_Leave :: "'sf \<Rightarrow> ('x, unit) prog"

text \<open>The membership: \<open>mb_handling\<close> says that the goroutine of its event handler was started.\<close>

record ('s, 'sf) Membership =
  mb_Config :: discovery_config
  mb_handler :: "'s Handler"
  mb_serf :: "'sf option"
  mb_handling :: bool

definition setupSerf :: "('x, 'sf) serf_pkg \<Rightarrow> (('s, 'sf) Membership \<times> 'x, unit) prog" where
  "setupSerf sp = (\<lambda>(m, x). let c = mb_Config m in
     (case sp_ResolveTCPAddr sp (dc_BindAddress c) x of
        (Inl f, x1) \<Rightarrow> (Inl f, (m, x1))
      | (Inr (ip, port), x1) \<Rightarrow>
          (case sp_Create sp \<lparr>sc_BindAddr = ip, sc_BindPort = port, sc_EventBuffer = 256,
              sc_Tags = dc_Tags c, sc_NodeName = dc_NodeName c\<rparr> x1 of
            (Inl f, x2) \<Rightarrow> (Inl f, (m, x2))
          | (Inr sf, x2) \<Rightarrow>
              (let m' = m\<lparr>mb_serf := Some sf, mb_handling := True\<rparr> in
               (case dc_StartJoinAddresses c of
                  None \<Rightarrow> (Inr (), (m', x2))
                | Some addrs \<Rightarrow> (case sp_Join sp sf addrs x2 of (r, x3) \<Rightarrow> (r, (m', x3))))))))"

text \<open>\<open>New\<close> returns the membership also when its set-up failed.\<close>

definition discovery_New ::
  "('x, 'sf) serf_pkg \<Rightarrow> 's Handler \<Rightarrow> discovery_config \<Rightarrow> 'x \<Rightarrow> unit res \<times> ('s, 'sf) Membership \<times> 'x" where
  "discovery_New sp handler config = (\<lambda>x.
     setupSerf sp (\<lparr>mb_Config = config, mb_handler = handler, mb_serf = None, mb_handling = False\<rparr>, x))"

text \<open>\<open>Members\<close> and \<open>Leave\<close> are those of \<open>serf\<close>, which is nil if the set-up failed before.\<close>

definition membership_Members :: "('x, 'sf) serf_pkg \<Rightarrow> ('s, 'sf) Membership \<Rightarrow> 'x \<Rightarrow> member list res" where
  "membership_Members sp m x = (case mb_serf m of
       None \<Rightarrow> Inl (Panic NilDereference)
     | Some sf \<Rightarrow> Inr (sp_Members sp sf x))"

definition membership_Leave :: "('x, 'sf) serf_pkg \<Rightarrow> ('s, 'sf) Membership \<Rightarrow> ('x, unit) prog" where
  "membership_Leave sp m = (case mb_serf m of
       None \<Rightarrow> fail (Panic NilDereference)
     | Some sf \<Rightarrow> sp_Leave sp sf)"

section \<open>The event handler\<close>

text \<open>The state of the handler and the lines that were logged.\<close>

datatype log_level = LevelDebug | LevelError

type_synonym 's logged = "'s \<times> (log_level \<times> string \<times> goerr \<times> string) list"

definition ErrNotLeader :: goerr where
  "ErrNotLeader = ErrMsg ''node is not the leader''"

definition membership_logError :: "string \<Rightarrow> goerr \<Rightarrow> member \<Rightarrow> ('s logged, unit) prog" where
  "membership_logError msg err mem =
     upd_st (\<lambda>(s, out). (s, out @ [(if err = ErrNotLeader then LevelDebug else LevelError, msg, err, m_Name mem)]))"

definition on_handler :: "('s, 'a) prog \<Rightarrow> ('s logged, 'a) prog" where
  "on_handler m = (\<lambda>(s, out). case m s of (r, t) \<Rightarrow> (r, (t, out)))"

definition handleJoin :: "'s Handler \<Rightarrow> member \<Rightarrow> ('s logged, unit) prog" where
  "handleJoin h mem = iferr (on_handler (h_Join h (m_Name mem)
       (case m_Tags mem ''rpc_addr'' of None \<Rightarrow> '''' | Some a \<Rightarrow> a)))
     (\<lambda>err. membership_logError ''failed to handle join'' err mem) ret"

definition handleLeave :: "'s Handler \<Rightarrow> member \<Rightarrow> ('s logged, unit) prog" where
  "handleLeave h mem = iferr (on_handler (h_Leave h (m_Name mem)))
     (\<lambda>err. membership_logError ''failed to handle leave'' err mem) ret"

definition isLocal :: "string \<Rightarrow> member \<Rightarrow> bool" where
  "isLocal localName mem \<longleftrightarrow> m_Name mem = localName"

definition handle_event :: "'s Handler \<Rightarrow> string \<Rightarrow> serf_event \<Rightarrow> ('s logged, unit) prog" where
  "handle_event h localName e = (case ev_Type e of
       EventMemberJoin \<Rightarrow> prog_iter (\<lambda>mem. if isLocal localName mem then ret () else handleJoin h mem) (ev_Members e)
     | EventMemberLeave \<Rightarrow> prog_iter (\<lambda>mem. if isLocal localName mem then ret () else handleLeave h mem) (ev_Members e)
     | EventMemberFailed \<Rightarrow> prog_iter (\<lambda>mem. if isLocal localName mem then ret () else handleLeave h mem) (ev_Members e)
     | EventOther \<Rightarrow> ret ())"

text \<open>The loop over what its two channels deliver; without a result it is still waiting.\<close>

datatype serf_input = SerfShutdown | SerfEvent serf_event

fun eventHandler :: "'s Handler \<Rightarrow> string \<Rightarrow> serf_input list \<Rightarrow> 's logged \<Rightarrow> unit res option \<times> 's logged" where
  "eventHandler h localName [] s = (None, s)"
| "eventHandler h localName (SerfShutdown # ins) s = (Some (Inr ()), s)"
| "eventHandler h localName (SerfEvent e # ins) s = (case handle_event h localName e s of
       (Inr _, t) \<Rightarrow> eventHandler h localName ins t
     | (Inl f, t) \<Rightarrow> (Some (Inl f), t))"

section \<open>The contract of a handler\<close>

text \<open>
  What holds of a handler's state for good, as long as it is only told of other members: each
  implementation has its own \<open>inv\<close>.
\<close>

locale membership_handler =
  fixes inv :: "'s \<Rightarrow> bool" and h :: "'s Handler" and localName :: string
  assumes join_keeps: "name \<noteq> localName \<Longrightarrow> keeps inv (h_Join h name addr)"
    and leave_keeps: "name \<noteq> localName \<Longrightarrow> keeps inv (h_Leave h name)"
begin

lemma on_handler_keeps: "keeps inv m \<Longrightarrow> keeps (\<lambda>(s, out). inv s) (on_handler m)"
  by (rule keepsI) (auto simp: on_handler_def split: prod.splits dest: keepsD)

lemma handle_event_keeps: "keeps (\<lambda>(s, out). inv s) (handle_event h localName e)"
  unfolding handle_event_def handleJoin_def handleLeave_def membership_logError_def
  by (cases "ev_Type e")
    (auto intro!: keeps_intros on_handler_keeps keeps_upd_st join_keeps leave_keeps simp: isLocal_def)

lemma eventHandler_keeps: "inv (fst s) \<Longrightarrow> inv (fst (snd (eventHandler h localName ins s)))"
proof (induction ins arbitrary: s)
  case (Cons x ins)
  show ?case
  proof (cases x)
    case (SerfEvent e)
    then show ?thesis
      using keeps_snd [OF handle_event_keeps, of s e] Cons by (auto simp: case_prod_beta split: sum.splits)
  qed (use Cons.prems in simp)
qed simp

end

section \<open>The replicated log as the handler\<close>

definition dist_handler :: "'s raft \<Rightarrow> 's Handler" where
  "dist_handler rf = \<lparr>h_Join = dist_Join rf, h_Leave = dist_Leave rf\<rparr>"

text \<open>
  What \<open>raft\<close> promises of its configuration, also when it refuses a change: reading it changes
  nothing, and adding or removing a server does not touch the others.
\<close>

definition raft_members :: "'s raft \<Rightarrow> ('s \<Rightarrow> server set) \<Rightarrow> bool" where
  "raft_members rf members \<longleftrightarrow>
     (\<forall>s. members (snd (rf_GetConfiguration rf s)) = members s) \<and>
     (\<forall>i s. {v \<in> members s. sv_id v \<noteq> i} \<subseteq> members (snd (rf_RemoveServer rf i s))) \<and>
     (\<forall>i a s. {v \<in> members s. sv_id v \<noteq> i} \<subseteq> members (snd (rf_AddVoter rf i a s)))"

definition keeps_member :: "'s raft \<Rightarrow> ('s \<Rightarrow> server set) \<Rightarrow> server \<Rightarrow> 's \<Rightarrow> bool" where
  "keeps_member rf members v s \<longleftrightarrow> raft_members rf members \<and> v \<in> members s"

lemma raft_membersD:
  assumes "raft_members rf members"
  shows "members (snd (rf_GetConfiguration rf s)) = members s"
    and "v \<in> members s \<Longrightarrow> sv_id v \<noteq> i \<Longrightarrow> v \<in> members (snd (rf_RemoveServer rf i s))"
    and "v \<in> members s \<Longrightarrow> sv_id v \<noteq> i \<Longrightarrow> v \<in> members (snd (rf_AddVoter rf i a s))"
  using assms by (simp_all add: raft_members_def subset_iff)

lemma keeps_member_raft:
  "keeps (keeps_member rf members v) (rf_GetConfiguration rf)"
  "i \<noteq> sv_id v \<Longrightarrow> keeps (keeps_member rf members v) (rf_RemoveServer rf i)"
  "i \<noteq> sv_id v \<Longrightarrow> keeps (keeps_member rf members v) (rf_AddVoter rf i a)"
  by (auto simp: keeps_def keeps_member_def raft_membersD)

lemma join_loop_keeps: "i \<noteq> sv_id v \<Longrightarrow> keeps (keeps_member rf members v) (join_loop rf i a vs)"
  by (induction vs) (auto intro!: keeps_intros keeps_member_raft)

interpretation dist_member: membership_handler "keeps_member rf members v" "dist_handler rf" "sv_id v"
  for rf members v
  by unfold_locales (simp_all add: dist_handler_def dist_Join_def dist_Leave_def keeps_bnd keeps_member_raft join_loop_keeps)

section \<open>Properties\<close>

text \<open>
  C13: a node never votes itself out. Whatever events \<open>serf\<close> delivers, joins, leaves and failures
  of any members in any order, and whether \<open>raft\<close> accepts the changes or refuses them, the
  server of the local node stays in the configuration with its address.
\<close>

theorem membership_keeps_local:
  assumes "raft_members rf members" and "v \<in> members s" and "sv_id v = localName"
  shows "v \<in> members (fst (snd (eventHandler (dist_handler rf) localName ins (s, out))))"
  using dist_member.eventHandler_keeps [of rf members v "(s, out)" ins] assms by (simp add: keeps_member_def)

lemma demo_raft_members: "raft_members demo_raft (\<lambda>(k, s). set k)"
  by (auto simp: raft_members_def demo_raft_def split_beta)

theorem membership_keeps_local_witness:
  "\<exists>s. \<lparr>sv_id = ''a'', sv_addr = ''a:1''\<rparr> \<in> set (fst (fst (snd (eventHandler (dist_handler demo_raft) ''a''
     [SerfEvent \<lparr>ev_Type = EventMemberFailed, ev_Members = [\<lparr>m_Name = ''a'', m_Tags = Map.empty\<rparr>, \<lparr>m_Name = ''b'', m_Tags = Map.empty\<rparr>]\<rparr>]
     (([\<lparr>sv_id = ''a'', sv_addr = ''a:1''\<rparr>, \<lparr>sv_id = ''b'', sv_addr = ''b:1''\<rparr>], s), [])))))"
  using membership_keeps_local [OF demo_raft_members, of "\<lparr>sv_id = ''a'', sv_addr = ''a:1''\<rparr>"
    "([\<lparr>sv_id = ''a'', sv_addr = ''a:1''\<rparr>, \<lparr>sv_id = ''b'', sv_addr = ''b:1''\<rparr>], _)" "''a''"]
  by (simp add: split_beta del: eventHandler.simps)

section \<open>A leader\<close>

text \<open>
  What \<open>raft\<close> does on a leader: it carries out a change of the configuration, unless the change
  would remove the last server or give two servers the same identifier or the same address.
\<close>

definition raft_leads :: "'s raft \<Rightarrow> ('s \<Rightarrow> server list) \<Rightarrow> bool" where
  "raft_leads rf members \<longleftrightarrow>
     (\<forall>s. rf_GetConfiguration rf s = (Inr (members s), s)) \<and>
     (\<forall>i s. servers_ok (members s) \<longrightarrow> (\<exists>v \<in> set (members s). sv_id v \<noteq> i) \<longrightarrow>
        (\<exists>t. rf_RemoveServer rf i s = (Inr (), t) \<and> servers_ok (members t) \<and> set (members t) = {v \<in> set (members s). sv_id v \<noteq> i})) \<and>
     (\<forall>i a s. servers_ok (members s) \<longrightarrow> (\<forall>v \<in> set (members s). sv_id v \<noteq> i \<and> sv_addr v \<noteq> a) \<longrightarrow>
        (\<exists>t. rf_AddVoter rf i a s = (Inr (), t) \<and> servers_ok (members t) \<and>
           set (members t) = insert \<lparr>sv_id = i, sv_addr = a\<rparr> (set (members s))))"

text \<open>The configuration as a map from identifiers to addresses, and what an event should do to it.\<close>

definition config_is :: "server list \<Rightarrow> (string \<rightharpoonup> string) \<Rightarrow> bool" where
  "config_is vs m \<longleftrightarrow> servers_ok vs \<and> (\<forall>i a. m i = Some a \<longleftrightarrow> \<lparr>sv_id = i, sv_addr = a\<rparr> \<in> set vs)"

definition rpc_addr :: "member \<Rightarrow> string" where
  "rpc_addr mem = (case m_Tags mem ''rpc_addr'' of None \<Rightarrow> '''' | Some a \<Rightarrow> a)"

primrec follow_joins :: "member list \<Rightarrow> (string \<rightharpoonup> string) \<Rightarrow> (string \<rightharpoonup> string)" where
  "follow_joins [] m = m"
| "follow_joins (mem # ms) m = follow_joins ms (m(m_Name mem \<mapsto> rpc_addr mem))"

definition follow :: "string \<Rightarrow> serf_event \<Rightarrow> (string \<rightharpoonup> string) \<Rightarrow> (string \<rightharpoonup> string)" where
  "follow localName e m = (let ms = filter (\<lambda>mem. \<not> isLocal localName mem) (ev_Members e) in
     case ev_Type e of
       EventMemberJoin \<Rightarrow> follow_joins ms m
     | EventOther \<Rightarrow> m
     | _ \<Rightarrow> m |` (- (m_Name ` set ms)))"

text \<open>
  No member joins with the address of another server: for these \<open>Join\<close> leaves the other
  server in the configuration, and \<open>raft\<close> refuses to add the member.
\<close>

primrec addrs_free :: "member list \<Rightarrow> (string \<rightharpoonup> string) \<Rightarrow> bool" where
  "addrs_free [] m \<longleftrightarrow> True"
| "addrs_free (mem # ms) m \<longleftrightarrow> (\<forall>i. m i = Some (rpc_addr mem) \<longrightarrow> i = m_Name mem) \<and>
     addrs_free ms (m(m_Name mem \<mapsto> rpc_addr mem))"

primrec events_ok :: "string \<Rightarrow> serf_event list \<Rightarrow> (string \<rightharpoonup> string) \<Rightarrow> bool" where
  "events_ok localName [] m \<longleftrightarrow> True"
| "events_ok localName (e # es) m \<longleftrightarrow>
     (ev_Type e = EventMemberJoin \<longrightarrow> addrs_free (filter (\<lambda>mem. \<not> isLocal localName mem) (ev_Members e)) m) \<and>
     events_ok localName es (follow localName e m)"

lemma raft_leadsE:
  assumes "raft_leads rf members" and "config_is (members s) m"
  shows "rf_GetConfiguration rf s = (Inr (members s), s)"
    and "j \<noteq> i \<Longrightarrow> m j \<noteq> None \<Longrightarrow> \<exists>t. rf_RemoveServer rf i s = (Inr (), t) \<and> config_is (members t) (m(i := None))"
    and "m i = None \<Longrightarrow> \<forall>j. m j \<noteq> Some a \<Longrightarrow> \<exists>t. rf_AddVoter rf i a s = (Inr (), t) \<and> config_is (members t) (m(i \<mapsto> a))"
proof -
  have ok: "servers_ok (members s)" and mem: "\<And>i a. m i = Some a \<longleftrightarrow> \<lparr>sv_id = i, sv_addr = a\<rparr> \<in> set (members s)"
    using assms(2) by (simp_all add: config_is_def)
  show "rf_GetConfiguration rf s = (Inr (members s), s)"
    using assms(1) by (simp add: raft_leads_def)
  show "\<exists>t. rf_RemoveServer rf i s = (Inr (), t) \<and> config_is (members t) (m(i := None))" if "j \<noteq> i" "m j \<noteq> None"
  proof -
    have "\<exists>v \<in> set (members s). sv_id v \<noteq> i"
      using that mem by (metis not_None_eq server.select_convs(1))
    then obtain t where "rf_RemoveServer rf i s = (Inr (), t)" "servers_ok (members t)"
        "set (members t) = {v \<in> set (members s). sv_id v \<noteq> i}"
      using assms(1) ok unfolding raft_leads_def by blast
    then show ?thesis
      by (intro exI [of _ t]) (auto simp: config_is_def mem)
  qed
  show "\<exists>t. rf_AddVoter rf i a s = (Inr (), t) \<and> config_is (members t) (m(i \<mapsto> a))" if "m i = None" "\<forall>j. m j \<noteq> Some a"
  proof -
    have "\<forall>v \<in> set (members s). sv_id v \<noteq> i \<and> sv_addr v \<noteq> a"
      using that mem by (metis option.distinct(1) server.surjective unit.exhaust)
    then obtain t where "rf_AddVoter rf i a s = (Inr (), t)" "servers_ok (members t)"
        "set (members t) = insert \<lparr>sv_id = i, sv_addr = a\<rparr> (set (members s))"
      using assms(1) ok unfolding raft_leads_def by blast
    moreover have "(m(i \<mapsto> a)) j = Some b \<longleftrightarrow> \<lparr>sv_id = j, sv_addr = b\<rparr> \<in> insert \<lparr>sv_id = i, sv_addr = a\<rparr> (set (members s))" for j b
      using that(1) mem [of j b] by auto
    ultimately show ?thesis
      by (intro exI [of _ t]) (simp add: config_is_def)
  qed
qed

text \<open>\<open>Join\<close> and \<open>Leave\<close> on a leader; \<open>j\<close> is another server, which stays.\<close>

lemma dist_Join_leads:
  assumes leads: "raft_leads rf members" and conf: "config_is (members s) m"
    and free: "\<forall>k. m k = Some addr \<longrightarrow> k = sid" and j: "j \<noteq> sid" "m j \<noteq> None"
  shows "\<exists>t. dist_Join rf sid addr s = (Inr (), t) \<and> config_is (members t) (m(sid \<mapsto> addr))"
proof -
  have ok: "servers_ok (members s)" and mem: "\<And>i a. m i = Some a \<longleftrightarrow> \<lparr>sv_id = i, sv_addr = a\<rparr> \<in> set (members s)"
    using conf by (simp_all add: config_is_def)
  have run: "dist_Join rf sid addr s = join_loop rf sid addr (members s) s"
    using raft_leadsE(1) [OF leads conf] by (simp add: dist_Join_def prog_simps)
  show ?thesis
  proof (cases "m sid")
    case None
    have "\<forall>v \<in> set (members s). sv_id v \<noteq> sid \<and> sv_addr v \<noteq> addr"
      using None free mem by (metis option.distinct(1) server.surjective unit.exhaust)
    then have "dist_Join rf sid addr s = rf_AddVoter rf sid addr s"
      using join_loop_skip [of "members s" sid addr rf "[]"] by (simp add: run)
    moreover have "\<forall>k. m k \<noteq> Some addr"
      using None free by auto
    ultimately show ?thesis
      using raft_leadsE(3) [OF leads conf None] by simp
  next
    case (Some a)
    then obtain xs ys where vs: "members s = xs @ \<lparr>sv_id = sid, sv_addr = a\<rparr> # ys"
        "\<forall>u \<in> set (xs @ ys). sv_id u \<noteq> sid \<and> sv_addr u \<noteq> a"
      using servers_ok_split [OF ok] mem by (metis server.select_convs)
    have others: "\<forall>u \<in> set xs. sv_id u \<noteq> sid \<and> sv_addr u \<noteq> addr" "\<forall>u \<in> set ys. sv_id u \<noteq> sid \<and> sv_addr u \<noteq> addr"
      using vs free mem by (metis (mono_tags, opaque_lifting) Un_iff list.set_intros(2) server.surjective set_append unit.exhaust)+
    show ?thesis
    proof (cases "a = addr")
      case True
      then have "dist_Join rf sid addr s = (Inr (), s)"
        using others(1) by (simp add: run vs(1) join_loop_skip prog_simps)
      then show ?thesis
        using conf Some True by (metis fun_upd_triv)
    next
      case False
      obtain t where t: "rf_RemoveServer rf sid s = (Inr (), t)" "config_is (members t) (m(sid := None))"
        using raft_leadsE(2) [OF leads conf j] by blast
      have "\<forall>k. (m(sid := None)) k \<noteq> Some addr"
        using free by auto
      then obtain u where u: "rf_AddVoter rf sid addr t = (Inr (), u)" "config_is (members u) (m(sid := None, sid \<mapsto> addr))"
        using raft_leadsE(3) [OF leads t(2) fun_upd_same] by blast
      have "dist_Join rf sid addr s = (Inr (), u)"
        using others False t(1) u(1) join_loop_skip [of ys sid addr rf "[]"] by (simp add: run vs(1) join_loop_skip prog_simps)
      with u(2) show ?thesis by simp
    qed
  qed
qed

lemma handle_joins:
  assumes "raft_leads rf members"
  shows "config_is (members s) m \<Longrightarrow> m localName \<noteq> None \<Longrightarrow> addrs_free (filter (\<lambda>mem. \<not> isLocal localName mem) ms) m \<Longrightarrow>
    \<exists>t. prog_iter (\<lambda>mem. if isLocal localName mem then ret () else handleJoin (dist_handler rf) mem) ms (s, out) = (Inr (), (t, out)) \<and>
      config_is (members t) (follow_joins (filter (\<lambda>mem. \<not> isLocal localName mem) ms) m)"
proof (induction ms arbitrary: s m)
  case (Cons mem ms)
  show ?case
  proof (cases "isLocal localName mem")
    case False
    then obtain t where t: "dist_Join rf (m_Name mem) (rpc_addr mem) s = (Inr (), t)" "config_is (members t) (m(m_Name mem \<mapsto> rpc_addr mem))"
      using dist_Join_leads [OF assms Cons.prems(1), of "rpc_addr mem" "m_Name mem" localName] Cons.prems(2,3) by (auto simp: isLocal_def)
    then have "handleJoin (dist_handler rf) mem (s, out) = (Inr (), (t, out))"
      by (simp add: handleJoin_def dist_handler_def on_handler_def rpc_addr_def prog_simps)
    moreover have "(m(m_Name mem \<mapsto> rpc_addr mem)) localName \<noteq> None"
      using Cons.prems(2) by simp
    ultimately show ?thesis
      using Cons.IH [OF t(2)] Cons.prems(3) False by (simp add: prog_simps del: fun_upd_apply)
  qed (use Cons in \<open>simp add: prog_simps\<close>)
qed (simp add: prog_simps)

lemma handle_leaves:
  assumes "raft_leads rf members"
  shows "config_is (members s) m \<Longrightarrow> m localName \<noteq> None \<Longrightarrow>
    \<exists>t. prog_iter (\<lambda>mem. if isLocal localName mem then ret () else handleLeave (dist_handler rf) mem) ms (s, out) = (Inr (), (t, out)) \<and>
      config_is (members t) (m |` (- (m_Name ` set (filter (\<lambda>mem. \<not> isLocal localName mem) ms))))"
proof (induction ms arbitrary: s m)
  case (Cons mem ms)
  show ?case
  proof (cases "isLocal localName mem")
    case False
    then obtain t where t: "rf_RemoveServer rf (m_Name mem) s = (Inr (), t)" "config_is (members t) (m(m_Name mem := None))"
      using raft_leadsE(2) [OF assms Cons.prems(1), of localName "m_Name mem"] Cons.prems(2) by (auto simp: isLocal_def)
    then have "handleLeave (dist_handler rf) mem (s, out) = (Inr (), (t, out))"
      by (simp add: handleLeave_def dist_handler_def dist_Leave_def on_handler_def prog_simps)
    moreover have "(m(m_Name mem := None)) |` (- A) = m |` (- insert (m_Name mem) A)" for A
      by (rule ext) (simp add: restrict_map_def)
    moreover have "(m(m_Name mem := None)) localName \<noteq> None"
      using Cons.prems(2) False by (simp add: isLocal_def)
    ultimately show ?thesis
      using Cons.IH [OF t(2)] False by (simp add: prog_simps del: fun_upd_apply restrict_fun_upd restrict_upd_same)
  qed (use Cons in \<open>simp add: prog_simps\<close>)
qed (simp add: prog_simps restrict_map_def)

lemma handle_event_follows:
  assumes "raft_leads rf members" and "config_is (members s) m" and "m localName \<noteq> None" and "events_ok localName [e] m"
  shows "\<exists>t. handle_event (dist_handler rf) localName e (s, out) = (Inr (), (t, out)) \<and> config_is (members t) (follow localName e m)"
proof (cases "ev_Type e")
  case EventMemberJoin
  then show ?thesis
    using handle_joins [OF assms(1-3)] assms(4) by (simp add: handle_event_def follow_def)
qed (use handle_leaves [OF assms(1-3)] assms(2) in \<open>simp_all add: handle_event_def follow_def prog_simps Let_def\<close>)

lemma follow_joins_other: "i \<notin> m_Name ` set ms \<Longrightarrow> follow_joins ms m i = m i"
  by (induction ms arbitrary: m) auto

lemma follow_local: "follow localName e m localName = m localName"
  by (auto simp: follow_def Let_def isLocal_def restrict_map_def intro!: follow_joins_other split: serf_kind.split)

text \<open>
  C34: the configuration follows the members. On a leader, whatever events \<open>serf\<close> delivers, each
  with any number of members, the event handler goes on without logging an error, and the
  configuration is then what the events say: every member of a join event has the address of its
  \<open>rpc_addr\<close> tag, also one that had another address before, every member of a leave or failure
  event is gone, and nothing else has changed; events about the local member do nothing. The local
  server is in the configuration at the start, and no member joins with the address of another
  server, for which \<open>Join\<close> goes wrong.
\<close>

theorem membership_follows:
  assumes "raft_leads rf members" and "config_is (members s) m" and "m localName \<noteq> None" and "events_ok localName es m"
  shows "\<exists>t. eventHandler (dist_handler rf) localName (map SerfEvent es) (s, out) = (None, (t, out)) \<and>
    config_is (members t) (fold (follow localName) es m)"
  using assms(2-4)
proof (induction es arbitrary: s m)
  case (Cons e es)
  then obtain t where t: "handle_event (dist_handler rf) localName e (s, out) = (Inr (), (t, out))" "config_is (members t) (follow localName e m)"
    using handle_event_follows [OF assms(1) Cons.prems(1,2), of e out] by auto
  with Cons.IH [OF t(2)] Cons.prems(2,3) show ?case
    by (simp add: follow_local)
qed simp

lemma demo_raft_leads: "raft_leads demo_raft fst"
  by (auto simp: raft_leads_def demo_raft_def servers_ok_def distinct_map intro: inj_on_subset)

theorem membership_follows_witness:
  "\<exists>s t. eventHandler (dist_handler demo_raft) ''a''
       [SerfEvent \<lparr>ev_Type = EventMemberJoin, ev_Members = [\<lparr>m_Name = ''b'', m_Tags = [''rpc_addr'' \<mapsto> ''b:1'']\<rparr>, \<lparr>m_Name = ''c'', m_Tags = [''rpc_addr'' \<mapsto> ''c:1'']\<rparr>]\<rparr>,
        SerfEvent \<lparr>ev_Type = EventMemberFailed, ev_Members = [\<lparr>m_Name = ''a'', m_Tags = Map.empty\<rparr>, \<lparr>m_Name = ''b'', m_Tags = Map.empty\<rparr>]\<rparr>]
       (([\<lparr>sv_id = ''a'', sv_addr = ''a:1''\<rparr>], s), []) = (None, (t, [])) \<and>
     config_is (fst t) [''a'' \<mapsto> ''a:1'', ''c'' \<mapsto> ''c:1'']"
proof -
  let ?b = "\<lparr>m_Name = ''b'', m_Tags = [''rpc_addr'' \<mapsto> ''b:1'']\<rparr>" and ?c = "\<lparr>m_Name = ''c'', m_Tags = [''rpc_addr'' \<mapsto> ''c:1'']\<rparr>"
  let ?es = "[\<lparr>ev_Type = EventMemberJoin, ev_Members = [?b, ?c]\<rparr>,
    \<lparr>ev_Type = EventMemberFailed, ev_Members = [\<lparr>m_Name = ''a'', m_Tags = Map.empty\<rparr>, \<lparr>m_Name = ''b'', m_Tags = Map.empty\<rparr>]\<rparr>]"
  fix s :: "log \<times> os"
  have conf: "config_is (fst ([\<lparr>sv_id = ''a'', sv_addr = ''a:1''\<rparr>], s)) [''a'' \<mapsto> ''a:1'']"
    by (auto simp: config_is_def servers_ok_def)
  have evs: "events_ok ''a'' ?es [''a'' \<mapsto> ''a:1'']"
    by (auto simp: isLocal_def rpc_addr_def)
  have "fold (follow ''a'') ?es [''a'' \<mapsto> ''a:1''] = [''a'' \<mapsto> ''a:1'', ''c'' \<mapsto> ''c:1'']"
    by (auto simp: follow_def isLocal_def rpc_addr_def restrict_map_def fun_eq_iff)
  with membership_follows [OF demo_raft_leads conf _ evs, of "[]"] show ?thesis
    by (intro exI [of _ s]) (simp del: fold_simps eventHandler.simps)
qed

end
