(* ===== verification/Ports.thy ===== *)
theory Ports
  imports Prelude FileNames
begin

text \<open>
  Ports and addresses: the search for a free port of \<open>internal/net/random_port.go\<close>, and
  \<open>RPCAddress\<close> of \<open>internal/agent/agent.go\<close> over \<open>net.SplitHostPort\<close> and \<open>net.JoinHostPort\<close>.
\<close>

section \<open>The search for a port\<close>

text \<open>
  \<open>Intn i n\<close> is what \<open>rand.Intn(n)\<close> returns in round \<open>i\<close>, and \<open>listen\<close> says whether listening on a
  port succeeds in that round.
\<close>

definition isPortOpen :: "(nat \<Rightarrow> int \<Rightarrow> bool) \<Rightarrow> nat \<Rightarrow> int \<Rightarrow> bool" where
  "isPortOpen listen i port \<longleftrightarrow> \<not> listen i port"

definition minPort :: int where
  "minPort = 1024"

definition maxPort :: int where
  "maxPort = 65535"

function port_loop :: "(nat \<Rightarrow> int \<Rightarrow> int) \<Rightarrow> (nat \<Rightarrow> int \<Rightarrow> bool) \<Rightarrow> nat \<Rightarrow> goerr + int" where
  "port_loop Intn listen i = (if i < 1000 then
       (let port = Intn i (maxPort - minPort) + minPort in
        if \<not> isPortOpen listen i port then Inr port else port_loop Intn listen (i + 1))
     else Inl (ErrMsg ''could not find an available port''))"
  by pat_completeness auto
termination
  by (relation "measure (\<lambda>(_, _, i). 1000 - i)") auto

declare port_loop.simps [simp del]

definition GetAvailablePort :: "(nat \<Rightarrow> int \<Rightarrow> int) \<Rightarrow> (nat \<Rightarrow> int \<Rightarrow> bool) \<Rightarrow> goerr + int" where
  "GetAvailablePort Intn listen = port_loop Intn listen 0"

section \<open>Addresses\<close>

fun last_colon :: "string \<Rightarrow> (string \<times> string) option" where
  "last_colon [] = None"
| "last_colon (x # xs) = (case last_colon xs of
       Some (h, p) \<Rightarrow> Some (x # h, p)
     | None \<Rightarrow> if x = CHR '':'' then Some ([], xs) else None)"

text \<open>
  \<open>net.SplitHostPort\<close>: the port follows the last colon; a host in brackets ends at the first
  closing bracket, which must be before that colon.
\<close>

definition SplitHostPort :: "string \<Rightarrow> goerr + string \<times> string" where
  "SplitHostPort hostport = (case last_colon hostport of
       None \<Rightarrow> Inl (ErrMsg ''missing port in address'')
     | Some (before, port) \<Rightarrow>
         if hostport \<noteq> [] \<and> hd hostport = CHR ''['' then
           (let inner = takeWhile (\<lambda>c. c \<noteq> CHR '']'') hostport; rest = dropWhile (\<lambda>c. c \<noteq> CHR '']'') hostport in
            if rest = [] then Inl (ErrMsg ''missing ']' in address'')
            else if tl rest = [] then Inl (ErrMsg ''missing port in address'')
            else if length (tl rest) \<noteq> length port + 1 then
              (if hd (tl rest) = CHR '':'' then Inl (ErrMsg ''too many colons in address'')
               else Inl (ErrMsg ''missing port in address''))
            else if CHR ''['' \<in> set (tl hostport) then Inl (ErrMsg ''unexpected '[' in address'')
            else if CHR '']'' \<in> set (tl rest) then Inl (ErrMsg ''unexpected ']' in address'')
            else Inr (tl inner, port))
         else if CHR '':'' \<in> set before then Inl (ErrMsg ''too many colons in address'')
         else if CHR ''['' \<in> set hostport then Inl (ErrMsg ''unexpected '[' in address'')
         else if CHR '']'' \<in> set hostport then Inl (ErrMsg ''unexpected ']' in address'')
         else Inr (before, port))"

definition JoinHostPort :: "string \<Rightarrow> string \<Rightarrow> string" where
  "JoinHostPort host port = (if CHR '':'' \<in> set host then ''['' @ host @ '']:'' @ port else host @ '':'' @ port)"

text \<open>\<open>strconv.Itoa\<close>.\<close>

definition Itoa :: "int \<Rightarrow> string" where
  "Itoa i = (if i < 0 then ''-'' @ show_nat (nat (- i)) else show_nat (nat i))"

definition RPCAddress :: "string \<Rightarrow> int \<Rightarrow> goerr + string" where
  "RPCAddress bindAddress rpcPort = (case SplitHostPort bindAddress of
       Inl e \<Rightarrow> Inl e
     | Inr (host, _) \<Rightarrow> Inr (JoinHostPort host (Itoa rpcPort)))"

section \<open>Splitting\<close>

lemma last_colon_none: "CHR '':'' \<notin> set xs \<Longrightarrow> last_colon xs = None"
  by (induction xs) auto

lemma last_colon_append: "CHR '':'' \<notin> set port \<Longrightarrow> last_colon (host @ CHR '':'' # port) = Some (host, port)"
  by (induction host) (auto simp: last_colon_none)

lemma split_join:
  assumes "CHR ''['' \<notin> set host" "CHR '']'' \<notin> set host" "CHR '':'' \<notin> set port" "CHR ''['' \<notin> set port" "CHR '']'' \<notin> set port"
  shows "SplitHostPort (JoinHostPort host port) = Inr (host, port)"
proof (cases "CHR '':'' \<in> set host")
  case True
  let ?h = "CHR ''['' # host @ [CHR '']'']"
  have "JoinHostPort host port = ?h @ CHR '':'' # port"
    using True by (simp add: JoinHostPort_def)
  moreover have "last_colon (?h @ CHR '':'' # port) = Some (?h, port)"
    by (rule last_colon_append) (rule assms(3))
  moreover have "takeWhile (\<lambda>c. c \<noteq> CHR '']'') (?h @ CHR '':'' # port) = CHR ''['' # host"
      "dropWhile (\<lambda>c. c \<noteq> CHR '']'') (?h @ CHR '':'' # port) = CHR '']'' # CHR '':'' # port"
    using assms(2) by (auto simp: takeWhile_append dropWhile_append)
  ultimately show ?thesis
    using assms by (simp add: SplitHostPort_def Let_def)
next
  case False
  moreover have "hd (host @ CHR '':'' # port) \<noteq> CHR ''[''"
    using assms(1) by (cases host) auto
  ultimately show ?thesis
    using assms by (simp add: SplitHostPort_def JoinHostPort_def last_colon_append)
qed

lemma Itoa_plain: "CHR '':'' \<notin> set (Itoa i)" "CHR ''['' \<notin> set (Itoa i)" "CHR '']'' \<notin> set (Itoa i)"
proof -
  have "c \<in> set (Itoa i) \<Longrightarrow> is_digit c \<or> c = CHR ''-''" for c
    using show_nat_digits by (auto simp: Itoa_def split: if_splits)
  then show "CHR '':'' \<notin> set (Itoa i)" "CHR ''['' \<notin> set (Itoa i)" "CHR '']'' \<notin> set (Itoa i)"
    by (fastforce simp: is_digit_def)+
qed

section \<open>Properties\<close>

text \<open>What \<open>math/rand\<close> documents: \<open>Intn(n)\<close> is at least 0 and below \<open>n\<close>.\<close>

definition rand_ok :: "(nat \<Rightarrow> int \<Rightarrow> int) \<Rightarrow> bool" where
  "rand_ok Intn \<longleftrightarrow> (\<forall>i n. 0 < n \<longrightarrow> 0 \<le> Intn i n \<and> Intn i n < n)"

text \<open>
  C36: the search for a port ends after at most a thousand rounds, whatever the random numbers. A
  port that it returns is from 1024 up to below 65535 and could be listened on in its round, the
  first in which that was so; and it gives up exactly when none of the thousand could. Each port in
  that range is returned for some random numbers; the port 65535, the upper end of the range that
  the comment announces, is never returned.
\<close>

theorem available_port:
  assumes "rand_ok Intn"
  shows "(case GetAvailablePort Intn listen of
      Inr port \<Rightarrow> 1024 \<le> port \<and> port < 65535 \<and>
        (\<exists>i < 1000. port = Intn i 64511 + 1024 \<and> listen i port \<and> (\<forall>j < i. \<not> listen j (Intn j 64511 + 1024)))
    | Inl e \<Rightarrow> \<forall>i < 1000. \<not> listen i (Intn i 64511 + 1024)) \<and>
    (1024 \<le> p \<and> p < 65535 \<longrightarrow> (\<exists>Intn'. rand_ok Intn' \<and> GetAvailablePort Intn' (\<lambda>_ _. True) = Inr p))"
proof (intro conjI impI)
  have "case port_loop Intn listen i of
      Inr port \<Rightarrow> (\<exists>j < 1000. i \<le> j \<and> port = Intn j 64511 + 1024 \<and> listen j port \<and>
        (\<forall>k. i \<le> k \<longrightarrow> k < j \<longrightarrow> \<not> listen k (Intn k 64511 + 1024)))
    | Inl e \<Rightarrow> \<forall>j. i \<le> j \<longrightarrow> j < 1000 \<longrightarrow> \<not> listen j (Intn j 64511 + 1024)" for i
  proof (induction Intn listen i rule: port_loop.induct)
    case (1 Intn listen i)
    have "i \<le> j \<longleftrightarrow> j = i \<or> Suc i \<le> j" for j
      by auto
    with 1 show ?case
      by (subst port_loop.simps) (auto simp: Let_def isPortOpen_def minPort_def maxPort_def split: sum.splits)
  qed
  from this [of 0] show "case GetAvailablePort Intn listen of
      Inr port \<Rightarrow> 1024 \<le> port \<and> port < 65535 \<and>
        (\<exists>i < 1000. port = Intn i 64511 + 1024 \<and> listen i port \<and> (\<forall>j < i. \<not> listen j (Intn j 64511 + 1024)))
    | Inl e \<Rightarrow> \<forall>i < 1000. \<not> listen i (Intn i 64511 + 1024)"
    using assms by (auto simp: GetAvailablePort_def rand_ok_def split: sum.splits)
next
  assume p: "1024 \<le> p \<and> p < 65535"
  let ?Intn = "\<lambda>_ n. if n = 64511 then p - 1024 else 0 :: int"
  have "rand_ok ?Intn" "GetAvailablePort ?Intn (\<lambda>_ _. True) = Inr p"
    using p by (simp_all add: rand_ok_def GetAvailablePort_def port_loop.simps [of _ _ 0] isPortOpen_def minPort_def maxPort_def)
  then show "\<exists>Intn'. rand_ok Intn' \<and> GetAvailablePort Intn' (\<lambda>_ _. True) = Inr p"
    by blast
qed

theorem available_port_witness:
  "case GetAvailablePort (\<lambda>_ n. n - 1) (\<lambda>_ port. port = 65534) of
      Inr port \<Rightarrow> port < 65535 | Inl e \<Rightarrow> False"
  using available_port [of "\<lambda>_ n. n - 1" "\<lambda>_ port. port = 65534" 2000]
  by (auto simp: rand_ok_def split: sum.splits dest: spec [of _ 0])

text \<open>
  The address that a node announces has the host of its bind address and the RPC port. For a
  bind address that was joined from a host, an IPv6 address included, and a port, \<open>RPCAddress\<close>
  returns the host joined with the RPC port, and splitting that gives both back.
\<close>

theorem rpc_address_roundtrip:
  assumes "CHR ''['' \<notin> set host" and "CHR '']'' \<notin> set host"
    and "CHR '':'' \<notin> set port" and "CHR ''['' \<notin> set port" and "CHR '']'' \<notin> set port"
  shows "RPCAddress (JoinHostPort host port) rpcPort = Inr (JoinHostPort host (Itoa rpcPort)) \<and>
    SplitHostPort (JoinHostPort host (Itoa rpcPort)) = Inr (host, Itoa rpcPort)"
  using split_join [OF assms] split_join [OF assms(1,2) Itoa_plain] by (simp add: RPCAddress_def)

theorem rpc_address_roundtrip_witness:
  "RPCAddress ''127.0.0.1:8400'' 8401 = Inr (JoinHostPort ''127.0.0.1'' (Itoa 8401))"
  using rpc_address_roundtrip [of "''127.0.0.1''" "''8400''" 8401] by (simp add: JoinHostPort_def)

end
