(* ===== verification/Node.thy ===== *)
theory Node
  imports Distributed
begin

text \<open>
  A new node, \<open>NewLog\<close> of \<open>internal/log/distributed/distributed.go\<close> on a disk that has none of its
  directories: what it relies on of the packages, and the two logs that it begins with.
\<close>

section \<open>What a new node relies on\<close>

text \<open>A log all of whose open files are in its directory.\<close>

definition log_within :: "codec \<Rightarrow> string \<Rightarrow> seg_config \<Rightarrow> u64 \<Rightarrow> log_record list \<Rightarrow> log \<times> os \<Rightarrow> bool" where
  "log_within cdc d c b rs s \<longleftrightarrow> log_rep cdc d c b rs s \<and> (\<forall>g \<in> set (l_heap (fst s)). files_in d g)"

text \<open>
  \<open>blank\<close> says that the packages hold nothing of the node, no snapshot in particular. A call of \<open>raft\<close>
  then only reads its log store, as \<open>NewRaft\<close> does when there is no snapshot to restore. Reading may
  write out what a segment has buffered, in the directory of that log.
\<close>

definition raft_reads :: "codec \<Rightarrow> ('x \<Rightarrow> bool) \<Rightarrow> ('x node_state, 'a) prog \<Rightarrow> bool" where
  "raft_reads cdc blank m \<longleftrightarrow> (\<forall>x l ldb w d c. blank x \<longrightarrow> log_within cdc d c 1 [] (ldb, w) \<longrightarrow>
     (\<exists>r x' ldb' w'. m (x, l, ldb, w) = (Inr r, (x', l, ldb', w')) \<and> blank x' \<and> log_within cdc d c 1 [] (ldb', w') \<and>
        (\<forall>e. e \<noteq> d \<longrightarrow> os_dirs w' e = os_dirs w e)))"

text \<open>
  The calls succeed, and \<open>BootstrapCluster\<close>, on a node without a state, stores one entry, the first
  configuration, in the log store. The goroutines that \<open>NewRaft\<close> starts act later.
\<close>

definition raft_up ::
  "codec \<Rightarrow> raft_log \<Rightarrow> string \<Rightarrow> ('x \<Rightarrow> bool) \<Rightarrow> ('x, 'd, 'lg, 'fs, 'ch, 'sn, 'tr, 'rf) node_pkg \<Rightarrow> bool" where
  "raft_up cdc entry dataDir blank pkgs \<longleftrightarrow> (case pkgs of (pk, pkg) \<Rightarrow>
     (\<forall>n x. blank x \<longrightarrow> blank (snd (pk_NewCache pk n x))) \<and> (\<forall>ch x. blank x \<longrightarrow> blank (pk_Unref pk ch x)) \<and>
     (\<forall>opts x. blank x \<longrightarrow> (\<exists>db x'. pk_Open pk (filepath_Join [dataDir, ''raft'', ''stable'']) opts x = (Inr db, x') \<and> blank x')) \<and>
     (\<forall>n x. blank x \<longrightarrow> (\<exists>sn x'. rp_NewFileSnapshotStore pkg (filepath_Join [dataDir, ''raft'']) n x = (Inr sn, x') \<and> blank x')) \<and>
     (\<forall>config sdb fss tr. raft_reads cdc blank (rp_NewRaft pkg config sdb fss tr)) \<and>
     (\<forall>sdb fss. raft_reads cdc blank (rp_HasExistingState pkg sdb fss)) \<and>
     (\<forall>rf servers x l ldb w d c. blank x \<longrightarrow> log_within cdc d c 1 [] (ldb, w) \<longrightarrow>
        (\<exists>x'. rp_BootstrapCluster pkg rf servers (x, l, ldb, w) =
          (case logStore_StoreLog cdc entry (ldb, w) of (r, (ldb', w')) \<Rightarrow> (r, (x', l, ldb', w'))))))"

lemma raft_readsE:
  assumes "raft_reads cdc blank m" and "log_within cdc d c 1 [] (ldb, w)" and "blank x"
  obtains r x' ldb' w' where "m (x, l, ldb, w) = (Inr r, (x', l, ldb', w'))" "log_within cdc d c 1 [] (ldb', w')"
    "blank x'" "\<And>e. e \<noteq> d \<Longrightarrow> os_dirs w' e = os_dirs w e"
  using assms unfolding raft_reads_def by metis

lemma raft_upE:
  assumes "raft_up cdc entry dataDir blank (pk, pkg)"
  shows "blank x \<Longrightarrow> blank (snd (pk_NewCache pk n x))" and "blank x \<Longrightarrow> blank (pk_Unref pk ch x)"
    and "blank x \<Longrightarrow> \<exists>db x'. pk_Open pk (filepath_Join [dataDir, ''raft'', ''stable'']) opts x = (Inr db, x') \<and> blank x'"
    and "blank x \<Longrightarrow> \<exists>sn x'. rp_NewFileSnapshotStore pkg (filepath_Join [dataDir, ''raft'']) k x = (Inr sn, x') \<and> blank x'"
    and "raft_reads cdc blank (rp_NewRaft pkg config sdb fss tr)" and "raft_reads cdc blank (rp_HasExistingState pkg sdb fss)"
  using assms unfolding raft_up_def prod.case by simp_all

lemma raft_up_boot:
  assumes "raft_up cdc entry dataDir blank (pk, pkg)" and "blank x" and "log_within cdc d c 1 [] (ldb, w)"
  shows "\<exists>x'. rp_BootstrapCluster pkg rf servers (x, l, ldb, w) =
    (case logStore_StoreLog cdc entry (ldb, w) of (r, (ldb', w')) \<Rightarrow> (r, (x', l, ldb', w')))"
  using assms(1) [unfolded raft_up_def prod.case, THEN conjunct2, THEN conjunct2, THEN conjunct2, THEN conjunct2, THEN conjunct2, THEN conjunct2,
      rule_format, OF assms(2,3)] .

section \<open>Setting up\<close>

lemma mkdir_new:
  assumes "healthy w" and "os_dirs w d = None"
  shows "\<exists>w'. mkdir_all d w = (Inr (), w') \<and> healthy w' \<and> dir_names w' d {}"
  using assms by (auto simp: mkdir_all_def prog_simps dir_names_def)

lemma log_within_in: "log_within cdc d c b rs (l, w) \<Longrightarrow> log_in d e (os_dirs w e) (l, w)"
  by (auto simp: log_within_def log_rep_def log_segs_def)

lemma setup_log_dir:
  assumes "config_ok (default_config c)" and "healthy w" and "os_dirs w d = None"
  shows "\<exists>w1 l w2. mkdir_all d w = (Inr (), w1) \<and> NewLog d c w1 = (Inr l, w2) \<and>
    log_within cdc d (default_config c) (InitialOffset c) [] (l, w2) \<and> (\<forall>e. e \<noteq> d \<longrightarrow> os_dirs w2 e = os_dirs w e)"
proof -
  obtain w1 where w1: "mkdir_all d w = (Inr (), w1)" "healthy w1" "dir_names w1 d {}"
    using mkdir_new [OF assms(2,3)] by blast
  obtain l w2 where l: "NewLog d c w1 = (Inr l, w2)" "log_rep cdc d (default_config c) (InitialOffset c) [] (l, w2)"
    using NewLog_defaults [OF assms(1) w1(2,3)] by blast
  have "log_in d e (os_dirs w e) (l, w2)" if "d \<noteq> e" for e
    using NewLog_dir(2) [OF that l(1)] keepsD [OF mkdir_all_dir [OF that] w1(1)] by blast
  moreover have "d \<noteq> CHR ''x'' # d"
    by (metis not_Cons_self)
  ultimately have "log_within cdc d (default_config c) (InitialOffset c) [] (l, w2)" "\<forall>e. e \<noteq> d \<longrightarrow> os_dirs w2 e = os_dirs w e"
    using l(2) unfolding log_within_def by fastforce+
  with w1(1) l(1) show ?thesis by blast
qed

text \<open>The configuration of the log store, whose first index is 1.\<close>

definition raft_log_config :: "log_Config \<Rightarrow> seg_config" where
  "raft_log_config c = default_config ((cf_Segment c)\<lparr>InitialOffset := 1\<rparr>)"

text \<open>The log store after the start of \<open>raft\<close>: empty, or with the entry of \<open>BootstrapCluster\<close>.\<close>

definition boot_log :: "bool \<Rightarrow> raft_log \<Rightarrow> log_record list \<Rightarrow> bool" where
  "boot_log bootstrap entry rs \<longleftrightarrow> rs = [] \<or> bootstrap \<and> rs = [seg_item 1 [] (rec_of entry)]"

lemma store_log_dir: "d \<noteq> e \<Longrightarrow> keeps (log_in d e x) (logStore_StoreLog cdc lg)"
  unfolding logStore_StoreLog_def logStore_StoreLogs_def by (intro keeps_intros log_append_dir)

lemma boot_store:
  assumes "log_within cdc d c 1 [] (ldb, w)" and "ls_storable cdc c 1 [] [entry]"
  shows "\<exists>ldb' w'. logStore_StoreLog cdc entry (ldb, w) = (Inr (), (ldb', w')) \<and>
    log_rep cdc d c 1 [seg_item 1 [] (rec_of entry)] (ldb', w') \<and> (\<forall>e. e \<noteq> d \<longrightarrow> os_dirs w' e = os_dirs w e)"
proof -
  have "log_rep cdc d c 1 [] (ldb, w)"
    using assms(1) by (simp add: log_within_def)
  then obtain ldb' w' where t: "logStore_StoreLog cdc entry (ldb, w) = (Inr (), (ldb', w'))" "log_rep cdc d c 1 (ls_add 1 [] [entry]) (ldb', w')"
    using logStore_StoreLogs_rep [OF _ assms(2)] by (fastforce simp: logStore_StoreLog_def)
  have "os_dirs w' e = os_dirs w e" if "e \<noteq> d" for e
    using keepsD [OF store_log_dir [OF that [symmetric]] t(1) log_within_in [OF assms(1)]] by simp
  with t show ?thesis by auto
qed

lemma startRaft_new:
  assumes up: "raft_up cdc entry dataDir blank (pk, pkg)" and rep: "log_within cdc d c 1 [] (ldb, w)" and x: "blank x"
    and de: "d \<noteq> e" and boot: "lr_Bootstrap cr \<longrightarrow> ls_storable cdc c 1 [] [entry]"
  shows "\<exists>rf x' ldb' w' rs. dist_startRaft pkg cr sdb fss (x, l, ldb, w) = (Inr rf, (x', l, ldb', w')) \<and>
    log_rep cdc d c 1 rs (ldb', w') \<and> boot_log (lr_Bootstrap cr) entry rs \<and> os_dirs w' e = os_dirs w e"
proof -
  let ?tr = "rp_NewNetworkTransport pkg (lr_StreamLayer cr) 5 (10 * time_Second)"
  let ?config = "raft_settings (rp_DefaultConfig pkg) (lr_Config cr)"
  obtain rf x1 ldb1 w1 where 1: "rp_NewRaft pkg ?config sdb fss ?tr (x, l, ldb, w) = (Inr rf, (x1, l, ldb1, w1))"
      "log_within cdc d c 1 [] (ldb1, w1)" "blank x1" "os_dirs w1 e = os_dirs w e"
    using raft_readsE [OF raft_upE(5) [OF up] rep x, of ?config sdb fss ?tr l] de by metis
  obtain b x2 ldb2 w2 where 2: "rp_HasExistingState pkg sdb fss (x1, l, ldb1, w1) = (Inr b, (x2, l, ldb2, w2))"
      "log_within cdc d c 1 [] (ldb2, w2)" "blank x2" "os_dirs w2 e = os_dirs w1 e"
    using raft_readsE [OF raft_upE(6) [OF up] 1(2,3), of sdb fss l] de by metis
  show ?thesis
  proof (cases "lr_Bootstrap cr \<and> \<not> b")
    case True
    let ?servers = "[\<lparr>sv_id = rc_LocalID ?config, sv_addr = rp_LocalAddr pkg ?tr\<rparr>]"
    obtain ldb3 w3 where 3: "logStore_StoreLog cdc entry (ldb2, w2) = (Inr (), (ldb3, w3))"
        "log_rep cdc d c 1 [seg_item 1 [] (rec_of entry)] (ldb3, w3)" "os_dirs w3 e = os_dirs w2 e"
      using boot_store [OF 2(2)] boot True de [symmetric] by blast
    obtain x3 where "rp_BootstrapCluster pkg rf ?servers (x2, l, ldb2, w2) = (Inr (), (x3, l, ldb3, w3))"
      using raft_up_boot [OF up 2(3,2), of rf ?servers l] 3(1) by auto
    with 1 2 3 True show ?thesis
      by (auto simp: dist_startRaft_def Let_def prog_simps boot_log_def log_within_def)
  next
    case False
    with 1 2 show ?thesis
      by (auto simp: dist_startRaft_def Let_def prog_simps boot_log_def log_within_def)
  qed
qed

lemma default_config_base: "default_config (c\<lparr>InitialOffset := b\<rparr>) = (default_config c)\<lparr>InitialOffset := b\<rparr>"
  by (simp add: default_config_def Let_def)

lemma setupRaft_new:
  assumes up: "raft_up cdc entry dataDir blank pkgs" "blank x" and cfg: "config_ok (default_config (cf_Segment c))" and h: "healthy w"
    and dirs: "os_dirs w (filepath_Join [dataDir, ''raft'', ''log'']) = None" "d \<noteq> filepath_Join [dataDir, ''raft'', ''log'']"
    and boot: "lr_Bootstrap (cf_Raft c) \<longrightarrow> ls_storable cdc (raft_log_config c) 1 [] [entry]"
  shows "\<exists>ldb rf x' w' rs. dist_setupRaft pkgs dataDir c l (x, w) = (Inr (l, ldb, rf), (x', w')) \<and>
    log_rep cdc (filepath_Join [dataDir, ''raft'', ''log'']) (raft_log_config c) 1 rs (ldb, w') \<and>
    boot_log (lr_Bootstrap (cf_Raft c)) entry rs \<and> os_dirs w' d = os_dirs w d"
proof -
  let ?e = "filepath_Join [dataDir, ''raft'', ''log'']" and ?c = "(cf_Segment c)\<lparr>InitialOffset := 1\<rparr>"
  obtain pk pkg where pkgs: "pkgs = (pk, pkg)" by (cases pkgs)
  note up = up(1) [unfolded pkgs] and x = up(2)
  have "config_ok (default_config ?c)"
    using cfg by (simp add: default_config_base config_ok_def)
  then obtain w1 ldb w2 where log: "mkdir_all ?e w = (Inr (), w1)" "NewLog ?e ?c w1 = (Inr ldb, w2)"
      "log_within cdc ?e (raft_log_config c) 1 [] (ldb, w2)" "os_dirs w2 d = os_dirs w d"
    using setup_log_dir [OF _ h dirs(1), of ?c cdc] dirs(2) by (auto simp: raft_log_config_def)
  obtain sdb x1 where 1: "kv_New pk [WithDbDirPath (filepath_Join [dataDir, ''raft'', ''stable'']), WithLogger (pk_DefaultLogger pk)] x = (Inr sdb, x1)" "blank x1"
    using kv_New_opens [of blank, OF x raft_upE(1-3) [OF up]] by blast
  obtain fss x2 where 2: "rp_NewFileSnapshotStore pkg (filepath_Join [dataDir, ''raft'']) 1 x1 = (Inr fss, x2)" "blank x2"
    using raft_upE(4) [OF up 1(2)] by blast
  obtain rf x3 ldb3 w3 rs where 3: "dist_startRaft pkg (cf_Raft c) sdb fss (x2, l, ldb, w2) = (Inr rf, (x3, l, ldb3, w3))"
      "log_rep cdc ?e (raft_log_config c) 1 rs (ldb3, w3)" "boot_log (lr_Bootstrap (cf_Raft c)) entry rs" "os_dirs w3 d = os_dirs w2 d"
    using startRaft_new [OF up log(3) 2(2) dirs(2) [symmetric] boot, of sdb fss l] by blast
  have "dist_setupRaft pkgs dataDir c l (x, w) = (Inr (l, ldb3, rf), (x3, w3))"
    by (simp add: dist_setupRaft_def pkgs Let_def newLogStore_def on_os_def on_pkg_def with_logs_def prog_simps log(1,2) 1(1) 2(1) [simplified] 3(1))
  with 3(2-4) log(4) show ?thesis
    by (metis (no_types, lifting))
qed

lemma dist_NewLog_new:
  assumes up: "raft_up cdc entry dataDir blank pkgs" "blank x" and cfg: "config_ok (default_config (cf_Segment c))" and h: "healthy w"
    and dirs: "os_dirs w (filepath_Join [dataDir, ''log'']) = None" "os_dirs w (filepath_Join [dataDir, ''raft'', ''log'']) = None"
    and boot: "lr_Bootstrap (cf_Raft c) \<longrightarrow> ls_storable cdc (raft_log_config c) 1 [] [entry]"
  shows "\<exists>l ldb rf x' w' rs. dist_NewLog pkgs dataDir c (x, w) = (Inr (l, ldb, rf), (x', w')) \<and>
    log_within cdc (filepath_Join [dataDir, ''log'']) (default_config (cf_Segment c)) (InitialOffset (cf_Segment c)) [] (l, w') \<and>
    log_rep cdc (filepath_Join [dataDir, ''raft'', ''log'']) (raft_log_config c) 1 rs (ldb, w') \<and>
    boot_log (lr_Bootstrap (cf_Raft c)) entry rs"
proof -
  let ?d = "filepath_Join [dataDir, ''log'']" and ?e = "filepath_Join [dataDir, ''raft'', ''log'']"
  have de: "?d \<noteq> ?e"
    by (rule node_dirs_apart)
  obtain w1 l w2 where l: "mkdir_all ?d w = (Inr (), w1)" "NewLog ?d (cf_Segment c) w1 = (Inr l, w2)"
      "log_within cdc ?d (default_config (cf_Segment c)) (InitialOffset (cf_Segment c)) [] (l, w2)"
      and "\<forall>e. e \<noteq> ?d \<longrightarrow> os_dirs w2 e = os_dirs w e"
    using setup_log_dir [OF cfg h dirs(1), of cdc] by blast
  with de have e: "os_dirs w2 ?e = None"
    using dirs(2) by simp
  have h2: "healthy w2"
    using l(3) log_rep_healthy unfolding log_within_def by blast
  obtain ldb rf x' w' rs where r: "dist_setupRaft pkgs dataDir c l (x, w2) = (Inr (l, ldb, rf), (x', w'))"
      "log_rep cdc ?e (raft_log_config c) 1 rs (ldb, w')" "boot_log (lr_Bootstrap (cf_Raft c)) entry rs" "os_dirs w' ?d = os_dirs w2 ?d"
    using setupRaft_new [OF up cfg h2 e de boot, of l] by blast
  have "log_within cdc ?d (default_config (cf_Segment c)) (InitialOffset (cf_Segment c)) [] (l, w')"
    using l(3) log_rep_other_disk [OF _ r(4) log_rep_healthy [OF r(2)]] by (simp add: log_within_def)
  moreover have "dist_NewLog pkgs dataDir c (x, w) = (Inr (l, ldb, rf), (x', w'))"
    using l(1,2) r(1) by (simp add: dist_NewLog_def dist_setupLog_def prog_simps Let_def)
  ultimately show ?thesis
    using r(2,3) by blast
qed

section \<open>An instance\<close>

text \<open>Packages with no state of their own, and a \<open>raft\<close> that begins without servers.\<close>

definition boot_entry :: raft_log where
  "boot_entry = \<lparr>rl_index = 1, rl_term = 1, rl_type = 5, rl_data = [7], rl_extensions = [], rl_appendedAt = 0\<rparr>"

definition demo_node :: "(int, string, unit, unit, nat, unit, string, server list) node_pkg" where
  "demo_node = (demo_pebble,
     \<lparr>rp_NewFileSnapshotStore = (\<lambda>_ _. ret ()), rp_NewNetworkTransport = (\<lambda>_ _ _. ''127.0.0.1:8400''), rp_LocalAddr = (\<lambda>tr. tr),
      rp_DefaultConfig = \<lparr>rc_LocalID = '''', rc_HeartbeatTimeout = 1000, rc_ElectionTimeout = 1000, rc_LeaderLeaseTimeout = 500, rc_CommitTimeout = 50\<rparr>,
      rp_NewRaft = (\<lambda>_ _ _ _. ret []), rp_HasExistingState = (\<lambda>_ _. ret False),
      rp_BootstrapCluster = (\<lambda>_ _ (x, l, ldb, w). case logStore_StoreLog demo_codec boot_entry (ldb, w) of (r, (ldb', w')) \<Rightarrow> (r, (x, l, ldb', w')))\<rparr>)"

lemma data_dirs:
  "filepath_Join [''data'', ''log''] = ''data/log''" "filepath_Join [''data'', ''raft'', ''log''] = ''data/raft/log''"
  "filepath_Join [''data'', ''raft'', ''stable''] = ''data/raft/stable''"
  by (simp_all add: path_clean_def clean_part_def Let_def filepath_Join.simps)

lemma demo_node_up: "raft_up demo_codec boot_entry ''data'' (\<lambda>_. True) demo_node"
  unfolding raft_up_def demo_node_def prod.case
  by (intro conjI) (auto simp: raft_reads_def demo_pebble_def data_dirs prog_simps)

lemma boot_entry_storable: "ls_storable demo_codec (default_config (zero_config\<lparr>InitialOffset := 1\<rparr>)) 1 [] [boot_entry]"
proof -
  have "payload_ok (default_config (zero_config\<lparr>InitialOffset := 1\<rparr>)) p \<longleftrightarrow> payload_ok (default_config zero_config) p" for p
    by (simp add: payload_ok_def default_config_base)
  then show ?thesis
    by (simp add: log_fits_def demo_encodable length_demo_enc zero_config_payload max_alloc_def boot_entry_def rec_of_def)
qed

lemma demo_dirs_new: "os_dirs demo_disk (filepath_Join [''data'', ''log'']) = None"
  "os_dirs demo_disk (filepath_Join [''data'', ''raft'', ''log'']) = None"
  by (simp_all add: demo_disk_def data_dirs)

end
