(* ===== verification/Agent.thy ===== *)
theory Agent
  imports Client Membership Ports Node
begin

text \<open>
  The agent, \<open>internal/agent/agent.go\<close>, which puts a node together: the multiplexer, the
  replicated log, the service (\<open>setupServer\<close> of the theory \<open>Service\<close>) and discovery.
\<close>

section \<open>The configuration\<close>

text \<open>A TLS configuration is present or nil.\<close>

record agent_Config =
  ac_ServerTLSConfig :: bool
  ac_PeerTLSConfig :: bool
  ac_DataDir :: string
  ac_BindAddress :: string
  ac_RPCPort :: int
  ac_NodeName :: string
  ac_StartJoinAddresses :: "string list option"
  ac_ACLModelFile :: string
  ac_ACLPolicyFile :: string
  ac_Bootstrap :: bool

section \<open>The packages and the parts\<close>

text \<open>
  The packages that the agent itself calls, over their state \<open>'x\<close>: \<open>net.Listen\<close>, \<open>Close\<close> of the
  multiplexer, what the service is built from, with its two streams, \<open>Shutdown\<close> of the HTTP server,
  \<open>raft\<close> and the codecs of the log, what \<open>LeaderWithID\<close> returns at the ticks before the timer of
  three seconds fires, and \<open>serf\<close>.
\<close>

type_synonym 'rf api_handler = "(api_request, 'rf \<times> log \<times> os, api_response) rpc_handler"

record ('x, 'ln, 'rf, 'sf) agent_pkg =
  ap_Listen :: "string \<Rightarrow> string \<Rightarrow> ('x, 'ln) prog"
  ap_MuxClose :: "'ln \<Rightarrow> 'x \<Rightarrow> 'x"
  ap_connect :: "(api_request, 'rf \<times> log \<times> os, api_response) connect"
  ap_emit :: "string \<Rightarrow> code option \<Rightarrow> 'rf \<times> log \<times> os \<Rightarrow> 'rf \<times> log \<times> os"
  ap_NewErrorDetail :: "string \<Rightarrow> goerr + string"
  ap_NewEnforcer :: "string \<Rightarrow> string \<Rightarrow> goerr + enforcer"
  ap_streams :: "'rf api_handler \<times> 'rf api_handler"
  ap_ServerShutdown :: "('x, unit) prog"
  ap_raft :: "('rf \<times> log \<times> os) raft"
  ap_codec :: codec
  ap_req :: req_codec
  ap_leader :: "string list"
  ap_serf :: "('x, 'sf) serf_pkg"

text \<open>
  The fields that the set-up methods fill, nil at first: the multiplexer with its listener and its
  matchers, the log with the log store and the state of \<open>raft\<close>, the handler of the server and
  whether its listener is under TLS, and the membership.
\<close>

record ('ln, 'rf, 'sf) parts =
  pt_mux :: "('ln \<times> (bytes \<Rightarrow> bool) list) option"
  pt_log :: "(log \<times> logStore \<times> 'rf) option"
  pt_server :: "((api_request, 'rf \<times> log \<times> os, api_response) http_handler \<times> bool) option"
  pt_membership :: "('rf \<times> log \<times> os, 'sf) Membership option"

definition no_parts :: "('ln, 'rf, 'sf) parts" where
  "no_parts = \<lparr>pt_mux = None, pt_log = None, pt_server = None, pt_membership = None\<rparr>"

type_synonym ('x, 'ln, 'rf, 'sf) agent_state = "('ln, 'rf, 'sf) parts \<times> 'x \<times> os"

text \<open>A method without arguments that returns only an error.\<close>

type_synonym 's action = "('s, unit) prog"

section \<open>Setting up\<close>

definition agent_setupMux :: "('x, 'ln, 'rf, 'sf) agent_pkg \<Rightarrow> agent_Config \<Rightarrow> ('x, 'ln, 'rf, 'sf) agent_state action" where
  "agent_setupMux ap c = (\<lambda>(p, x, w). case ap_Listen ap ''tcp'' ('':'' @ Itoa (ac_RPCPort c)) x of
       (Inl f, x') \<Rightarrow> (Inl f, (p, x', w))
     | (Inr ln, x') \<Rightarrow> (Inr (), (p\<lparr>pt_mux := Some (ln, [])\<rparr>, x', w)))"

text \<open>
  A call of \<open>mux.Match\<close> is recorded as the matcher that it was given; what \<open>cmux\<close> does with the
  matchers is a parameter. The one of \<open>setupLog\<close> reads one byte of the connection; that of
  \<open>setupServer\<close> is \<open>cmux.Any\<close>, which accepts every connection.
\<close>

definition mux_Match :: "(bytes \<Rightarrow> bool) \<Rightarrow> ('x, 'ln, 'rf, 'sf) agent_state action" where
  "mux_Match matcher = (\<lambda>(p, x, w). case pt_mux p of
       None \<Rightarrow> (Inl (Panic NilDereference), (p, x, w))
     | Some (ln, matchers) \<Rightarrow> (Inr (), (p\<lparr>pt_mux := Some (ln, matchers @ [matcher])\<rparr>, x, w)))"

definition raft_matcher :: "bytes \<Rightarrow> bool" where
  "raft_matcher r = (case r of [] \<Rightarrow> False | b # _ \<Rightarrow> b = RaftRPC)"

definition any_matcher :: "bytes \<Rightarrow> bool" where
  "any_matcher r = True"

text \<open>The configuration of the log has the name of the node and no limits of the segments.\<close>

definition agent_log_config :: "agent_Config \<Rightarrow> log_Config" where
  "agent_log_config c =
     \<lparr>cf_Raft = \<lparr>lr_Config = \<lparr>rc_LocalID = ac_NodeName c, rc_HeartbeatTimeout = 0, rc_ElectionTimeout = 0,
         rc_LeaderLeaseTimeout = 0, rc_CommitTimeout = 0\<rparr>,
       lr_StreamLayer = NewStreamLayer (ac_ServerTLSConfig c) (ac_PeerTLSConfig c),
       lr_Bootstrap = ac_Bootstrap c\<rparr>,
      cf_Segment = zero_config\<rparr>"

text \<open>The wait for a leader ends with the timer at the latest, so that it has a result.\<close>

definition agent_waitForLeader :: "('x, 'ln, 'rf, 'sf) agent_pkg \<Rightarrow> unit res" where
  "agent_waitForLeader ap = (case WaitForLeader (map Tick (ap_leader ap) @ [TimedOut]) of
       None \<Rightarrow> Inr ()
     | Some r \<Rightarrow> r)"

definition agent_setupLog ::
  "('x, 'ln, 'rf, 'sf) agent_pkg \<Rightarrow> ('x, 'd, 'lg, 'fs, 'ch, 'sn, 'tr, 'rf) node_pkg \<Rightarrow> agent_Config \<Rightarrow>
     ('x, 'ln, 'rf, 'sf) agent_state action" where
  "agent_setupLog ap pkgs c = andthen (mux_Match raft_matcher) (\<lambda>(p, x, w).
     case dist_NewLog pkgs (ac_DataDir c) (agent_log_config c) (x, w) of
       (Inl f, (x', w')) \<Rightarrow> (Inl f, (p, x', w'))
     | (Inr l, (x', w')) \<Rightarrow>
         (if ac_Bootstrap c then agent_waitForLeader ap else Inr (), (p\<lparr>pt_log := Some l\<rparr>, x', w')))"

definition agent_service :: "('x, 'ln, 'rf, 'sf) agent_pkg \<Rightarrow> (api_request, 'rf \<times> log \<times> os, api_response) LogAPIHandler" where
  "agent_service ap = log_handlers (dist_api (ap_req ap) (ap_codec ap) (ap_raft ap)) (fst (ap_streams ap)) (snd (ap_streams ap))"

definition agent_setupServer :: "('x, 'ln, 'rf, 'sf) agent_pkg \<Rightarrow> agent_Config \<Rightarrow> ('x, 'ln, 'rf, 'sf) agent_state action" where
  "agent_setupServer ap c =
     (case setupServer (ap_connect ap) (ap_emit ap) (ap_NewErrorDetail ap) (ap_NewEnforcer ap)
         (ac_ACLModelFile c) (ac_ACLPolicyFile c) (agent_service ap) of
        Inl e \<Rightarrow> fail (Error e)
      | Inr handler \<Rightarrow> andthen (upd_st (\<lambda>(p, s). (p\<lparr>pt_server := Some (handler, ac_ServerTLSConfig c)\<rparr>, s))) (mux_Match any_matcher))"

definition agent_setupMembership :: "('x, 'ln, 'rf, 'sf) agent_pkg \<Rightarrow> agent_Config \<Rightarrow> ('x, 'ln, 'rf, 'sf) agent_state action" where
  "agent_setupMembership ap c = (case RPCAddress (ac_BindAddress c) (ac_RPCPort c) of
       Inl e \<Rightarrow> fail (Error e)
     | Inr rpcAddr \<Rightarrow> (\<lambda>(p, x, w).
         case discovery_New (ap_serf ap) (dist_handler (ap_raft ap))
           \<lparr>dc_NodeName = ac_NodeName c, dc_BindAddress = ac_BindAddress c, dc_Tags = [''rpc_addr'' \<mapsto> rpcAddr],
            dc_StartJoinAddresses = ac_StartJoinAddresses c\<rparr> x of
           (r, (m, x')) \<Rightarrow> (r, (p\<lparr>pt_membership := Some m\<rparr>, x', w))))"

text \<open>\<open>New\<close> runs the four set-up methods in order and stops at the first error.\<close>

definition agent_setup ::
  "('x, 'ln, 'rf, 'sf) agent_pkg \<Rightarrow> ('x, 'd, 'lg, 'fs, 'ch, 'sn, 'tr, 'rf) node_pkg \<Rightarrow> agent_Config \<Rightarrow>
     ('x, 'ln, 'rf, 'sf) agent_state action list" where
  "agent_setup ap pkgs c = [agent_setupMux ap c, agent_setupLog ap pkgs c, agent_setupServer ap c, agent_setupMembership ap c]"

definition agent_New ::
  "('x, 'ln, 'rf, 'sf) agent_pkg \<Rightarrow> ('x, 'd, 'lg, 'fs, 'ch, 'sn, 'tr, 'rf) node_pkg \<Rightarrow> agent_Config \<Rightarrow>
     'x \<times> os \<Rightarrow> unit res \<times> ('x, 'ln, 'rf, 'sf) agent_state" where
  "agent_New ap pkgs c = (\<lambda>s. prog_iter (\<lambda>fn. fn) (agent_setup ap pkgs c) (no_parts, s))"

section \<open>Shutting down\<close>

text \<open>The three functions that \<open>Shutdown\<close> runs; a part that is nil panics.\<close>

definition agent_leave :: "('x, 'ln, 'rf, 'sf) agent_pkg \<Rightarrow> ('x, 'ln, 'rf, 'sf) agent_state action" where
  "agent_leave ap = (\<lambda>(p, x, w). case pt_membership p of
       None \<Rightarrow> (Inl (Panic NilDereference), (p, x, w))
     | Some m \<Rightarrow> (case membership_Leave (ap_serf ap) m x of (r, x') \<Rightarrow> (r, (p, x', w))))"

definition agent_stopServer :: "('x, 'ln, 'rf, 'sf) agent_pkg \<Rightarrow> ('x, 'ln, 'rf, 'sf) agent_state action" where
  "agent_stopServer ap = (\<lambda>(p, x, w). case (pt_server p, pt_mux p) of
       (Some _, Some (ln, _)) \<Rightarrow> (case iferr (ap_ServerShutdown ap) (\<lambda>_. ret ()) ret x of
           (Inl f, x') \<Rightarrow> (Inl f, (p, x', w))
         | (Inr _, x') \<Rightarrow> (Inr (), (p, ap_MuxClose ap ln x', w)))
     | _ \<Rightarrow> (Inl (Panic NilDereference), (p, x, w)))"

definition agent_closeLog :: "('x, 'ln, 'rf, 'sf) agent_pkg \<Rightarrow> ('x, 'ln, 'rf, 'sf) agent_state action" where
  "agent_closeLog ap = (\<lambda>(p, x, w). case pt_log p of
       None \<Rightarrow> (Inl (Panic NilDereference), (p, x, w))
     | Some (l, ldb, rf) \<Rightarrow> (case dist_Close (ap_raft ap) (rf, l, w) of
           (r, (rf', l', w')) \<Rightarrow> (r, (p\<lparr>pt_log := Some (l', ldb, rf')\<rparr>, x, w'))))"

text \<open>
  The agent: the flag, whether \<open>shutdownCh\<close> is closed, and its parts, on which the functions that
  \<open>Shutdown\<close> runs work.
\<close>

record 's agent =
  ag_shutdown :: bool
  ag_shutdownCh :: bool
  ag_parts :: 's

definition on_parts :: "('s, 'a) prog \<Rightarrow> ('s agent, 'a) prog" where
  "on_parts m = (\<lambda>a. case m (ag_parts a) of (r, s) \<Rightarrow> (r, a\<lparr>ag_parts := s\<rparr>))"

definition agent_Shutdown :: "'s action list \<Rightarrow> 's agent action" where
  "agent_Shutdown fns = bnd get_st (\<lambda>a.
     if ag_shutdown a then ret ()
     else andthen (upd_st (\<lambda>a. a\<lparr>ag_shutdown := True\<rparr>))
       (if ag_shutdownCh a then fail (Panic CloseOfClosedChannel)
        else andthen (upd_st (\<lambda>a. a\<lparr>ag_shutdownCh := True\<rparr>))
          (prog_iter on_parts fns)))"

text \<open>
  \<open>cmux\<close> is a parameter: it gives the number of the listener that gets a connection, and the
  connection as that listener sees it.
\<close>

type_synonym cmux = "(bytes \<Rightarrow> bool) list \<Rightarrow> conn \<Rightarrow> (nat \<times> conn) option"

abbreviation agent_matchers :: "(bytes \<Rightarrow> bool) list" where
  "agent_matchers \<equiv> [raft_matcher, any_matcher]"

section \<open>Routing\<close>

text \<open>
  \<open>cmux\<close> documents that a connection goes to the first listener whose matcher accepts what it
  begins with, and that the bytes the matchers have read are not lost for that listener.
\<close>

definition cmux_ok :: "cmux \<Rightarrow> bool" where
  "cmux_ok cmux \<longleftrightarrow> (\<forall>ms c i. i < length ms \<longrightarrow> (ms ! i) (cn_in c) \<longrightarrow> (\<forall>j < i. \<not> (ms ! j) (cn_in c)) \<longrightarrow> cmux ms c = Some (i, c))"

definition first_match :: cmux where
  "first_match ms c = (case filter (\<lambda>i. (ms ! i) (cn_in c)) [0..<length ms] of [] \<Rightarrow> None | i # _ \<Rightarrow> Some (i, c))"

lemma filter_least:
  assumes "i < n" "P i" "\<forall>j < i. \<not> P j"
  shows "\<exists>is. filter P [0..<n] = i # is"
proof -
  have "[0..<n] = [0..<i] @ [i..<n]"
    using assms(1) upt_add_eq_append [of 0 i "n - i"] by simp
  also have "[i..<n] = i # [Suc i..<n]"
    using assms(1) by (simp add: upt_conv_Cons)
  finally show ?thesis
    using assms(2,3) by (simp add: filter_empty_conv)
qed

lemma first_match_ok: "cmux_ok first_match"
  unfolding cmux_ok_def
proof (intro allI impI)
  fix ms :: "(bytes \<Rightarrow> bool) list" and c :: conn and i
  assume "i < length ms" "(ms ! i) (cn_in c)" "\<forall>j < i. \<not> (ms ! j) (cn_in c)"
  then obtain is' where "filter (\<lambda>i. (ms ! i) (cn_in c)) [0..<length ms] = i # is'"
    using filter_least [of i "length ms" "\<lambda>i. (ms ! i) (cn_in c)"] by blast
  then show "first_match ms c = Some (i, c)"
    by (simp add: first_match_def)
qed

section \<open>A new agent\<close>

text \<open>What \<open>New\<close> leaves behind when the packages do not fail.\<close>

lemma agent_setupMux_run:
  assumes "ap_Listen ap ''tcp'' ('':'' @ Itoa (ac_RPCPort c)) x = (Inr ln, x')"
  shows "agent_setupMux ap c (p, x, w) = (Inr (), (p\<lparr>pt_mux := Some (ln, [])\<rparr>, x', w))"
  using assms by (simp add: agent_setupMux_def)

lemma agent_waitForLeader_ok: "\<exists>a \<in> set (ap_leader ap). a \<noteq> '''' \<Longrightarrow> agent_waitForLeader ap = Inr ()"
proof -
  have "\<exists>a \<in> set as. a \<noteq> '''' \<Longrightarrow> WaitForLeader (map Tick as @ [TimedOut]) = Some (Inr ())" for as
    by (induction as) auto
  then show "\<exists>a \<in> set (ap_leader ap). a \<noteq> '''' \<Longrightarrow> agent_waitForLeader ap = Inr ()"
    by (simp add: agent_waitForLeader_def)
qed

lemma agent_setupLog_run:
  assumes "pt_mux p = Some (ln, ms)" and "dist_NewLog pkgs (ac_DataDir c) (agent_log_config c) (x, w) = (Inr l, (x', w'))"
    and "ac_Bootstrap c \<longrightarrow> agent_waitForLeader ap = Inr ()"
  shows "agent_setupLog ap pkgs c (p, x, w) =
    (Inr (), (p\<lparr>pt_mux := Some (ln, ms @ [raft_matcher]), pt_log := Some l\<rparr>, x', w'))"
  using assms by (simp add: agent_setupLog_def mux_Match_def prog_simps)

lemma agent_setupServer_run:
  assumes "pt_mux p = Some (ln, ms)" and "setupServer (ap_connect ap) (ap_emit ap) (ap_NewErrorDetail ap) (ap_NewEnforcer ap)
      (ac_ACLModelFile c) (ac_ACLPolicyFile c) (agent_service ap) = Inr handler"
  shows "agent_setupServer ap c (p, x, w) =
    (Inr (), (p\<lparr>pt_server := Some (handler, ac_ServerTLSConfig c), pt_mux := Some (ln, ms @ [any_matcher])\<rparr>, x, w))"
  using assms by (simp add: agent_setupServer_def mux_Match_def prog_simps)

lemma agent_setupMembership_run:
  assumes "RPCAddress (ac_BindAddress c) (ac_RPCPort c) = Inr rpcAddr" and "sp_ResolveTCPAddr (ap_serf ap) (ac_BindAddress c) x = (Inr (ip, port), x1)"
    and "sp_Create (ap_serf ap) \<lparr>sc_BindAddr = ip, sc_BindPort = port, sc_EventBuffer = 256, sc_Tags = [''rpc_addr'' \<mapsto> rpcAddr],
        sc_NodeName = ac_NodeName c\<rparr> x1 = (Inr sf, x2)"
    and "\<forall>addrs. ac_StartJoinAddresses c = Some addrs \<longrightarrow> fst (sp_Join (ap_serf ap) sf addrs x2) = Inr ()"
  shows "\<exists>m x'. agent_setupMembership ap c (p, x, w) = (Inr (), (p\<lparr>pt_membership := Some m\<rparr>, x', w)) \<and> mb_serf m = Some sf \<and> mb_handling m"
  using assms
  by (cases "ac_StartJoinAddresses c")
    (auto simp: agent_setupMembership_def discovery_New_def setupSerf_def Let_def prog_simps split: prod.split)

text \<open>
  What the agent relies on of its own packages when it starts: the port is free, the policy can be
  read, a node that bootstraps gets a leader in time, and \<open>serf\<close> joins the cluster.
\<close>

definition agent_up :: "('x \<Rightarrow> bool) \<Rightarrow> ('x, 'ln, 'rf, 'sf) agent_pkg \<Rightarrow> agent_Config \<Rightarrow> bool" where
  "agent_up blank ap c \<longleftrightarrow>
     (\<forall>x. blank x \<longrightarrow> (\<exists>ln x'. ap_Listen ap ''tcp'' ('':'' @ Itoa (ac_RPCPort c)) x = (Inr ln, x') \<and> blank x')) \<and>
     (\<exists>enf. ap_NewEnforcer ap (ac_ACLModelFile c) (ac_ACLPolicyFile c) = Inr enf) \<and>
     (ac_Bootstrap c \<longrightarrow> (\<exists>a \<in> set (ap_leader ap). a \<noteq> '''')) \<and>
     (\<exists>rpcAddr. RPCAddress (ac_BindAddress c) (ac_RPCPort c) = Inr rpcAddr) \<and>
     (\<forall>x. \<exists>ip port x'. sp_ResolveTCPAddr (ap_serf ap) (ac_BindAddress c) x = (Inr (ip, port), x')) \<and>
     (\<forall>sc x. \<exists>sf x'. sp_Create (ap_serf ap) sc x = (Inr sf, x')) \<and>
     (\<forall>sf addrs x. \<exists>x'. sp_Join (ap_serf ap) sf addrs x = (Inr (), x'))"

lemma agent_upE:
  assumes "agent_up blank ap c"
  shows "blank x \<Longrightarrow> \<exists>ln x'. ap_Listen ap ''tcp'' ('':'' @ Itoa (ac_RPCPort c)) x = (Inr ln, x') \<and> blank x'"
    and "\<exists>enf. ap_NewEnforcer ap (ac_ACLModelFile c) (ac_ACLPolicyFile c) = Inr enf"
    and "ac_Bootstrap c \<longrightarrow> agent_waitForLeader ap = Inr ()"
  using assms agent_waitForLeader_ok unfolding agent_up_def by blast+

lemma agent_up_membership:
  assumes "agent_up blank ap c"
  shows "\<exists>m x'. agent_setupMembership ap c (p, x, w) = (Inr (), (p\<lparr>pt_membership := Some m\<rparr>, x', w)) \<and> mb_serf m \<noteq> None \<and> mb_handling m"
proof -
  obtain rpcAddr where 0: "RPCAddress (ac_BindAddress c) (ac_RPCPort c) = Inr rpcAddr"
    using assms unfolding agent_up_def by blast
  obtain ip port x1 where 1: "sp_ResolveTCPAddr (ap_serf ap) (ac_BindAddress c) x = (Inr (ip, port), x1)"
    using assms unfolding agent_up_def by blast
  obtain sf x2 where 2: "sp_Create (ap_serf ap) \<lparr>sc_BindAddr = ip, sc_BindPort = port, sc_EventBuffer = 256,
      sc_Tags = [''rpc_addr'' \<mapsto> rpcAddr], sc_NodeName = ac_NodeName c\<rparr> x1 = (Inr sf, x2)"
    using assms unfolding agent_up_def by blast
  have "\<exists>x'. sp_Join (ap_serf ap) sf addrs x2 = (Inr (), x')" for addrs
    using assms unfolding agent_up_def by blast
  then have "fst (sp_Join (ap_serf ap) sf addrs x2) = Inr ()" for addrs
    by (metis fst_conv)
  with agent_setupMembership_run [OF 0 1 2, of p w] show ?thesis
    by auto
qed

text \<open>
  The state that the set-up methods leave: after three of them, and at the end.
\<close>

abbreviation agent_data :: "agent_Config \<Rightarrow> string" where
  "agent_data c \<equiv> filepath_Join [ac_DataDir c, ''log'']"

abbreviation agent_fields ::
  "agent_Config \<Rightarrow> 'ln \<Rightarrow> log \<times> logStore \<times> 'rf \<Rightarrow> (api_request, 'rf \<times> log \<times> os, api_response) http_handler \<Rightarrow>
     ('rf \<times> log \<times> os, 'sf) Membership option \<Rightarrow> ('ln, 'rf, 'sf) parts" where
  "agent_fields c ln l handler m \<equiv>
     \<lparr>pt_mux = Some (ln, agent_matchers), pt_log = Some l, pt_server = Some (handler, ac_ServerTLSConfig c), pt_membership = m\<rparr>"

definition agent_server :: "('x, 'ln, 'rf, 'sf) agent_pkg \<Rightarrow> agent_Config \<Rightarrow> goerr + (api_request, 'rf \<times> log \<times> os, api_response) http_handler" where
  "agent_server ap c = setupServer (ap_connect ap) (ap_emit ap) (ap_NewErrorDetail ap) (ap_NewEnforcer ap)
     (ac_ACLModelFile c) (ac_ACLPolicyFile c) (agent_service ap)"

lemma agent_setup_three:
  assumes up: "agent_up blank ap c" "raft_up cdc entry (ac_DataDir c) blank pkgs" and x: "blank x" and h: "healthy w"
    and dirs: "os_dirs w (agent_data c) = None" "os_dirs w (filepath_Join [ac_DataDir c, ''raft'', ''log'']) = None"
    and boot: "ac_Bootstrap c \<longrightarrow> ls_storable cdc (raft_log_config (agent_log_config c)) 1 [] [entry]"
  shows "\<exists>p x' w' ln l ldb rf handler. prog_iter (\<lambda>fn. fn) (take 3 (agent_setup ap pkgs c)) (no_parts, x, w) = (Inr (), (p, x', w')) \<and>
    p = agent_fields c ln (l, ldb, rf) handler None \<and>
    agent_server ap c = Inr handler \<and> log_within cdc (agent_data c) (default_config zero_config) 0 [] (l, w')"
proof -
  obtain ln x1 where mux: "ap_Listen ap ''tcp'' ('':'' @ Itoa (ac_RPCPort c)) x = (Inr ln, x1)" "blank x1"
    using agent_upE(1) [OF up(1) x] by blast
  let ?p = "no_parts\<lparr>pt_mux := Some (ln, [])\<rparr>"
  obtain l ldb rf x2 w2 where log: "dist_NewLog pkgs (ac_DataDir c) (agent_log_config c) (x1, w) = (Inr (l, ldb, rf), (x2, w2))"
      "log_within cdc (agent_data c) (default_config zero_config) 0 [] (l, w2)"
    using dist_NewLog_new [OF up(2) mux(2) _ h dirs, of "agent_log_config c"] boot zero_config_ok by (auto simp: agent_log_config_def)
  obtain enf where enf: "ap_NewEnforcer ap (ac_ACLModelFile c) (ac_ACLPolicyFile c) = Inr enf"
    using agent_upE(2) [OF up(1)] by blast
  then obtain handler where handler: "agent_server ap c = Inr handler"
    by (auto simp: agent_server_def setupServer_def auth_New_def Let_def)
  note runs = agent_setupMux_run [OF mux(1), of no_parts w] agent_setupLog_run [of ?p ln "[]", OF _ log(1), of ap]
    agent_setupServer_run [OF _ handler [unfolded agent_server_def]]
  let ?q = "?p\<lparr>pt_mux := Some (ln, agent_matchers), pt_log := Some (l, ldb, rf), pt_server := Some (handler, ac_ServerTLSConfig c)\<rparr>"
  have "prog_iter (\<lambda>fn. fn) (take 3 (agent_setup ap pkgs c)) (no_parts, x, w) = (Inr (), (?q, x2, w2))"
    using agent_upE(3) [OF up(1)] by (simp add: agent_setup_def runs prog_simps numeral_3_eq_3)
  with log(2) handler show ?thesis
    by (simp add: no_parts_def)
qed

lemma agent_New_up:
  assumes "agent_up blank ap c" "raft_up cdc entry (ac_DataDir c) blank pkgs" "blank x" and "healthy w"
    and "os_dirs w (agent_data c) = None" "os_dirs w (filepath_Join [ac_DataDir c, ''raft'', ''log'']) = None"
    and "ac_Bootstrap c \<longrightarrow> ls_storable cdc (raft_log_config (agent_log_config c)) 1 [] [entry]"
  shows "\<exists>p x' w' ln l ldb rf handler m. agent_New ap pkgs c (x, w) = (Inr (), (p, x', w')) \<and>
    p = agent_fields c ln (l, ldb, rf) handler (Some m) \<and>
    agent_server ap c = Inr handler \<and> log_within cdc (agent_data c) (default_config zero_config) 0 [] (l, w') \<and> mb_serf m \<noteq> None \<and> mb_handling m"
proof -
  obtain x1 w1 ln l ldb rf handler where three: "prog_iter (\<lambda>fn. fn) (take 3 (agent_setup ap pkgs c)) (no_parts, x, w) =
      (Inr (), (agent_fields c ln (l, ldb, rf) handler None, x1, w1))"
      "agent_server ap c = Inr handler" "log_within cdc (agent_data c) (default_config zero_config) 0 [] (l, w1)"
    using agent_setup_three [OF assms] by blast
  have four: "agent_setup ap pkgs c = take 3 (agent_setup ap pkgs c) @ [agent_setupMembership ap c]"
    by (simp add: agent_setup_def)
  have "agent_New ap pkgs c (x, w) = andthen (agent_setupMembership ap c) (ret ())
      (agent_fields c ln (l, ldb, rf) handler None, x1, w1)"
    unfolding agent_New_def by (subst four, subst prog_iter_append) (simp add: three(1))
  moreover obtain m x' where "agent_setupMembership ap c
      (agent_fields c ln (l, ldb, rf) handler None, x1, w1) =
      (Inr (), (agent_fields c ln (l, ldb, rf) handler (Some m), x', w1))"
      "mb_serf m \<noteq> None" "mb_handling m"
    using agent_up_membership [OF assms(1), of "agent_fields c ln (l, ldb, rf) handler None" x1 w1] by auto
  ultimately show ?thesis
    using three(2,3) by (simp add: prog_simps)
qed

text \<open>An agent whose packages do not fail.\<close>

definition demo_agent :: "(int, nat, server list, string) agent_pkg" where
  "demo_agent =
     \<lparr>ap_Listen = (\<lambda>_ _. ret 0), ap_MuxClose = (\<lambda>_ x. x), ap_connect = plain_connect, ap_emit = (\<lambda>_ _ s. s),
      ap_NewErrorDetail = Inr, ap_NewEnforcer = (\<lambda>_ _. Inr acl_policy),
      ap_streams = (unimplemented ''ConsumeStream'', unimplemented ''ProduceStream''), ap_ServerShutdown = ret (),
      ap_raft = demo_raft, ap_codec = demo_codec, ap_req = demo_req, ap_leader = ['''', ''127.0.0.1:8400''],
      ap_serf = \<lparr>sp_ResolveTCPAddr = (\<lambda>_. ret (''127.0.0.1'', 8401)), sp_Create = (\<lambda>sc. ret (sc_NodeName sc)), sp_Join = (\<lambda>_ _. ret ()),
        sp_Members = (\<lambda>_ _. []), sp_Leave = (\<lambda>_. ret ())\<rparr>\<rparr>"

definition demo_agent_config :: agent_Config where
  "demo_agent_config =
     \<lparr>ac_ServerTLSConfig = True, ac_PeerTLSConfig = True, ac_DataDir = ''data'', ac_BindAddress = ''127.0.0.1:8401'', ac_RPCPort = 8400,
      ac_NodeName = ''0'', ac_StartJoinAddresses = None, ac_ACLModelFile = ''model.conf'', ac_ACLPolicyFile = ''policy.csv'', ac_Bootstrap = True\<rparr>"

lemma demo_agent_up: "agent_up (\<lambda>_. True) demo_agent demo_agent_config"
proof -
  have "\<exists>a. RPCAddress ''127.0.0.1:8401'' 8400 = Inr a"
    by (simp add: RPCAddress_def SplitHostPort_def last_colon.simps)
  then show ?thesis
    unfolding agent_up_def by (intro conjI) (simp_all add: demo_agent_def demo_agent_config_def prog_simps)
qed

lemma demo_agent_new:
  "raft_up demo_codec boot_entry (ac_DataDir demo_agent_config) (\<lambda>_. True) demo_node"
  "os_dirs demo_disk (agent_data demo_agent_config) = None"
  "os_dirs demo_disk (filepath_Join [ac_DataDir demo_agent_config, ''raft'', ''log'']) = None"
  "ac_Bootstrap demo_agent_config \<longrightarrow> ls_storable demo_codec (raft_log_config (agent_log_config demo_agent_config)) 1 [] [boot_entry]"
  using demo_node_up demo_dirs_new boot_entry_storable
  by (simp_all add: demo_agent_config_def agent_log_config_def raft_log_config_def)

section \<open>Properties\<close>

text \<open>
  C35: one port serves both protocols. A connection that a peer's \<open>Dial\<close> has opened is routed to
  the listener of \<open>raft\<close>, where \<open>Accept\<close> takes it and what follows the identifying byte is still
  to be read; a connection that begins with another byte, a TLS handshake or an HTTP request, is
  routed with all its bytes to the server.
\<close>

theorem mux_routes:
  assumes "cmux_ok cmux"
    and "StreamLayer_Dial client (Inr c) = Inr c'" and "cn_out c = []" and "cn_in peer = cn_out c' @ rest"
    and "cn_in other = b # xs" and "b \<noteq> RaftRPC"
  shows "\<exists>p. cmux agent_matchers peer = Some (0, peer) \<and> StreamLayer_Accept server (Inr peer) = Inr p \<and> cn_in p = rest \<and>
    cmux agent_matchers other = Some (1, other)"
proof -
  have "cn_in peer = RaftRPC # rest"
    using assms(2-4) by (auto simp: StreamLayer_Dial_def conn_write_def split: option.splits if_splits)
  moreover from this have "cmux agent_matchers peer = Some (0, peer)"
    using assms(1) unfolding cmux_ok_def by (auto simp: raft_matcher_def any_matcher_def)
  moreover have "cmux agent_matchers other = Some (1, other)"
    using assms(1,5,6) unfolding cmux_ok_def by (auto simp: raft_matcher_def any_matcher_def)
  ultimately show ?thesis
    by (simp add: StreamLayer_Accept_def conn_read1_def)
qed

theorem mux_routes_witness:
  "\<exists>c' p. StreamLayer_Dial (NewStreamLayer False False) (Inr demo_conn) = Inr c' \<and>
     first_match agent_matchers (demo_conn\<lparr>cn_in := cn_out c' @ [5]\<rparr>) = Some (0, demo_conn\<lparr>cn_in := cn_out c' @ [5]\<rparr>) \<and>
     first_match agent_matchers (demo_conn\<lparr>cn_in := [22]\<rparr>) = Some (1, demo_conn\<lparr>cn_in := [22]\<rparr>) \<and>
     StreamLayer_Accept (NewStreamLayer False False) (Inr (demo_conn\<lparr>cn_in := cn_out c' @ [5]\<rparr>)) = Inr p \<and> cn_in p = [5]"
proof -
  let ?c = "demo_conn\<lparr>cn_out := [RaftRPC]\<rparr>"
  have d: "StreamLayer_Dial (NewStreamLayer False False) (Inr demo_conn) = Inr ?c"
    by (simp add: StreamLayer_Dial_def conn_write_def demo_conn_def NewStreamLayer_def)
  from mux_routes [OF first_match_ok d, of "demo_conn\<lparr>cn_in := cn_out ?c @ [5]\<rparr>" "[5]"
      "demo_conn\<lparr>cn_in := [22]\<rparr>" 22 "[]" "NewStreamLayer False False"] d
  show ?thesis
    by (auto simp: demo_conn_def RaftRPC_def)
qed

end
