(* ===== verification/Lifecycle.thy ===== *)
theory Lifecycle
  imports Agent
begin

text \<open>
  The life of an agent, \<open>internal/agent/agent.go\<close>: \<open>New\<close> runs the set-up methods, and two of them
  leave a goroutine behind that calls \<open>Shutdown\<close> when it fails, which can be at any later time.
\<close>

section \<open>Steps\<close>

text \<open>\<open>serve\<close>: what \<open>mux.Serve\<close> returned; an error shuts the agent down, and its own error is dropped.\<close>

definition agent_serve :: "'s agent action \<Rightarrow> goerr option \<Rightarrow> 's agent action" where
  "agent_serve shutdown served = (case served of
       None \<Rightarrow> ret ()
     | Some err \<Rightarrow> andthen (iferr shutdown (\<lambda>_. ret ()) ret) (fail (Error err)))"

text \<open>The methods that \<open>New\<close> runs and the functions that \<open>Shutdown\<close> runs, on the state of the parts.\<close>

record 's agent_env =
  ae_setup :: "'s action list"
  ae_stop :: "'s action list"

definition agent_methods ::
  "('x, 'ln, 'rf, 'sf) agent_pkg \<Rightarrow> ('x, 'd, 'lg, 'fs, 'ch, 'sn, 'tr, 'rf) node_pkg \<Rightarrow> agent_Config \<Rightarrow>
     ('x, 'ln, 'rf, 'sf) agent_state agent_env" where
  "agent_methods ap pkgs c =
     \<lparr>ae_setup = agent_setup ap pkgs c, ae_stop = [agent_leave ap, agent_stopServer ap, agent_closeLog ap]\<rparr>"

text \<open>
  \<open>lc_stage\<close> counts the set-up methods that have returned; \<open>lc_serving\<close> and \<open>lc_muxing\<close> are the
  goroutines of \<open>setupServer\<close>, which is the third method, and of \<open>serve\<close>, which \<open>New\<close> starts at the
  end. A panic ends the process.
\<close>

record 's lifecycle =
  lc_stage :: nat
  lc_failed :: bool
  lc_serving :: bool
  lc_muxing :: bool
  lc_crashed :: bool
  lc_agent :: "'s agent"

definition new_agent :: "'s \<Rightarrow> 's lifecycle" where
  "new_agent p = \<lparr>lc_stage = 0, lc_failed = False, lc_serving = False, lc_muxing = False, lc_crashed = False,
     lc_agent = \<lparr>ag_shutdown = False, ag_shutdownCh = False, ag_parts = p\<rparr>\<rparr>"

definition panics :: "'a res \<Rightarrow> bool" where
  "panics r \<longleftrightarrow> (\<exists>p. r = Inl (Panic p))"

text \<open>
  The steps are those of the start, of the goroutines that serve and of \<open>Shutdown\<close>. Requests and the
  entries that \<open>raft\<close> applies in between are not steps; an entry without data would make \<open>Apply\<close> panic.
\<close>

inductive agent_step :: "'s agent_env \<Rightarrow> 's lifecycle \<Rightarrow> 's lifecycle \<Rightarrow> bool" for env :: "'s agent_env" where
  set_up: "\<not> lc_crashed a \<Longrightarrow> \<not> lc_failed a \<Longrightarrow> lc_stage a < 4 \<Longrightarrow>
      (ae_setup env ! lc_stage a) (ag_parts (lc_agent a)) = (Inr (), p) \<Longrightarrow>
      agent_step env a (a\<lparr>lc_stage := Suc (lc_stage a),
        lc_serving := lc_serving a \<or> lc_stage a = 2, lc_muxing := lc_stage a = 3,
        lc_agent := (lc_agent a)\<lparr>ag_parts := p\<rparr>\<rparr>)"
| set_up_fails: "\<not> lc_crashed a \<Longrightarrow> \<not> lc_failed a \<Longrightarrow> lc_stage a < 4 \<Longrightarrow>
      (ae_setup env ! lc_stage a) (ag_parts (lc_agent a)) = (Inl f, p) \<Longrightarrow>
      agent_step env a (a\<lparr>lc_failed := True, lc_crashed := panics (Inl f :: unit res), lc_agent := (lc_agent a)\<lparr>ag_parts := p\<rparr>\<rparr>)"
| server_stops: "\<not> lc_crashed a \<Longrightarrow> lc_serving a \<Longrightarrow> agent_Shutdown (ae_stop env) (lc_agent a) = (r, ag) \<Longrightarrow>
      agent_step env a (a\<lparr>lc_serving := False, lc_crashed := panics r, lc_agent := ag\<rparr>)"
| mux_stops: "\<not> lc_crashed a \<Longrightarrow> lc_muxing a \<Longrightarrow> agent_serve (agent_Shutdown (ae_stop env)) served (lc_agent a) = (r, ag) \<Longrightarrow>
      agent_step env a (a\<lparr>lc_muxing := False, lc_crashed := panics r, lc_agent := ag\<rparr>)"
| Shutdown: "\<not> lc_crashed a \<Longrightarrow> \<not> lc_failed a \<Longrightarrow> lc_stage a = 4 \<Longrightarrow> agent_Shutdown (ae_stop env) (lc_agent a) = (r, ag) \<Longrightarrow>
      agent_step env a (a\<lparr>lc_crashed := panics r, lc_agent := ag\<rparr>)"

inductive agent_reach :: "'s agent_env \<Rightarrow> 's \<Rightarrow> 's lifecycle \<Rightarrow> bool" for env :: "'s agent_env" and p :: 's where
  start: "agent_reach env p (new_agent p)"
| step: "agent_reach env p a \<Longrightarrow> agent_step env a a' \<Longrightarrow> agent_reach env p a'"

section \<open>Shutdown\<close>

lemma shutdown_run:
  assumes "ag_shutdownCh a = ag_shutdown a"
  shows "agent_Shutdown fns a =
    (if ag_shutdown a then (Inr (), a) else prog_iter on_parts fns (a\<lparr>ag_shutdown := True, ag_shutdownCh := True\<rparr>))"
  using assms by (simp add: agent_Shutdown_def prog_simps)

lemma on_parts_keeps: "keeps I m \<Longrightarrow> keeps (\<lambda>a. I (ag_parts a) \<and> P (ag_shutdown a) (ag_shutdownCh a)) (on_parts m)"
  by (rule keepsI) (auto simp: on_parts_def split: prod.splits dest: keepsD)

lemma shutdown_keeps:
  assumes "ag_shutdownCh a = ag_shutdown a" and "agent_Shutdown fns a = (r, a')"
    and "\<forall>fn \<in> set fns. keeps I fn" and "I (ag_parts a)"
  shows "I (ag_parts a') \<and> ag_shutdown a' \<and> ag_shutdownCh a'"
proof (cases "ag_shutdown a")
  case True
  then show ?thesis
    using assms shutdown_run [OF assms(1)] by auto
next
  case False
  have "keeps (\<lambda>a. I (ag_parts a) \<and> ag_shutdown a \<and> ag_shutdownCh a) (prog_iter on_parts fns)"
    using assms(3) on_parts_keeps [where P = "(\<and>)"] by (intro keeps_prog_iter) blast
  from keepsD [OF this, of "a\<lparr>ag_shutdown := True, ag_shutdownCh := True\<rparr>" r a'] show ?thesis
    using False assms shutdown_run [OF assms(1)] by simp
qed

text \<open>The flags change together, whatever the functions do.\<close>

lemma shutdown_flags:
  assumes "ag_shutdownCh a = ag_shutdown a" and "agent_Shutdown fns a = (r, a')"
  shows "ag_shutdown a'" and "ag_shutdownCh a'" and "ag_shutdown a \<Longrightarrow> a' = a \<and> r = Inr ()"
  using shutdown_keeps [OF assms, of "\<lambda>_. True"] assms shutdown_run [OF assms(1)] by (auto simp: keeps_def)

text \<open>
  \<open>Shutdown\<close> takes effect once. After a call, however it ended, every further call returns nil and
  does nothing. When the first function fails, the membership cannot leave, and the log is not
  closed, also by no later call.
\<close>

theorem shutdown_once:
  assumes "ag_shutdownCh a = ag_shutdown a" and "agent_Shutdown (fn # fns) a = (r, a')"
  shows "agent_Shutdown gs a' = (Inr (), a') \<and>
    (\<not> ag_shutdown a \<longrightarrow> (\<forall>e s. fn (ag_parts a) = (Inl (Error e), s) \<longrightarrow> r = Inl (Error e) \<and> ag_parts a' = s))"
  using shutdown_flags [OF assms] assms(2) shutdown_run [OF assms(1)]
  by (auto simp: agent_Shutdown_def prog_simps on_parts_def)

text \<open>\<open>serve\<close> changes the agent as \<open>Shutdown\<close> does, or not at all.\<close>

lemma agent_serve_cases:
  assumes "agent_serve m served a = (r, a')"
  obtains "served = None" "r = Inr ()" "a' = a"
  | err q where "served = Some err" "m a = (q, a')" "panics r \<longleftrightarrow> panics q"
proof (cases served)
  case None
  then show ?thesis
    using assms that(1) by (simp add: agent_serve_def prog_simps)
next
  case (Some err)
  obtain q b where q: "m a = (q, b)"
    by (cases "m a")
  with Some show ?thesis
    using assms that(2) [of err q]
    by (auto simp: agent_serve_def prog_simps panics_def split: sum.splits failure.splits)
qed

section \<open>The contract of the parts\<close>

text \<open>
  The invariant of the steps, where \<open>at k\<close> says that the first \<open>k\<close> parts are set and usable and the
  membership is not set before the end.
\<close>

definition alive :: "(nat \<Rightarrow> 's \<Rightarrow> bool) \<Rightarrow> 's lifecycle \<Rightarrow> bool" where
  "alive at a \<longleftrightarrow> lc_stage a \<le> 4 \<and> ag_shutdownCh (lc_agent a) = ag_shutdown (lc_agent a) \<and>
     (lc_failed a \<longrightarrow> lc_stage a < 4) \<and> (lc_stage a = 4 \<longrightarrow> \<not> lc_crashed a) \<and>
     (lc_serving a \<longrightarrow> 3 \<le> lc_stage a) \<and> (lc_muxing a \<longrightarrow> lc_stage a = 4) \<and>
     (\<not> lc_failed a \<longrightarrow> \<not> lc_crashed a \<longrightarrow> at (lc_stage a) (ag_parts (lc_agent a)) \<and>
       (lc_stage a < 4 \<longrightarrow> \<not> ag_shutdown (lc_agent a)))"

text \<open>
  Each set-up method adds its part. The functions of \<open>Shutdown\<close> do not panic on a complete agent, and
  they leave it complete; before the membership is set the first of them panics.
\<close>

locale agent_parts =
  fixes env :: "'s agent_env" and at :: "nat \<Rightarrow> 's \<Rightarrow> bool"
  assumes set_up_at: "k < 4 \<Longrightarrow> at k s \<Longrightarrow> (ae_setup env ! k) s = (Inr (), t) \<Longrightarrow> at (Suc k) t"
    and stop_at: "fn \<in> set (ae_stop env) \<Longrightarrow> keeps (at 4) fn"
    and stop_calm: "fn \<in> set (ae_stop env) \<Longrightarrow> at 4 s \<Longrightarrow> \<not> panics (fst (fn s))"
    and stop_early: "at 3 s \<Longrightarrow> panics (fst (hd (ae_stop env) s))" and stop_some: "ae_stop env \<noteq> []"
begin

lemma stops_calm:
  "\<forall>fn \<in> set fns. fn \<in> set (ae_stop env) \<Longrightarrow> at 4 (ag_parts a) \<Longrightarrow> \<not> panics (fst (prog_iter on_parts fns a))"
proof (induction fns arbitrary: a)
  case (Cons fn fns)
  obtain r s where run: "fn (ag_parts a) = (r, s)"
    by (cases "fn (ag_parts a)")
  then have "at 4 s" "\<not> panics r"
    using Cons.prems keepsD [OF stop_at, of fn "ag_parts a" r s] stop_calm [of fn "ag_parts a"] by auto
  then show ?case
    using Cons.IH [of "a\<lparr>ag_parts := s\<rparr>"] Cons.prems(1) run
    by (auto simp: on_parts_def prog_simps panics_def split: sum.splits)
qed (simp add: prog_simps panics_def)

lemma shutdown_calm:
  assumes "ag_shutdownCh a = ag_shutdown a" and "at 4 (ag_parts a)" and "agent_Shutdown (ae_stop env) a = (r, a')"
  shows "\<not> panics r"
  using stops_calm [of "ae_stop env" "a\<lparr>ag_shutdown := True, ag_shutdownCh := True\<rparr>"] assms shutdown_run [OF assms(1)]
  by (auto simp: panics_def split: if_splits)

text \<open>A shutdown before the membership is set panics.\<close>

lemma shutdown_early:
  assumes "ag_shutdownCh a = ag_shutdown a" and "\<not> ag_shutdown a" and "at 3 (ag_parts a)"
    and "agent_Shutdown (ae_stop env) a = (r, a')"
  shows "panics r"
proof -
  obtain fn fns where fns: "ae_stop env = fn # fns"
    using stop_some by (cases "ae_stop env") auto
  obtain q s where "fn (ag_parts a) = (Inl (Panic q), s)"
    using stop_early [OF assms(3)] by (cases "fn (ag_parts a)") (auto simp: panics_def fns)
  then show ?thesis
    using assms(2,4) shutdown_run [OF assms(1), of "ae_stop env"] by (auto simp: fns on_parts_def prog_simps panics_def)
qed

lemma shutdown_alive:
  assumes "alive at a" and "\<not> lc_crashed a" and "lc_stage a = 4" and "agent_Shutdown (ae_stop env) (lc_agent a) = (r, ag)"
  shows "\<not> panics r \<and> ag_shutdownCh ag = ag_shutdown ag \<and> at 4 (ag_parts ag)"
proof -
  have inv: "ag_shutdownCh (lc_agent a) = ag_shutdown (lc_agent a)" "at 4 (ag_parts (lc_agent a))"
    using assms(1-3) by (auto simp: alive_def)
  then show ?thesis
    using shutdown_calm [OF inv assms(4)] shutdown_keeps [where I = "at 4", OF inv(1) assms(4)] stop_at by blast
qed

lemma step_alive:
  assumes "agent_step env a a'" and "alive at a"
  shows "alive at a'"
  using assms(1)
proof cases
  case (server_stops r ag)
  have sync: "ag_shutdownCh (lc_agent a) = ag_shutdown (lc_agent a)"
    using assms(2) by (simp add: alive_def)
  have "panics r" if "\<not> lc_failed a" "lc_stage a \<noteq> 4"
  proof -
    have "lc_stage a = 3"
      using assms(2) server_stops(3) that(2) by (auto simp: alive_def)
    then show ?thesis
      using shutdown_early [OF sync _ _ server_stops(4)] assms(2) server_stops(2) that(1) by (auto simp: alive_def)
  qed
  moreover note shutdown_alive [OF assms(2) server_stops(2) _ server_stops(4)] shutdown_flags [OF sync server_stops(4)]
  ultimately show ?thesis
    using server_stops(1) assms(2) by (cases "lc_stage a = 4") (auto simp: alive_def)
next
  case (mux_stops served r ag)
  have "lc_stage a = 4"
    using assms(2) mux_stops(3) by (simp add: alive_def)
  from mux_stops(4) show ?thesis
  proof (cases rule: agent_serve_cases)
    case (2 err q)
    with shutdown_alive [OF assms(2) mux_stops(2) \<open>lc_stage a = 4\<close> 2(2)] show ?thesis
      using mux_stops(1) assms(2) \<open>lc_stage a = 4\<close> by (auto simp: alive_def)
  qed (use mux_stops assms(2) in \<open>auto simp: alive_def panics_def\<close>)
next
  case (Shutdown r ag)
  with shutdown_alive [OF assms(2) Shutdown(2,4,5)] show ?thesis
    using assms(2) by (auto simp: alive_def)
qed (use assms(2) set_up_at in \<open>auto simp: alive_def\<close>)

lemma reach_alive: "agent_reach env p a \<Longrightarrow> at 0 p \<Longrightarrow> alive at a"
proof (induction rule: agent_reach.induct)
  case start
  then show ?case
    by (simp add: alive_def new_agent_def)
qed (blast intro: step_alive)

text \<open>The steps of a complete agent: each is a \<open>Shutdown\<close>, or the multiplexer ended without an error.\<close>

lemma complete_step:
  assumes "agent_step env a a'" and "alive at a" and "lc_stage a = 4"
  shows "\<not> lc_crashed a' \<and> lc_stage a' = 4 \<and> (ag_shutdown (lc_agent a) \<longrightarrow> lc_agent a' = lc_agent a)"
proof -
  have sync: "ag_shutdownCh (lc_agent a) = ag_shutdown (lc_agent a)"
    using assms(2) by (simp add: alive_def)
  show ?thesis
    using assms(1)
  proof cases
    case (server_stops r ag)
    then show ?thesis
      using shutdown_alive [OF assms(2) _ assms(3)] shutdown_flags(3) [OF sync] assms(3) by auto
  next
    case (mux_stops served r ag)
    from mux_stops(4) show ?thesis
    proof (cases rule: agent_serve_cases)
      case (2 err q)
      then show ?thesis
        using mux_stops shutdown_alive [OF assms(2) _ assms(3)] shutdown_flags(3) [OF sync] assms(3) by auto
    qed (use mux_stops assms(3) in \<open>auto simp: panics_def\<close>)
  next
    case (Shutdown r ag)
    then show ?thesis
      using shutdown_alive [OF assms(2) _ assms(3)] shutdown_flags(3) [OF sync] assms(3) by auto
  qed (use assms(3) in auto)
qed

text \<open>When \<open>New\<close> has got to the membership and the server fails, the process crashes.\<close>

lemma early_crash:
  assumes "agent_reach env p a" and "at 0 p" and "lc_stage a = 3" and "lc_serving a" and "\<not> lc_failed a" and "\<not> lc_crashed a"
  shows "\<exists>a'. agent_step env a a' \<and> lc_crashed a'"
proof -
  have a: "ag_shutdownCh (lc_agent a) = ag_shutdown (lc_agent a)" "\<not> ag_shutdown (lc_agent a)" "at 3 (ag_parts (lc_agent a))"
    using reach_alive [OF assms(1,2)] assms(3,5,6) by (auto simp: alive_def)
  obtain r ag where s: "agent_Shutdown (ae_stop env) (lc_agent a) = (r, ag)"
    by (metis surj_pair)
  with agent_step.server_stops [OF assms(6,4) s] shutdown_early [OF a s] show ?thesis
    by (intro exI [of _ "a\<lparr>lc_serving := False, lc_crashed := panics r, lc_agent := ag\<rparr>"]) simp
qed

end

section \<open>Methods that do not panic\<close>

text \<open>\<open>safe I m\<close>: from a state with \<open>I\<close> the method does not panic and keeps \<open>I\<close>.\<close>

definition safe :: "('s \<Rightarrow> bool) \<Rightarrow> ('s, 'a) prog \<Rightarrow> bool" where
  "safe I m \<longleftrightarrow> (\<forall>s r t. I s \<longrightarrow> m s = (r, t) \<longrightarrow> \<not> panics r \<and> I t)"

named_theorems safe_intros \<open>programs that do not panic\<close>

lemma safeI: "(\<And>s r t. I s \<Longrightarrow> m s = (r, t) \<Longrightarrow> \<not> panics r \<and> I t) \<Longrightarrow> safe I m"
  by (simp add: safe_def)

lemma safeD: "safe I m \<Longrightarrow> I s \<Longrightarrow> m s = (r, t) \<Longrightarrow> \<not> panics r \<and> I t"
  by (simp add: safe_def)

lemma safe_calm: "safe (\<lambda>_. True) m \<Longrightarrow> m s = (r, t) \<Longrightarrow> \<not> panics r"
  unfolding safe_def by blast

lemma safe_keeps: "safe I m \<Longrightarrow> keeps I m"
  by (rule keepsI) (blast dest: safeD)

lemma safe_ret [safe_intros]: "safe I (ret x)"
  by (simp add: safe_def panics_def prog_simps)

lemma safe_fail [safe_intros]: "safe I (fail (Error e))"
  by (simp add: safe_def panics_def prog_simps)

lemma safe_upd_st: "(\<And>s. I s \<Longrightarrow> I (f s)) \<Longrightarrow> safe I (upd_st f)"
  by (simp add: safe_def panics_def prog_simps)

lemma safe_bnd [safe_intros]: "safe I m \<Longrightarrow> (\<And>x. safe I (k x)) \<Longrightarrow> safe I (bnd m k)"
proof (rule safeI)
  fix s r t
  assume m: "safe I m" and k: "\<And>x. safe I (k x)" and s: "I s" and run: "bnd m k s = (r, t)"
  obtain q u where q: "m s = (q, u)"
    by (cases "m s")
  show "\<not> panics r \<and> I t"
  proof (cases q)
    case (Inl f)
    then show ?thesis
      using safeD [OF m s q] run q by (auto simp: bnd_run panics_def)
  next
    case (Inr x)
    then show ?thesis
      using safeD [OF m s q] safeD [OF k, of u x r t] run q by (simp add: bnd_run)
  qed
qed

lemma safe_get_st: "(\<And>s. I s \<Longrightarrow> safe I (k s)) \<Longrightarrow> safe I (bnd get_st k)"
proof (rule safeI)
  fix s r t
  assume k: "\<And>s. I s \<Longrightarrow> safe I (k s)" and s: "I s" and run: "bnd get_st k s = (r, t)"
  then have "k s s = (r, t)"
    by (simp add: bnd_run get_st_run)
  from safeD [OF k [OF s] s this] show "\<not> panics r \<and> I t" .
qed

lemma safe_andthen [safe_intros]: "safe I m \<Longrightarrow> safe I n \<Longrightarrow> safe I (andthen m n)"
  by (simp add: andthen_def safe_bnd)

lemma safe_wrapf [safe_intros]: "safe I m \<Longrightarrow> safe I (wrapf msg m)"
  by (rule safeI) (auto simp: wrapf_run panics_def split: prod.splits sum.splits failure.splits dest!: safeD)

lemma safe_if [safe_intros]: "(b \<Longrightarrow> safe I m) \<Longrightarrow> (\<not> b \<Longrightarrow> safe I n) \<Longrightarrow> safe I (if b then m else n)"
  by simp

lemma safe_prog_iter [safe_intros]: "(\<And>x. x \<in> set xs \<Longrightarrow> safe I (f x)) \<Longrightarrow> safe I (prog_iter f xs)"
  by (induction xs) (auto intro!: safe_intros)

lemma safe_on_os [safe_intros]: "safe (\<lambda>_. True) m \<Longrightarrow> safe (\<lambda>s. P (fst s)) (on_os m)"
  by (rule safeI) (auto simp: on_os_def split: prod.splits dest: safeD)

lemma safe_sys: "safe (\<lambda>_. True) sys"
  by (rule safeI) (auto simp: sys_def panics_def split: prod.splits option.splits)

lemma safe_file_op: "(\<And>c. safe (\<lambda>_. True) (k c)) \<Longrightarrow> safe (\<lambda>_. True) (file_op f k)"
  unfolding file_op_def
  by (intro safe_intros safe_sys safeI) (auto simp: panics_def safe_def split: option.splits)

lemma file_close_calm: "file_close s = (r, t) \<Longrightarrow> \<not> panics r"
  by (auto simp: file_close_def panics_def sys_def split: if_splits prod.splits option.splits)

subsection \<open>Closing a log\<close>

text \<open>
  A log whose segments are in its heap and have a mapped index of some length: the indexing into the
  map by \<open>Msync\<close> does not panic then.
\<close>

abbreviation index_mapped :: "index \<times> os \<Rightarrow> bool" where
  "index_mapped \<equiv> \<lambda>s. 0 < ix_maplen (fst s)"

abbreviation segment_mapped :: "segment \<times> os \<Rightarrow> bool" where
  "segment_mapped \<equiv> \<lambda>s. 0 < ix_maplen (sg_index (fst s))"

definition log_wf :: "log \<Rightarrow> bool" where
  "log_wf l \<longleftrightarrow> (\<forall>a \<in> set (l_segments l). a < length (l_heap l)) \<and> (\<forall>s \<in> set (l_heap l). 0 < ix_maplen (sg_index s))"

lemma safe_index_close: "safe index_mapped index_close"
proof -
  have "safe index_mapped msync"
    unfolding msync_def by (rule safe_get_st) (auto intro!: safe_intros safe_sys)
  moreover have "safe index_mapped munmap"
    unfolding munmap_def by (intro safe_intros safe_sys safeI) (auto simp: panics_def split: prod.splits if_splits)
  moreover have "safe index_mapped (\<lambda>(i, w). case file_close (ix_file i, w) of (r, (f, w')) \<Rightarrow> (r, (i\<lparr>ix_file := f\<rparr>, w')))"
    by (rule safeI) (auto split: prod.splits dest: file_close_calm)
  ultimately show ?thesis
    unfolding index_close_def file_sync_def file_truncate_def
    by (intro safe_andthen safe_get_st) (auto intro!: safe_intros safe_file_op safe_upd_st split: prod.split)
qed

lemma safe_store_close: "safe (\<lambda>_. True) store_close"
  unfolding store_close_def
  by (intro safe_intros safeI) (auto simp: on_buf_def bufio_flush_def panics_def file_close_calm
      split: prod.splits if_splits option.splits dest: file_close_calm)

lemma safe_segment_close: "safe segment_mapped segment_close"
proof -
  have "safe segment_mapped (on_index index_close)"
  proof (rule safeI)
    fix s r t
    assume s: "segment_mapped s" and run: "on_index index_close s = (r, t)"
    obtain q i w where q: "index_close (sg_index (fst s), snd s) = (q, (i, w))"
      by (metis surj_pair)
    with safeD [OF safe_index_close _ q] s run show "\<not> panics r \<and> segment_mapped t"
      by (cases s) (auto simp: on_index_def)
  qed
  moreover have "safe segment_mapped (on_store store_close)"
    by (rule safeI) (auto simp: on_store_def split: prod.splits dest: safe_calm [OF safe_store_close])
  ultimately show ?thesis
    unfolding segment_close_def by (intro safe_intros)
qed

lemma safe_log_close: "safe (\<lambda>(l, w). log_wf l) log_close"
proof (rule safeI)
  fix s :: "log \<times> os" and r t
  assume s: "case s of (l, w) \<Rightarrow> log_wf l" and run: "log_close s = (r, t)"
  obtain l w where lw: "s = (l, w)" by (cases s)
  let ?I = "\<lambda>(l' :: log, w' :: os). log_wf l' \<and> length (l_heap l') = length (l_heap l)"
  have "safe ?I (on_segment a segment_close)" if "a \<in> set (l_segments l)" for a
  proof (rule safeI)
    fix u q v
    assume u: "?I u" "on_segment a segment_close u = (q, v)"
    moreover have "a < length (l_heap l)"
      using s that by (auto simp: lw log_wf_def)
    ultimately show "\<not> panics q \<and> ?I v"
      using safeD [OF safe_segment_close, of "(l_heap (fst u) ! a, snd u)"]
      by (auto simp: on_segment_def log_wf_def split: prod.splits dest!: set_update_subset_insert [THEN subsetD])
  qed
  then have "safe ?I (prog_iter (\<lambda>a. on_segment a segment_close) (l_segments l))"
    by (rule safe_prog_iter)
  with run s show "\<not> panics r \<and> (case t of (l, w) \<Rightarrow> log_wf l)"
    by (auto simp: lw log_close_def prog_simps dest!: safeD [where s = "(l, w)"])
qed

text \<open>A log that \<open>NewLog\<close> has set up is such a log.\<close>

lemma newSegment_mapped:
  assumes "newSegment d b c w = (Inr s, w')"
  shows "0 < ix_maplen (sg_index s)"
proof -
  have pos: "0 < unat n" if "\<not> sint n \<le> 0" for n :: u64
    using that by (cases "n = 0") (auto simp: unat_gt_0)
  have ix: "0 < ix_maplen i" if "wrapf m (newIndex f n) w = (Inr i, w')" for m f n w i w'
    using that pos by (auto simp: newIndex_def file_mmap_def file_op_def prog_simps
        split: prod.splits sum.splits failure.splits option.splits if_splits)
  show ?thesis
    using assms unfolding newSegment_def
    by (elim bnd_InrE) (auto dest!: ix index_read_world split: prod.splits sum.splits failure.splits)
qed

lemma log_newSegment_wf: "keeps (\<lambda>(l, w). log_wf l) (log_newSegment off)"
proof (rule keepsI)
  fix s :: "log \<times> os" and r t
  assume s: "case s of (l, w) \<Rightarrow> log_wf l" and run: "log_newSegment off s = (r, t)"
  obtain l w where lw: "s = (l, w)" by (cases s)
  obtain q w' where q: "newSegment (l_dir l) off (l_config l) w = (q, w')"
    by (cases "newSegment (l_dir l) off (l_config l) w")
  show "case t of (l, w) \<Rightarrow> log_wf l"
  proof (cases q)
    case (Inr sg)
    with newSegment_mapped q s run show ?thesis
      by (fastforce simp: lw log_newSegment_def log_wf_def prog_simps less_Suc_eq)
  qed (use s run q in \<open>auto simp: lw log_newSegment_def prog_simps\<close>)
qed

lemma NewLog_wf:
  assumes "NewLog d c w = (Inr l, w')"
  shows "log_wf l"
proof -
  have "keeps (\<lambda>(l, w). log_wf l) log_setup"
    unfolding log_setup_def
    by (intro keeps_intros log_newSegment_wf) (auto intro!: keepsI keeps_intros log_newSegment_wf simp: on_os_def split: prod.splits)
  then show ?thesis
    using assms keepsD [of "\<lambda>(l, w). log_wf l" log_setup "(\<lparr>l_dir = d, l_config = default_config c, l_heap = [], l_segments = [], l_active = None\<rparr>, w)"]
    by (fastforce simp: NewLog_def log_wf_def split: prod.splits sum.splits)
qed

section \<open>The agent\<close>

text \<open>
  What an agent relies on: leaving the cluster and shutting down the server and \<open>raft\<close> do not panic,
  and \<open>raft\<close> uses the log only through its methods, which leave its segments in place.
\<close>

abbreviation node_wf :: "'x node_state \<Rightarrow> bool" where
  "node_wf \<equiv> \<lambda>(x, l, ldb, w). log_wf l"

definition pkgs_calm :: "('x, 'ln, 'rf, 'sf) agent_pkg \<Rightarrow> ('x, 'd, 'lg, 'fs, 'ch, 'sn, 'tr, 'rf) node_pkg \<Rightarrow> bool" where
  "pkgs_calm ap pkgs \<longleftrightarrow> (\<forall>sf. safe (\<lambda>_. True) (sp_Leave (ap_serf ap) sf)) \<and> safe (\<lambda>_. True) (ap_ServerShutdown ap) \<and>
     safe (\<lambda>(k, l, w). log_wf l) (rf_Shutdown (ap_raft ap)) \<and>
     (\<forall>config sdb fss tr. keeps node_wf (rp_NewRaft (snd pkgs) config sdb fss tr)) \<and>
     (\<forall>sdb fss. keeps node_wf (rp_HasExistingState (snd pkgs) sdb fss)) \<and>
     (\<forall>rf servers. keeps node_wf (rp_BootstrapCluster (snd pkgs) rf servers))"

definition agent_at ::
  "('x, 'ln, 'rf, 'sf) agent_pkg \<Rightarrow> ('x, 'd, 'lg, 'fs, 'ch, 'sn, 'tr, 'rf) node_pkg \<Rightarrow> nat \<Rightarrow> ('x, 'ln, 'rf, 'sf) agent_state \<Rightarrow> bool" where
  "agent_at ap pkgs k = (\<lambda>(p, x, w). pkgs_calm ap pkgs \<and>
     (1 \<le> k \<longrightarrow> pt_mux p \<noteq> None) \<and>
     (2 \<le> k \<longrightarrow> (\<exists>l ldb rf. pt_log p = Some (l, ldb, rf) \<and> log_wf l)) \<and>
     (3 \<le> k \<longrightarrow> pt_server p \<noteq> None) \<and>
     (if k < 4 then pt_membership p = None else (\<exists>m. pt_membership p = Some m \<and> mb_serf m \<noteq> None)))"

lemma dist_NewLog_wf:
  assumes "pkgs_calm ap pkgs" and "dist_NewLog pkgs dataDir c (x, w) = (Inr (l, ldb, rf), s)"
  shows "log_wf l"
proof -
  obtain pk pkg where pkgs: "pkgs = (pk, pkg)" by (cases pkgs)
  have start: "keeps node_wf (dist_startRaft pkg cr sdb fss)" for cr sdb fss
    using assms(1) unfolding dist_startRaft_def pkgs_calm_def pkgs Let_def by (intro keeps_intros) simp_all
  obtain l0 x1 w1 where l0: "on_os (dist_setupLog dataDir (cf_Segment c)) (x, w) = (Inr l0, (x1, w1))"
      and raft: "dist_setupRaft pkgs dataDir c l0 (x1, w1) = (Inr (l, ldb, rf), s)"
    using assms(2) unfolding dist_NewLog_def by (elim bnd_InrE) auto
  have "log_wf l0"
    using l0 NewLog_wf by (auto simp: dist_setupLog_def Let_def on_os_def prog_simps split: prod.splits sum.splits)
  moreover obtain cr ldb0 sdb fss y where "with_logs l0 ldb0 (dist_startRaft pkg cr sdb fss) y = (Inr (l, ldb, rf), s)"
    using raft unfolding dist_setupRaft_def pkgs Let_def andthen_def prod.case by (elim bnd_InrE) blast
  ultimately show ?thesis
    using keepsD [OF start] by (fastforce simp: with_logs_def split: prod.splits sum.splits)
qed

lemma setup_at:
  assumes "k < 4" and "agent_at ap pkgs k s" and "(agent_setup ap pkgs c ! k) s = (Inr (), t)"
  shows "agent_at ap pkgs (Suc k) t"
proof -
  obtain p x w where s: "s = (p, x, w)" by (cases s)
  consider "k = 0" | "k = 1" | "k = 2" | "k = 3"
    using assms(1) by linarith
  then show ?thesis
  proof cases
    case 1
    then show ?thesis
      using assms by (auto simp: s agent_setup_def agent_at_def agent_setupMux_def split: prod.splits sum.splits)
  next
    case 2
    then show ?thesis
      using assms dist_NewLog_wf [of ap pkgs "ac_DataDir c" "agent_log_config c" x w]
      by (fastforce simp: s agent_setup_def agent_at_def agent_setupLog_def mux_Match_def prog_simps split: prod.splits sum.splits option.splits)
  next
    case 3
    then show ?thesis
      using assms by (auto simp: s agent_setup_def agent_at_def agent_setupServer_def mux_Match_def prog_simps
          split: prod.splits sum.splits option.splits)
  next
    case 4
    then show ?thesis
      using assms by (auto simp: s agent_setup_def agent_at_def agent_setupMembership_def discovery_New_def setupSerf_def Let_def prog_simps
          split: prod.splits sum.splits option.splits)
  qed
qed

lemma dist_Close_safe:
  assumes "pkgs_calm ap pkgs"
  shows "safe (\<lambda>(k, l, w). log_wf l) (dist_Close (ap_raft ap))"
proof -
  have "safe (\<lambda>(k, l, w). log_wf l) (on_log log_close)"
  proof (rule safeI)
    fix s r t
    assume s: "case s of (k, l, w) \<Rightarrow> log_wf l" and run: "on_log log_close s = (r, t)"
    obtain q u where q: "log_close (snd s) = (q, u)"
      by (metis surj_pair)
    with safeD [OF safe_log_close _ q] s run show "\<not> panics r \<and> (case t of (k, l, w) \<Rightarrow> log_wf l)"
      by (cases s) (auto simp: on_log_def)
  qed
  then show ?thesis
    using assms unfolding dist_Close_def pkgs_calm_def by (intro safe_intros) simp_all
qed

lemma stop_functions_safe:
  assumes "fn \<in> {agent_leave ap, agent_stopServer ap, agent_closeLog ap}"
  shows "safe (agent_at ap pkgs 4) fn"
proof (rule safeI)
  fix s r t
  assume s: "agent_at ap pkgs 4 s" and run: "fn s = (r, t)"
  obtain p x w where sx: "s = (p, x, w)" by (cases s)
  have calm: "pkgs_calm ap pkgs"
    using s by (simp add: sx agent_at_def)
  consider "fn = agent_leave ap" | "fn = agent_stopServer ap" | "fn = agent_closeLog ap"
    using assms by blast
  then show "\<not> panics r \<and> agent_at ap pkgs 4 t"
  proof cases
    case 1
    have "\<not> panics q" if "sp_Leave (ap_serf ap) sf x = (q, y)" for sf q y
      using safe_calm [of "sp_Leave (ap_serf ap) sf" x q y] that calm by (simp add: pkgs_calm_def)
    then show ?thesis
      using s run 1 by (auto simp: sx agent_at_def agent_leave_def membership_Leave_def split: prod.splits)
  next
    case 2
    have "safe (\<lambda>_. True) (ap_ServerShutdown ap)"
      using calm by (simp add: pkgs_calm_def)
    then show ?thesis
      using s run 2 by (auto simp: sx agent_at_def agent_stopServer_def iferr_run ret_run panics_def
          split: prod.splits sum.splits failure.splits dest: safe_calm)
  next
    case 3
    obtain l ldb rf where l: "pt_log p = Some (l, ldb, rf)" "log_wf l"
      using s by (auto simp: sx agent_at_def)
    obtain q rf' l' w' where q: "dist_Close (ap_raft ap) (rf, l, w) = (q, (rf', l', w'))"
      by (metis surj_pair)
    with safeD [OF dist_Close_safe [OF calm] _ q] l s run 3 show ?thesis
      by (auto simp: sx agent_at_def agent_closeLog_def)
  qed
qed

interpretation running_agent: agent_parts "agent_methods ap pkgs c" "agent_at ap pkgs"
  for ap pkgs c
proof unfold_locales
  fix fn s
  assume fn: "fn \<in> set (ae_stop (agent_methods ap pkgs c))"
  then have safe: "safe (agent_at ap pkgs 4) fn"
    by (intro stop_functions_safe) (simp add: agent_methods_def)
  then show "keeps (agent_at ap pkgs 4) fn"
    by (rule safe_keeps)
  show "\<not> panics (fst (fn s))" if "agent_at ap pkgs 4 s"
    using safeD [OF safe that] by (metis prod.collapse)
next
  fix s
  assume "agent_at ap pkgs 3 s"
  then show "panics (fst (hd (ae_stop (agent_methods ap pkgs c)) s))"
    by (auto simp: agent_methods_def agent_leave_def agent_at_def panics_def)
qed (simp_all add: agent_methods_def setup_at)

section \<open>Reaching a stage\<close>

lemma set_up_reaches:
  "k \<le> 4 \<Longrightarrow> length (ae_setup env) = 4 \<Longrightarrow> prog_iter (\<lambda>fn. fn) (take k (ae_setup env)) p = (Inr (), s) \<Longrightarrow>
     \<exists>a. agent_reach env p a \<and> lc_stage a = k \<and> \<not> lc_failed a \<and> \<not> lc_crashed a \<and> (lc_serving a \<longleftrightarrow> 3 \<le> k) \<and> ag_parts (lc_agent a) = s"
proof (induction k arbitrary: s)
  case 0
  then show ?case
    using agent_reach.start [of env p] by (intro exI [of _ "new_agent p"]) (auto simp: new_agent_def prog_simps)
next
  case (Suc k)
  have "take (Suc k) (ae_setup env) = take k (ae_setup env) @ [ae_setup env ! k]"
    using Suc.prems by (simp add: take_Suc_conv_app_nth)
  with Suc.prems(3) obtain t where t: "prog_iter (\<lambda>fn. fn) (take k (ae_setup env)) p = (Inr (), t)" "(ae_setup env ! k) t = (Inr (), s)"
    by (auto simp: prog_iter_append prog_simps split: prod.splits sum.splits)
  obtain a where a: "agent_reach env p a" "lc_stage a = k" "\<not> lc_failed a" "\<not> lc_crashed a" "lc_serving a \<longleftrightarrow> 3 \<le> k" "ag_parts (lc_agent a) = t"
    using Suc.IH [OF _ Suc.prems(2) t(1)] Suc.prems(1) by auto
  have "agent_step env a (a\<lparr>lc_stage := Suc (lc_stage a), lc_serving := lc_serving a \<or> lc_stage a = 2, lc_muxing := lc_stage a = 3,
      lc_agent := (lc_agent a)\<lparr>ag_parts := s\<rparr>\<rparr>)"
    using a t(2) Suc.prems(1) by (intro agent_step.set_up) simp_all
  from agent_reach.step [OF a(1) this] a show ?case
    by (intro exI) (auto simp: le_Suc_eq)
qed

lemma methods_setup: "ae_setup (agent_methods ap pkgs c) = agent_setup ap pkgs c" "length (agent_setup ap pkgs c) = 4"
  by (simp_all add: agent_methods_def agent_setup_def)

lemma agent_at_start: "pkgs_calm ap pkgs \<Longrightarrow> agent_at ap pkgs 0 (no_parts, x, w)"
  by (simp add: agent_at_def no_parts_def)

lemma demo_calm: "pkgs_calm demo_agent demo_node"
  unfolding pkgs_calm_def demo_agent_def demo_node_def demo_raft_def
  by (auto intro!: safe_ret keeps_intros keepsI split: prod.splits)

section \<open>Properties\<close>

text \<open>
  C15: the life of an agent, however its goroutines run. The flag and the channel of \<open>Shutdown\<close>
  change together. Once \<open>New\<close> has run its four methods the process does not crash: every part is
  set and stays set, whatever \<open>Serve\<close> of the server and of the multiplexer return and whoever calls
  \<open>Shutdown\<close>, and after the first shutdown no step changes the agent. The log can be closed without
  a panic because every segment that it has opened has a mapped index.
\<close>

theorem agent_lifecycle:
  assumes "pkgs_calm ap pkgs" and "agent_reach (agent_methods ap pkgs c) (no_parts, x, w) a"
  shows "ag_shutdownCh (lc_agent a) = ag_shutdown (lc_agent a) \<and>
    (lc_stage a = 4 \<longrightarrow> \<not> lc_crashed a \<and> agent_at ap pkgs 4 (ag_parts (lc_agent a)) \<and>
       (\<forall>a'. agent_step (agent_methods ap pkgs c) a a' \<longrightarrow> \<not> lc_crashed a' \<and> lc_stage a' = 4 \<and>
          (ag_shutdown (lc_agent a) \<longrightarrow> lc_agent a' = lc_agent a)))"
proof -
  have alive: "alive (agent_at ap pkgs) a"
    by (rule running_agent.reach_alive [OF assms(2) agent_at_start [OF assms(1)]])
  then show ?thesis
    using running_agent.complete_step [OF _ alive] unfolding alive_def by auto
qed

theorem agent_lifecycle_witness:
  "\<exists>a a'. agent_reach (agent_methods demo_agent demo_node demo_agent_config) (no_parts, 0, demo_disk) a \<and> lc_stage a = 4 \<and>
     agent_at demo_agent demo_node 4 (ag_parts (lc_agent a)) \<and>
     agent_step (agent_methods demo_agent demo_node demo_agent_config) a a' \<and> \<not> lc_crashed a' \<and> lc_stage a' = 4"
proof -
  let ?env = "agent_methods demo_agent demo_node demo_agent_config"
  obtain s where "agent_New demo_agent demo_node demo_agent_config (0, demo_disk) = (Inr (), s)"
    using agent_New_up [OF demo_agent_up demo_agent_new(1) TrueI demo_disk_ok(1) demo_agent_new(2-4), of 0] by blast
  then have "prog_iter (\<lambda>fn. fn) (take 4 (ae_setup ?env)) (no_parts, 0, demo_disk) = (Inr (), s)"
    using methods_setup [of demo_agent demo_node demo_agent_config] by (simp add: agent_New_def)
  then obtain a where a: "agent_reach ?env (no_parts, 0, demo_disk) a" "lc_stage a = 4" "\<not> lc_failed a" "\<not> lc_crashed a"
    using set_up_reaches [of 4 ?env "(no_parts, 0, demo_disk)" s] methods_setup [of demo_agent demo_node demo_agent_config] by auto
  obtain r ag where "agent_Shutdown (ae_stop ?env) (lc_agent a) = (r, ag)"
    by (metis surj_pair)
  from agent_lifecycle [OF demo_calm a(1)] agent_step.Shutdown [OF a(4,3,2) this] a(1,2) show ?thesis
    by blast
qed

text \<open>
  C39: an agent can crash while it is set up. The goroutine of the server runs before the membership
  is set: when the first three methods have succeeded and \<open>Serve\<close> fails then, its \<open>Shutdown\<close> calls
  \<open>Leave\<close> on a nil membership, which panics and ends the process.
\<close>

theorem early_server_error_crashes:
  assumes "pkgs_calm ap pkgs" and "prog_iter (\<lambda>fn. fn) (take 3 (agent_setup ap pkgs c)) (no_parts, x, w) = (Inr (), s)"
  shows "\<exists>a a'. agent_reach (agent_methods ap pkgs c) (no_parts, x, w) a \<and> lc_stage a = 3 \<and> ag_parts (lc_agent a) = s \<and>
    agent_step (agent_methods ap pkgs c) a a' \<and> lc_crashed a'"
proof -
  obtain a where a: "agent_reach (agent_methods ap pkgs c) (no_parts, x, w) a" "lc_stage a = 3" "\<not> lc_failed a" "\<not> lc_crashed a"
      "lc_serving a" "ag_parts (lc_agent a) = s"
    using set_up_reaches [of 3 "agent_methods ap pkgs c" "(no_parts, x, w)" s] assms(2) methods_setup [of ap pkgs c] by auto
  from running_agent.early_crash [OF a(1) agent_at_start [OF assms(1)] a(2,5,3,4)] a show ?thesis
    by blast
qed

theorem early_server_error_crashes_witness:
  "\<exists>a a'. agent_reach (agent_methods demo_agent demo_node demo_agent_config) (no_parts, 0, demo_disk) a \<and> lc_stage a = 3 \<and>
     agent_step (agent_methods demo_agent demo_node demo_agent_config) a a' \<and> lc_crashed a'"
proof -
  obtain s where "prog_iter (\<lambda>fn. fn) (take 3 (agent_setup demo_agent demo_node demo_agent_config)) (no_parts, 0, demo_disk) = (Inr (), s)"
    using agent_setup_three [OF demo_agent_up demo_agent_new(1) TrueI demo_disk_ok(1) demo_agent_new(2-4), of 0] by blast
  from early_server_error_crashes [OF demo_calm this] show ?thesis
    by blast
qed

end
