(* ===== verification/Replicator.thy ===== *)
theory Replicator
  imports Membership
begin

text \<open>
  The replicator that pulls records from other servers, \<open>internal/log/replicator/replicator.go\<close>.
  It is a handler of membership events: \<open>Join\<close> starts a worker that copies the records of a
  server, \<open>Leave\<close> and \<open>Close\<close> stop workers by closing channels. What a worker does is in the
  theory \<open>Replication\<close>.
\<close>

section \<open>The replicator\<close>

text \<open>
  A channel is a number below \<open>rp_made\<close>, and \<open>rp_shut\<close> are the closed ones. The map of servers
  and the channel \<open>close\<close> are nil until \<open>init\<close> makes them. The workers are the calls of
  \<open>replicate\<close> that were started, with the address and the leave channel each was given; one that has
  returned on an error stays in the list, as its server stays in the map.
\<close>

record replicator =
  rp_servers :: "(string \<rightharpoonup> nat) option"
  rp_closed :: bool
  rp_close :: "nat option"
  rp_made :: nat
  rp_shut :: "nat set"
  rp_workers :: "(string \<times> nat) list"

definition zero_replicator :: replicator where
  "zero_replicator = \<lparr>rp_servers = None, rp_closed = False, rp_close = None, rp_made = 0, rp_shut = {}, rp_workers = []\<rparr>"

definition make_chan :: "(replicator, nat) prog" where
  "make_chan = (\<lambda>r. (Inr (rp_made r), r\<lparr>rp_made := Suc (rp_made r)\<rparr>))"

definition close_chan :: "nat \<Rightarrow> (replicator, unit) prog" where
  "close_chan ch = (\<lambda>r. if ch \<in> rp_shut r then (Inl (Panic CloseOfClosedChannel), r)
     else (Inr (), r\<lparr>rp_shut := insert ch (rp_shut r)\<rparr>))"

definition replicator_init :: "(replicator, unit) prog" where
  "replicator_init = andthen
     (bnd get_st (\<lambda>r. if rp_servers r = None then upd_st (\<lambda>r. r\<lparr>rp_servers := Some Map.empty\<rparr>) else ret ()))
     (bnd get_st (\<lambda>r. if rp_close r = None then bnd make_chan (\<lambda>ch. upd_st (\<lambda>r. r\<lparr>rp_close := Some ch\<rparr>)) else ret ()))"

text \<open>Access to the map: a nil map has no entries, and an assignment to it would panic.\<close>

definition servers_of :: "replicator \<Rightarrow> string \<rightharpoonup> nat" where
  "servers_of r = (case rp_servers r of None \<Rightarrow> Map.empty | Some m \<Rightarrow> m)"

definition replicator_Join :: "string \<Rightarrow> string \<Rightarrow> (replicator, unit) prog" where
  "replicator_Join name addr = andthen replicator_init (bnd get_st (\<lambda>r.
     if rp_closed r then ret ()
     else if servers_of r name \<noteq> None then ret ()
     else (case rp_servers r of
         None \<Rightarrow> fail (Panic NilDereference)
       | Some m \<Rightarrow> bnd make_chan (\<lambda>ch. upd_st (\<lambda>r. r\<lparr>rp_servers := Some (m(name \<mapsto> ch)),
           rp_workers := rp_workers r @ [(addr, ch)]\<rparr>)))))"

definition replicator_Leave :: "string \<Rightarrow> (replicator, unit) prog" where
  "replicator_Leave name = andthen replicator_init (bnd get_st (\<lambda>r. case servers_of r name of
       None \<Rightarrow> ret ()
     | Some ch \<Rightarrow> andthen (close_chan ch) (upd_st (\<lambda>r. r\<lparr>rp_servers := Some ((servers_of r)(name := None))\<rparr>))))"

definition replicator_Close :: "(replicator, unit) prog" where
  "replicator_Close = andthen replicator_init (bnd get_st (\<lambda>r.
     if rp_closed r then ret ()
     else andthen (upd_st (\<lambda>r. r\<lparr>rp_closed := True\<rparr>)) (case rp_close r of
         None \<Rightarrow> fail (Panic NilDereference)
       | Some ch \<Rightarrow> close_chan ch)))"

section \<open>Steps\<close>

text \<open>The calls of the three methods; the mutex makes each of them one step.\<close>

datatype replicator_call = CallJoin string string | CallLeave string | CallClose

fun call :: "replicator_call \<Rightarrow> (replicator, unit) prog" where
  "call (CallJoin name addr) = replicator_Join name addr"
| "call (CallLeave name) = replicator_Leave name"
| "call CallClose = replicator_Close"

inductive reach :: "replicator \<Rightarrow> bool" where
  start: "reach zero_replicator"
| step: "reach r \<Longrightarrow> call c r = (res, r') \<Longrightarrow> reach r'"

section \<open>The invariant\<close>

definition replicator_ok :: "replicator \<Rightarrow> bool" where
  "replicator_ok r \<longleftrightarrow>
     inj_on (servers_of r) (dom (servers_of r)) \<and>
     (\<forall>ch \<in> ran (servers_of r). ch < rp_made r \<and> ch \<notin> rp_shut r \<and> rp_close r \<noteq> Some ch \<and> ch \<in> snd ` set (rp_workers r)) \<and>
     (\<forall>ch. rp_close r = Some ch \<longrightarrow> ch < rp_made r \<and> (ch \<in> rp_shut r \<longleftrightarrow> rp_closed r)) \<and>
     (rp_closed r \<longrightarrow> rp_close r \<noteq> None) \<and>
     (\<forall>ch \<in> rp_shut r. ch < rp_made r) \<and>
     (\<forall>ch \<in> snd ` set (rp_workers r). ch < rp_made r \<and> rp_close r \<noteq> Some ch \<and> (ch \<in> rp_shut r \<or> ch \<in> ran (servers_of r))) \<and>
     distinct (map snd (rp_workers r))"

lemma zero_ok: "replicator_ok zero_replicator"
  by (simp add: replicator_ok_def zero_replicator_def servers_of_def)

lemma init_ok:
  assumes "replicator_ok r"
  shows "\<exists>r1 ch. replicator_init r = (Inr (), r1) \<and> replicator_ok r1 \<and> rp_servers r1 = Some (servers_of r) \<and>
    rp_close r1 = Some ch \<and> rp_closed r1 = rp_closed r \<and> rp_workers r1 = rp_workers r"
proof -
  define r0 where "r0 = r\<lparr>rp_servers := Some (servers_of r)\<rparr>"
  have r0: "servers_of r0 = servers_of r" "rp_closed r0 = rp_closed r" "rp_close r0 = rp_close r"
      "rp_made r0 = rp_made r" "rp_shut r0 = rp_shut r" "rp_workers r0 = rp_workers r" "rp_servers r0 = Some (servers_of r)"
    by (simp_all add: r0_def servers_of_def)
  have run: "replicator_init r = (case rp_close r of
      None \<Rightarrow> (Inr (), r0\<lparr>rp_made := Suc (rp_made r), rp_close := Some (rp_made r)\<rparr>) | Some _ \<Rightarrow> (Inr (), r0))"
    by (auto simp: replicator_init_def make_chan_def prog_simps r0_def servers_of_def split: option.splits)
  show ?thesis
  proof (cases "rp_close r")
    case None
    let ?r1 = "r0\<lparr>rp_made := Suc (rp_made r), rp_close := Some (rp_made r)\<rparr>"
    have "servers_of ?r1 = servers_of r"
      by (simp add: servers_of_def r0_def)
    then have "replicator_ok ?r1"
      using assms None unfolding replicator_ok_def by (fastforce simp: r0)
    then show ?thesis
      using None run r0 by auto
  next
    case (Some ch)
    then show ?thesis
      using assms run r0 by (auto simp: replicator_ok_def)
  qed
qed

lemma join_ok:
  assumes "replicator_ok r"
  shows "\<exists>r'. replicator_Join name addr r = (Inr (), r') \<and> replicator_ok r'"
proof -
  obtain r1 ch where r1: "replicator_init r = (Inr (), r1)" "replicator_ok r1" "rp_servers r1 = Some (servers_of r)"
    using init_ok [OF assms] by blast
  have s1: "servers_of r1 = servers_of r"
    by (simp add: servers_of_def r1(3))
  let ?r2 = "r1\<lparr>rp_made := Suc (rp_made r1), rp_servers := Some ((servers_of r)(name \<mapsto> rp_made r1)),
      rp_workers := rp_workers r1 @ [(addr, rp_made r1)]\<rparr>"
  have run: "replicator_Join name addr r =
      (Inr (), if rp_closed r1 \<or> servers_of r1 name \<noteq> None then r1 else ?r2)"
    using r1(1,3) by (auto simp: replicator_Join_def make_chan_def prog_simps s1)
  have "replicator_ok ?r2" if "servers_of r1 name = None"
  proof -
    have s2: "servers_of ?r2 = (servers_of r1)(name \<mapsto> rp_made r1)"
      by (simp add: servers_of_def r1(3))
    have new: "rp_made r1 \<notin> ran (servers_of r1)" "rp_made r1 \<notin> rp_shut r1" "rp_close r1 \<noteq> Some (rp_made r1)"
        "rp_made r1 \<notin> snd ` set (rp_workers r1)"
      using r1(2) unfolding replicator_ok_def by auto
    have "ran ((servers_of r1)(name \<mapsto> rp_made r1)) = insert (rp_made r1) (ran (servers_of r1))"
      using that by simp
    moreover have "inj_on ((servers_of r1)(name \<mapsto> rp_made r1)) (insert name (dom (servers_of r1)))"
      using r1(2) new(1) that unfolding replicator_ok_def
      by (auto simp: inj_on_def ran_def dom_def)
    ultimately show ?thesis
      using r1(2) new unfolding replicator_ok_def s2 by (auto simp: less_Suc_eq)
  qed
  then show ?thesis
    using run r1(2) by auto
qed

lemma leave_ok:
  assumes "replicator_ok r"
  shows "\<exists>r'. replicator_Leave name r = (Inr (), r') \<and> replicator_ok r'"
proof -
  obtain r1 where r1: "replicator_init r = (Inr (), r1)" "replicator_ok r1" "rp_servers r1 = Some (servers_of r)"
    using init_ok [OF assms] by blast
  have s1: "servers_of r1 = servers_of r"
    by (simp add: servers_of_def r1(3))
  show ?thesis
  proof (cases "servers_of r1 name")
    case None
    then show ?thesis
      using r1 by (auto simp: replicator_Leave_def prog_simps)
  next
    case (Some ch)
    let ?r2 = "r1\<lparr>rp_shut := insert ch (rp_shut r1), rp_servers := Some ((servers_of r1)(name := None))\<rparr>"
    have ch: "ch \<notin> rp_shut r1" "ch < rp_made r1" "rp_close r1 \<noteq> Some ch" "ch \<in> snd ` set (rp_workers r1)"
      using r1(2) Some unfolding replicator_ok_def by (auto simp: ran_def)
    have run: "replicator_Leave name r = (Inr (), ?r2)"
      using r1(1) ch(1) Some by (auto simp: replicator_Leave_def close_chan_def prog_simps servers_of_def)
    have s2: "servers_of ?r2 = (servers_of r1)(name := None)"
      by (simp add: servers_of_def)
    have inj: "inj_on (servers_of r1) (dom (servers_of r1))"
      using r1(2) by (simp add: replicator_ok_def)
    then have "ran ((servers_of r1)(name := None)) = ran (servers_of r1) - {ch}"
      using Some by (auto simp: ran_def inj_on_def dom_def) (metis option.inject)
    moreover have "inj_on ((servers_of r1)(name := None)) (dom (servers_of r1) - {name})"
      using inj by (auto simp: inj_on_def)
    ultimately have "replicator_ok ?r2"
      using r1(2) ch unfolding replicator_ok_def s2 by auto
    with run show ?thesis by blast
  qed
qed

lemma close_ok:
  assumes "replicator_ok r"
  shows "\<exists>r'. replicator_Close r = (Inr (), r') \<and> replicator_ok r'"
proof -
  obtain r1 ch where r1: "replicator_init r = (Inr (), r1)" "replicator_ok r1" "rp_close r1 = Some ch"
    using init_ok [OF assms] by blast
  let ?r2 = "r1\<lparr>rp_closed := True, rp_shut := insert ch (rp_shut r1)\<rparr>"
  have "replicator_ok ?r2" if "\<not> rp_closed r1"
    using r1(2,3) that unfolding replicator_ok_def by (auto simp: servers_of_def)
  moreover have "replicator_Close r = (Inr (), if rp_closed r1 then r1 else ?r2)"
    using r1 by (auto simp: replicator_Close_def close_chan_def prog_simps replicator_ok_def)
  ultimately show ?thesis
    using r1(2) by auto
qed

lemma call_ok: "replicator_ok r \<Longrightarrow> \<exists>r'. call c r = (Inr (), r') \<and> replicator_ok r'"
  using join_ok leave_ok close_ok by (cases c) simp_all

lemma reach_ok: "reach r \<Longrightarrow> replicator_ok r"
proof (induction rule: reach.induct)
  case (step r c res r')
  then show ?case
    using call_ok [of r c] by auto
qed (rule zero_ok)

lemma keeps_total: "(\<And>s. I s \<Longrightarrow> \<exists>t. m s = (Inr (), t) \<and> I t) \<Longrightarrow> keeps I m"
  unfolding keeps_def by (metis snd_conv)

definition replicator_handler :: "replicator Handler" where
  "replicator_handler = \<lparr>h_Join = replicator_Join, h_Leave = replicator_Leave\<rparr>"

interpretation pull_member: membership_handler replicator_ok replicator_handler localName
  for localName
  by unfold_locales (simp_all add: replicator_handler_def keeps_total join_ok leave_ok)

section \<open>Properties\<close>

text \<open>
  C14: the channels of the replicator are closed at most once. Starting from the zero value, no
  sequence of \<open>Join\<close>, \<open>Leave\<close> and \<open>Close\<close> panics; every registered server has exactly one worker,
  whose leave channel is open, and every other worker has been told to leave; the channel
  \<open>close\<close> is closed exactly when the replicator is.
\<close>

theorem replicator_safe:
  assumes "reach r"
  shows "(\<exists>r'. call c r = (Inr (), r')) \<and>
    (\<forall>name ch. servers_of r name = Some ch \<longrightarrow> ch \<notin> rp_shut r \<and> (\<exists>!i. i < length (rp_workers r) \<and> snd (rp_workers r ! i) = ch)) \<and>
    (\<forall>addr ch. (addr, ch) \<in> set (rp_workers r) \<longrightarrow> ch \<in> rp_shut r \<or> (\<exists>name. servers_of r name = Some ch)) \<and>
    (\<forall>ch. rp_close r = Some ch \<longrightarrow> (ch \<in> rp_shut r \<longleftrightarrow> rp_closed r))"
proof -
  note ok = reach_ok [OF assms, unfolded replicator_ok_def]
  have "\<exists>!i. i < length (rp_workers r) \<and> snd (rp_workers r ! i) = ch" if "servers_of r name = Some ch" for name ch
  proof -
    have "ch \<in> set (map snd (rp_workers r))"
      using ok that by (auto simp: ran_def)
    moreover have "distinct (map snd (rp_workers r))"
      using ok by blast
    ultimately show ?thesis
      using distinct_Ex1 [of "map snd (rp_workers r)" ch] by (auto simp: ex1_iff_ex_Uniq Uniq_def)
  qed
  moreover have "ch \<in> rp_shut r \<or> (\<exists>name. servers_of r name = Some ch)" if "(addr, ch) \<in> set (rp_workers r)" for addr ch
  proof -
    have "ch \<in> snd ` set (rp_workers r)"
      using that by force
    then show ?thesis
      using ok unfolding ran_def by blast
  qed
  ultimately show ?thesis
    using call_ok [OF reach_ok [OF assms], of c] ok by (auto simp: ran_def)
qed

theorem replicator_safe_witness:
  "\<exists>r r'. replicator_Join ''b'' ''b:1'' zero_replicator = (Inr (), r) \<and> servers_of r ''b'' = Some 1 \<and> 1 \<notin> rp_shut r \<and>
     replicator_Leave ''b'' r = (Inr (), r') \<and> rp_shut r' = {1}"
proof -
  let ?r = "\<lparr>rp_servers = Some [''b'' \<mapsto> 1], rp_closed = False, rp_close = Some 0, rp_made = 2, rp_shut = {}, rp_workers = [(''b:1'', 1)]\<rparr>"
  have j: "call (CallJoin ''b'' ''b:1'') zero_replicator = (Inr (), ?r)"
    by (simp add: replicator_Join_def replicator_init_def make_chan_def zero_replicator_def prog_simps servers_of_def)
  have "(\<exists>r'. call (CallLeave ''b'') ?r = (Inr (), r')) \<and> 1 \<notin> rp_shut ?r"
    using replicator_safe [OF reach.step [OF reach.start j], of "CallLeave ''b''"] by (simp add: servers_of_def)
  then show ?thesis
    using j by (auto simp: replicator_Leave_def replicator_init_def close_chan_def prog_simps servers_of_def)
qed

end
