(* ===== verification/Replication.thy ===== *)
theory Replication
  imports Replicator Client
begin

text \<open>
  The goroutines of \<open>replicate\<close> in \<open>internal/log/replicator/replicator.go\<close>: the call that opens the
  stream of a server, the goroutine that receives from the stream and fills the channel of
  records, and the loop that empties it, as a step relation. They run while \<open>Join\<close>, \<open>Leave\<close> and
  \<open>Close\<close> are called.
\<close>

section \<open>Opening the stream\<close>

text \<open>The stream is opened at offset 0; \<open>grpc\<close> is the option \<open>connect.WithGRPC\<close>.\<close>

definition replicate_open ::
  "('h, 'o, 'cl, api_request, 's, 'r) connect_client \<Rightarrow> 'h \<Rightarrow> 'o \<Rightarrow> bool \<Rightarrow> string \<Rightarrow> 's \<Rightarrow> 'r rpc \<times> 's" where
  "replicate_open cc http grpc tls addr =
     (let addr = (if tls then ''https://'' @ addr else ''http://'' @ addr);
          client = NewLogAPIClient cc http addr [grpc]
      in client_ConsumeStream cc client \<lparr>rq_record = None, rq_offset = 0\<rparr>)"

section \<open>The steps of a worker\<close>

text \<open>
  The goroutine that receives is waiting for a record, holds one that it sends to the channel, or
  has seen the end of the stream. \<open>wk_in\<close> is what the stream still delivers, \<open>wk_records\<close> is the
  channel of capacity 16, and \<open>wk_local\<close> the state of the local server.

  The stream is the list of the records that it delivers until it ends. The context of the call is
  never cancelled, and a server that has no more records waits for the next, so that a stream ends only
  when the connection or the server fails; a run up to that time is one on the records delivered so far.
\<close>

datatype receiver = Receiving | Sending "log_record option" | Ended

record 's worker =
  wk_in :: "log_record option list"
  wk_receiver :: receiver
  wk_records :: "log_record option list"
  wk_running :: bool
  wk_local :: 's

definition start_worker :: "log_record option list \<Rightarrow> 's \<Rightarrow> 's worker" where
  "start_worker stream s = \<lparr>wk_in = stream, wk_receiver = Receiving, wk_records = [], wk_running = True, wk_local = s\<rparr>"

text \<open>
  When several cases of the select are ready any of them may be taken. \<open>leave\<close> is the channel
  that \<open>Join\<close> made for the worker.
\<close>

inductive worker_step :: "'s CommitLog \<Rightarrow> replicator \<Rightarrow> nat \<Rightarrow> 's worker \<Rightarrow> 's worker \<Rightarrow> bool"
  for cl :: "'s CommitLog" and r :: replicator and leave :: nat where
  receive: "wk_receiver w = Receiving \<Longrightarrow> wk_in w = x # xs \<Longrightarrow>
      worker_step cl r leave w (w\<lparr>wk_in := xs, wk_receiver := Sending x\<rparr>)"
| stream_end: "wk_receiver w = Receiving \<Longrightarrow> wk_in w = [] \<Longrightarrow>
      worker_step cl r leave w (w\<lparr>wk_receiver := Ended\<rparr>)"
| send: "wk_receiver w = Sending x \<Longrightarrow> length (wk_records w) < 16 \<Longrightarrow>
      worker_step cl r leave w (w\<lparr>wk_records := wk_records w @ [x], wk_receiver := Receiving\<rparr>)"
| produced: "wk_running w \<Longrightarrow> wk_records w = x # xs \<Longrightarrow> Produce cl x (wk_local w) = (Inr off, t) \<Longrightarrow>
      worker_step cl r leave w (w\<lparr>wk_records := xs, wk_local := t\<rparr>)"
| produce_failed: "wk_running w \<Longrightarrow> wk_records w = x # xs \<Longrightarrow> Produce cl x (wk_local w) = (Inl f, t) \<Longrightarrow>
      worker_step cl r leave w (w\<lparr>wk_records := xs, wk_local := t, wk_running := False\<rparr>)"
| told_to_leave: "wk_running w \<Longrightarrow> leave \<in> rp_shut r \<Longrightarrow>
      worker_step cl r leave w (w\<lparr>wk_running := False\<rparr>)"
| closed: "wk_running w \<Longrightarrow> rp_close r = Some ch \<Longrightarrow> ch \<in> rp_shut r \<Longrightarrow>
      worker_step cl r leave w (w\<lparr>wk_running := False\<rparr>)"

inductive_simps worker_step_iff: "worker_step cl r leave w w'"

text \<open>A run: the worker makes \<open>n\<close> steps while the methods of the replicator are called in between.\<close>

inductive pull_run :: "'s CommitLog \<Rightarrow> nat \<Rightarrow> replicator \<Rightarrow> 's worker \<Rightarrow> nat \<Rightarrow> replicator \<Rightarrow> 's worker \<Rightarrow> bool"
  for cl :: "'s CommitLog" and leave :: nat and r0 :: replicator and w0 :: "'s worker" where
  start: "pull_run cl leave r0 w0 0 r0 w0"
| work: "pull_run cl leave r0 w0 n r w \<Longrightarrow> worker_step cl r leave w w' \<Longrightarrow> pull_run cl leave r0 w0 (Suc n) r w'"
| other: "pull_run cl leave r0 w0 n r w \<Longrightarrow> call c r = (res, r') \<Longrightarrow> pull_run cl leave r0 w0 n r' w"

section \<open>Every run ends\<close>

text \<open>What a worker still has to do: a record is received, sent and produced.\<close>

definition work_left :: "'s worker \<Rightarrow> nat" where
  "work_left w = 3 * length (wk_in w) + length (wk_records w) + (if wk_running w then 1 else 0) +
     (case wk_receiver w of Receiving \<Rightarrow> 1 | Sending _ \<Rightarrow> 3 | Ended \<Rightarrow> 0)"

lemma worker_step_decreases: "worker_step cl r leave w w' \<Longrightarrow> work_left w' < work_left w"
  by (cases rule: worker_step.cases) (auto simp: work_left_def split: receiver.splits)

lemma pull_run_bound: "pull_run cl leave r0 w0 n r w \<Longrightarrow> n + work_left w \<le> work_left w0"
proof (induction rule: pull_run.induct)
  case (work n r w w')
  then show ?case
    using worker_step_decreases [OF work(2)] by simp
qed auto

section \<open>What is in flight\<close>

definition in_flight :: "'s worker \<Rightarrow> log_record option list" where
  "in_flight w = wk_records w @ (case wk_receiver w of Sending x \<Rightarrow> [x] | _ \<Rightarrow> []) @ wk_in w"

context commit_log_api
begin

definition copied :: "log_record list \<Rightarrow> log_record list \<Rightarrow> 's worker \<Rightarrow> bool" where
  "copied xs rs w \<longleftrightarrow> (\<exists>k \<le> length rs. rep (extend xs (take k rs)) (wk_local w) \<and> in_flight w = map Some (drop k rs)) \<and>
     length (wk_records w) \<le> 16 \<and> (wk_receiver w = Ended \<longrightarrow> wk_in w = [])"

lemma copied_produced:
  assumes "fits_all xs rs" and "rep (extend xs (take k rs)) s" and "map Some (drop k rs) = x # zs" and "k \<le> length rs"
  shows "\<exists>off t. Produce cl x s = (Inr off, t) \<and> Suc k \<le> length rs \<and> rep (extend xs (take (Suc k) rs)) t \<and> zs = map Some (drop (Suc k) rs)"
proof -
  have k: "k < length rs" and x: "x = Some (rs ! k)" and zs: "zs = map Some (drop (Suc k) rs)"
    using assms(3,4) Cons_nth_drop_Suc [of k rs] by (cases "k < length rs"; force)+
  have "fits_all xs (take k rs @ rs ! k # drop (Suc k) rs)"
    using assms(1) k by (simp add: id_take_nth_drop [symmetric])
  then have "fits (extend xs (take k rs)) (rs ! k)"
    by (simp add: fits_all_append)
  from append_law [OF assms(2) this] show ?thesis
    using k x zs by (auto simp: Produce_def prog_simps take_Suc_conv_app_nth extend_append)
qed

lemma worker_step_copied:
  assumes "worker_step cl r leave w w'" and "fits_all xs rs" and "copied xs rs w"
  shows "copied xs rs w'"
proof -
  obtain k where k: "k \<le> length rs" "rep (extend xs (take k rs)) (wk_local w)" "in_flight w = map Some (drop k rs)"
      and len: "length (wk_records w) \<le> 16" "wk_receiver w = Ended \<longrightarrow> wk_in w = []"
    using assms(3) unfolding copied_def by blast
  have keep: "copied xs rs v" if "in_flight v = in_flight w" "wk_local v = wk_local w" "length (wk_records v) \<le> 16"
      "wk_receiver v = Ended \<longrightarrow> wk_in v = []" for v
    using k that unfolding copied_def by auto
  show ?thesis
    using assms(1)
  proof cases
    case (produced x ys off t)
    then have "map Some (drop k rs) = x # ys @ (case wk_receiver w of Sending x \<Rightarrow> [x] | _ \<Rightarrow> []) @ wk_in w"
      using k(3) by (simp add: in_flight_def)
    from copied_produced [OF assms(2) k(2) this k(1)] show ?thesis
      using produced len unfolding copied_def in_flight_def by fastforce
  next
    case (produce_failed x ys f t)
    then have "map Some (drop k rs) = x # ys @ (case wk_receiver w of Sending x \<Rightarrow> [x] | _ \<Rightarrow> []) @ wk_in w"
      using k(3) by (simp add: in_flight_def)
    from copied_produced [OF assms(2) k(2) this k(1)] show ?thesis
      using produce_failed by simp
  qed (use len in \<open>auto intro!: keep simp: in_flight_def\<close>)
qed

lemma pull_run_copied:
  assumes "pull_run cl leave r0 (start_worker (map Some rs) s) n r w" and "rep xs s" and "fits_all xs rs"
  shows "copied xs rs w"
  using assms
proof (induction rule: pull_run.induct)
  case start
  then show ?case
    by (auto simp: copied_def start_worker_def in_flight_def intro!: exI [of _ 0])
qed (blast intro: worker_step_copied)+

text \<open>A worker that can do nothing and has not been told to stop has copied the whole stream.\<close>

lemma stuck_copied:
  assumes "copied xs rs w" and "fits_all xs rs" and "wk_running w" and "\<And>w'. \<not> worker_step cl r leave w w'"
  shows "rep (extend xs rs) (wk_local w)" and "wk_receiver w = Ended"
proof -
  obtain k where k: "k \<le> length rs" "rep (extend xs (take k rs)) (wk_local w)" "in_flight w = map Some (drop k rs)"
    using assms(1) unfolding copied_def by blast
  have empty: "wk_records w = []"
  proof (rule ccontr)
    assume "wk_records w \<noteq> []"
    then obtain x ys where x: "wk_records w = x # ys"
      by (cases "wk_records w") auto
    then have "map Some (drop k rs) = x # ys @ (case wk_receiver w of Sending x \<Rightarrow> [x] | _ \<Rightarrow> []) @ wk_in w"
      using k(3) by (simp add: in_flight_def)
    from copied_produced [OF assms(2) k(2) this k(1)] obtain off t where "Produce cl x (wk_local w) = (Inr off, t)"
      by blast
    from worker_step.produced [OF assms(3) x this] assms(4) show False by blast
  qed
  show ended: "wk_receiver w = Ended"
  proof (cases "wk_receiver w")
    case Receiving
    then show ?thesis
      using assms(4) worker_step.receive worker_step.stream_end by (cases "wk_in w") blast+
  next
    case (Sending x)
    then show ?thesis
      using worker_step.send [OF Sending] assms(4) empty by auto
  qed
  show "rep (extend xs rs) (wk_local w)"
    using k ended empty assms(1) by (simp add: in_flight_def copied_def)
qed

end

section \<open>Channels stay closed\<close>

lemma init_shut: "replicator_init r = (res, r') \<Longrightarrow> rp_shut r' = rp_shut r"
  by (auto simp: replicator_init_def make_chan_def prog_simps split: if_splits)

lemma call_shut:
  assumes "call c r = (res, r')"
  shows "rp_shut r \<subseteq> rp_shut r'"
proof -
  obtain i r1 where i: "replicator_init r = (i, r1)"
    by (cases "replicator_init r")
  note s = init_shut [OF i]
  show ?thesis
  proof (cases c)
    case (CallJoin name addr)
    then show ?thesis
      using assms i s by (auto simp: replicator_Join_def make_chan_def prog_simps split: sum.splits if_splits option.splits)
  next
    case (CallLeave name)
    then show ?thesis
      using assms i s by (auto simp: replicator_Leave_def close_chan_def prog_simps split: sum.splits if_splits option.splits)
  next
    case CallClose
    then show ?thesis
      using assms i s by (auto simp: replicator_Close_def close_chan_def prog_simps split: sum.splits if_splits option.splits)
  qed
qed

lemma pull_run_shut: "pull_run cl leave r0 w0 n r w \<Longrightarrow> rp_shut r0 \<subseteq> rp_shut r"
proof (induction rule: pull_run.induct)
  case (other n r w c res r')
  then show ?case
    using call_shut [OF other(2)] by blast
qed auto

text \<open>A worker that has stopped does nothing any more.\<close>

lemma stopped_stays:
  assumes "pull_run cl leave r0 w0 n r w" and "\<not> wk_running w0"
  shows "\<not> wk_running w \<and> wk_local w = wk_local w0"
  using assms
proof (induction rule: pull_run.induct)
  case (work n r w w')
  then show ?case
    using work(2) by (auto elim: worker_step.cases)
qed auto

section \<open>A receiver that is left behind\<close>

definition filled :: "log_record option list \<Rightarrow> log_record option list \<Rightarrow> 's \<Rightarrow> 's worker" where
  "filled xs ys s = \<lparr>wk_in = ys, wk_receiver = Receiving, wk_records = xs, wk_running = True, wk_local = s\<rparr>"

lemma fill_channel:
  assumes "length xs \<le> 16"
  shows "\<exists>n. pull_run cl leave r (start_worker (xs @ ys) s) n r (filled xs ys s)"
  using assms
proof (induction xs arbitrary: ys rule: rev_induct)
  case Nil
  then show ?case
    using pull_run.start [of cl leave r "start_worker ys s"] by (auto simp: start_worker_def filled_def)
next
  case (snoc x xs)
  then obtain n where n: "pull_run cl leave r (start_worker (xs @ x # ys) s) n r (filled xs (x # ys) s)"
    by fastforce
  let ?w = "(filled xs (x # ys) s)\<lparr>wk_in := ys, wk_receiver := Sending x\<rparr>"
  have 1: "worker_step cl r leave (filled xs (x # ys) s) ?w"
    by (rule worker_step.receive) (simp_all add: filled_def)
  have "worker_step cl r leave ?w (?w\<lparr>wk_records := wk_records ?w @ [x], wk_receiver := Receiving\<rparr>)"
    using snoc.prems by (intro worker_step.send) (simp_all add: filled_def)
  moreover have "?w\<lparr>wk_records := wk_records ?w @ [x], wk_receiver := Receiving\<rparr> = filled (xs @ [x]) ys s"
    by (simp add: filled_def)
  ultimately have "pull_run cl leave r (start_worker (xs @ x # ys) s) (Suc (Suc n)) r (filled (xs @ [x]) ys s)"
    using pull_run.work [OF pull_run.work [OF n 1]] by metis
  then show ?case by auto
qed

lemma leaked_stays:
  assumes "pull_run cl leave r0 w0 n r w" and "\<not> wk_running w0" "wk_receiver w0 = Sending x" "length (wk_records w0) = 16"
  shows "n = 0 \<and> w = w0"
  using assms
proof (induction rule: pull_run.induct)
  case (work n r w w')
  then show ?case
    using work(2) by (auto elim: worker_step.cases)
qed auto

lemma leave_shuts:
  assumes "reach r" and "servers_of r name = Some leave"
  shows "\<exists>r'. replicator_Leave name r = (Inr (), r') \<and> leave \<in> rp_shut r' \<and> servers_of r' name = None"
proof -
  obtain r1 where r1: "replicator_init r = (Inr (), r1)" "replicator_ok r1" "rp_servers r1 = Some (servers_of r)"
    using init_ok [OF reach_ok [OF assms(1)]] by blast
  then have s: "servers_of r1 name = Some leave"
    using assms(2) by (simp add: servers_of_def)
  then have "leave \<notin> rp_shut r1"
    using r1(2) unfolding replicator_ok_def by (auto simp: ran_def)
  then show ?thesis
    using r1(1) s by (auto simp: replicator_Leave_def close_chan_def prog_simps servers_of_def)
qed

section \<open>Properties\<close>

fun log_fits_all :: "codec \<Rightarrow> seg_config \<Rightarrow> u64 \<Rightarrow> log_record list \<Rightarrow> log_record list \<Rightarrow> bool" where
  "log_fits_all cdc c b rs [] \<longleftrightarrow> True"
| "log_fits_all cdc c b rs (r # new) \<longleftrightarrow> log_fits cdc c b rs r \<and> log_fits_all cdc c b (rs @ [seg_item b rs r]) new"

lemma log_service_extend: "log_service.extend b rs new = log_extend b rs new"
  by (induction b rs new rule: log_extend.induct) simp_all

lemma log_service_fits_all: "log_service.fits_all cdc c b rs new = log_fits_all cdc c b rs new"
  by (induction cdc c b rs new rule: log_fits_all.induct) simp_all

text \<open>
  The stream is that of the remote server: the call reaches the handler of \<open>ConsumeStream\<close> there
  and asks for offset 0, over \<open>https\<close> exactly when the replicator uses TLS.
\<close>

lemma replicate_open_calls:
  assumes "connect_ok cn" and "client_ok cc" and "NewEnforcer model policy = Inr enf"
    and "setupServer cn emit detail NewEnforcer model policy svc = Inr serve" and "addr \<noteq> []" and "CHR ''/'' \<notin> set addr"
  shows "replicate_open cc (http_wire serve (Some ((name # cns) # verified))) grpc tls addr s =
    svc_ConsumeStream svc (Some name) \<lparr>rq_record = None, rq_offset = 0\<rparr> s"
proof -
  define scheme where "scheme = (if tls then ''https'' else ''http'')"
  have "host_ok scheme addr" and u: "(if tls then ''https://'' @ addr else ''http://'' @ addr) = base_url scheme addr 0"
    using assms(5,6) by (simp_all add: host_ok_def scheme_def base_url_def)
  from client_stream_calls(1) [where NewEnforcer = NewEnforcer, OF assms(1-4) this(1) refl]
  show ?thesis
    by (simp add: replicate_open_def Let_def u)
qed

text \<open>
  A server that leaves and joins again is copied from offset 0 again: the records that were copied
  before it left are in the local log twice.
\<close>

lemma rejoin_duplicates:
  assumes "log_rep cdc d c b xs s" and "log_fits_all cdc c b xs rs" and "log_fits_all cdc c b (log_extend b xs rs) rs"
    and "pull_run (log_api cdc) leave r0 (start_worker (map Some rs) s) n r w" and "wk_running w"
    and "\<And>v. \<not> worker_step (log_api cdc) r leave w v"
    and "pull_run (log_api cdc) leave' r1 (start_worker (map Some rs) (wk_local w)) m r2 w2" and "wk_running w2"
    and "\<And>v. \<not> worker_step (log_api cdc) r2 leave' w2 v"
  shows "log_rep cdc d c b (log_extend b (log_extend b xs rs) rs) (wk_local w2)"
proof -
  note f1 = assms(2) [folded log_service_fits_all] and f2 = assms(3) [folded log_service_fits_all log_service_extend]
  have "log_rep cdc d c b (log_service.extend b xs rs) (wk_local w)"
    by (rule log_service.stuck_copied(1) [OF log_service.pull_run_copied [OF assms(4,1) f1] f1 assms(5,6)])
  from log_service.stuck_copied(1) [OF log_service.pull_run_copied [OF assms(7) this f2] f2 assms(8,9)]
  show ?thesis
    by (simp add: log_service_extend)
qed

text \<open>
  C8: a worker copies the records of a stream. Whatever the interleaving of its two goroutines
  with each other and with the calls of \<open>Join\<close>, \<open>Leave\<close> and \<open>Close\<close>, the local log is at every
  time the old one followed by the first records of the stream, each once and in order, and what
  is not copied yet is in flight in order, at most sixteen of it in the channel. A stream of \<open>m\<close>
  records takes at most \<open>3 * m + 2\<close> steps, and when a worker that was not stopped has no step
  left, it has copied all of them.
\<close>

theorem replication_copies:
  assumes "log_rep cdc d c b xs s" and "log_fits_all cdc c b xs rs"
    and "pull_run (log_api cdc) leave r0 (start_worker (map Some rs) s) n r w"
  shows "n \<le> 3 * length rs + 2 \<and> length (wk_records w) \<le> 16 \<and>
    (\<exists>k \<le> length rs. log_rep cdc d c b (log_extend b xs (take k rs)) (wk_local w) \<and> in_flight w = map Some (drop k rs)) \<and>
    (wk_running w \<longrightarrow> (\<forall>w'. \<not> worker_step (log_api cdc) r leave w w') \<longrightarrow> log_rep cdc d c b (log_extend b xs rs) (wk_local w))"
proof -
  have fits: "log_service.fits_all cdc c b xs rs"
    using assms(2) by (simp add: log_service_fits_all)
  have cop: "log_service.copied cdc d c b xs rs w"
    by (rule log_service.pull_run_copied [OF assms(3,1) fits])
  have "n \<le> 3 * length rs + 2"
    using pull_run_bound [OF assms(3)] by (simp add: work_left_def start_worker_def)
  then show ?thesis
    using cop log_service.stuck_copied(1) [OF cop fits, of r leave]
    unfolding log_service.copied_def log_service_extend by blast
qed


theorem replication_copies_witness:
  "\<exists>s n w. pull_run (log_api demo_codec) 1 zero_replicator (start_worker [Some (demo_record 9)] s) n zero_replicator w \<and>
     wk_running w \<and> n \<le> 5 \<and>
     log_rep demo_codec ''log'' demo_config 0 (demo_records @ [demo_record 9\<lparr>r_offset := 3\<rparr>]) (wk_local w)"
proof -
  obtain l w where rep: "log_rep demo_codec ''log'' demo_config 0 demo_records (l, w)"
    using demo_log_three by blast
  have fits: "log_fits_all demo_codec demo_config 0 demo_records [demo_record 9]"
    using demo_dist_fits [of demo_records 9] by (simp add: demo_records_def dist_fits_def)
  obtain off t where p: "Produce (log_api demo_codec) (Some (demo_record 9)) (l, w) = (Inr off, t)"
    using log_service.append_law [OF rep, of "demo_record 9"] fits by (auto simp: Produce_def prog_simps)
  let ?w = "(filled [Some (demo_record 9)] [] (l, w))\<lparr>wk_records := [], wk_local := t\<rparr>"
  obtain n where n: "pull_run (log_api demo_codec) 1 zero_replicator (start_worker [Some (demo_record 9)] (l, w)) n
      zero_replicator (filled [Some (demo_record 9)] [] (l, w))"
    using fill_channel [of "[Some (demo_record 9)]" "log_api demo_codec" 1 zero_replicator "[]" "(l, w)"] by auto
  have 1: "worker_step (log_api demo_codec) zero_replicator 1 (filled [Some (demo_record 9)] [] (l, w)) ?w"
    using p by (intro worker_step.produced) (simp_all add: filled_def)
  have 2: "worker_step (log_api demo_codec) zero_replicator 1 ?w (?w\<lparr>wk_receiver := Ended\<rparr>)"
    by (rule worker_step.stream_end) (simp_all add: filled_def)
  have run: "pull_run (log_api demo_codec) 1 zero_replicator (start_worker (map Some [demo_record 9]) (l, w)) (Suc (Suc n))
      zero_replicator (?w\<lparr>wk_receiver := Ended\<rparr>)"
    using pull_run.work [OF pull_run.work [OF n 1] 2] by simp
  have "\<not> worker_step (log_api demo_codec) zero_replicator 1 (?w\<lparr>wk_receiver := Ended\<rparr>) w'" for w'
    by (simp add: worker_step_iff filled_def zero_replicator_def)
  with replication_copies [OF rep fits run] run show ?thesis
    by (intro exI [of _ "(l, w)"] exI) (auto simp: demo_records_def filled_def)
qed

text \<open>
  C16: \<open>Leave\<close> stops the worker of a server. It returns nil, removes the server and closes the
  channel of its worker for good: however the run goes on, the worker, if it is still running, can
  take the case of the closed channel, and it takes only as many steps as it has work left, so
  that it has stopped when it has no step left; once it has stopped it writes no record.
\<close>

theorem leave_stops_worker:
  assumes "reach r" and "servers_of r name = Some leave" and "replicator_Leave name r = (res, r')"
    and "pull_run cl leave r' w n r'' w''"
  shows "res = Inr () \<and> servers_of r' name = None \<and> n \<le> work_left w \<and>
    (wk_running w'' \<longrightarrow> worker_step cl r'' leave w'' (w''\<lparr>wk_running := False\<rparr>)) \<and>
    ((\<forall>v. \<not> worker_step cl r'' leave w'' v) \<longrightarrow> \<not> wk_running w'') \<and>
    (\<not> wk_running w \<longrightarrow> \<not> wk_running w'' \<and> wk_local w'' = wk_local w)"
proof -
  have r': "res = Inr ()" "servers_of r' name = None" "leave \<in> rp_shut r''"
    using leave_shuts [OF assms(1,2)] assms(3) pull_run_shut [OF assms(4)] by auto
  then have "worker_step cl r'' leave w'' (w''\<lparr>wk_running := False\<rparr>)" if "wk_running w''"
    using that by (intro worker_step.told_to_leave)
  then show ?thesis
    using r' pull_run_bound [OF assms(4)] stopped_stays [OF assms(4)] by auto
qed

lemma demo_joined:
  assumes "r = \<lparr>rp_servers = Some [''b'' \<mapsto> 1], rp_closed = False, rp_close = Some 0, rp_made = 2, rp_shut = {}, rp_workers = [(''b:1'', 1)]\<rparr>"
  shows "replicator_Join ''b'' ''b:1'' zero_replicator = (Inr (), r)" and "reach r" and "servers_of r ''b'' = Some 1"
proof -
  show j: "replicator_Join ''b'' ''b:1'' zero_replicator = (Inr (), r)"
    by (simp add: assms replicator_Join_def replicator_init_def make_chan_def zero_replicator_def prog_simps servers_of_def)
  show "reach r"
    using reach.step [OF reach.start, of "CallJoin ''b'' ''b:1''"] j by simp
  show "servers_of r ''b'' = Some 1"
    by (simp add: assms servers_of_def)
qed

theorem leave_stops_worker_witness:
  "\<exists>r r'. replicator_Join ''b'' ''b:1'' zero_replicator = (Inr (), r) \<and> replicator_Leave ''b'' r = (Inr (), r') \<and>
     (\<exists>w :: (log \<times> os) worker. wk_running w \<and> worker_step (log_api demo_codec) r' 1 w (w\<lparr>wk_running := False\<rparr>))"
proof -
  obtain r where r: "replicator_Join ''b'' ''b:1'' zero_replicator = (Inr (), r)" "reach r" "servers_of r ''b'' = Some 1"
    using demo_joined [OF refl] by blast
  obtain res r' where l: "replicator_Leave ''b'' r = (res, r')"
    by (cases "replicator_Leave ''b'' r")
  obtain w :: "(log \<times> os) worker" where w: "wk_running w"
    by (rule that [of "start_worker [] _"]) (simp add: start_worker_def)
  from leave_stops_worker [OF r(2,3) l pull_run.start, where cl = "log_api demo_codec" and w = w]
  have "res = Inr ()" "worker_step (log_api demo_codec) r' 1 w (w\<lparr>wk_running := False\<rparr>)"
    using w by blast+
  with r(1) l w show ?thesis by blast
qed

text \<open>
  C40: a worker that stops can leave its receiver behind. For every stream of more than sixteen
  records there is a run in which the worker stops while the goroutine that receives holds a record
  that the full channel has no room for; from then on that goroutine has no step, whatever else
  happens, and it never ends.
\<close>

theorem receiver_leaks:
  assumes "reach r" and "servers_of r name = Some leave" and "length xs = 16"
  shows "\<exists>n r' w. pull_run cl leave r (start_worker (xs @ y # ys) s) n r' w \<and> \<not> wk_running w \<and> wk_receiver w = Sending y \<and>
    (\<forall>m r'' w'. pull_run cl leave r' w m r'' w' \<longrightarrow> m = 0 \<and> w' = w)"
proof -
  obtain r' where r': "call (CallLeave name) r = (Inr (), r')" "leave \<in> rp_shut r'"
    using leave_shuts [OF assms(1,2)] by auto
  obtain n where n: "pull_run cl leave r (start_worker (xs @ y # ys) s) n r (filled xs (y # ys) s)"
    using fill_channel [of xs] assms(3) by fastforce
  let ?w = "(filled xs (y # ys) s)\<lparr>wk_in := ys, wk_receiver := Sending y\<rparr>"
  have 1: "worker_step cl r leave (filled xs (y # ys) s) ?w"
    by (rule worker_step.receive) (simp_all add: filled_def)
  have 2: "worker_step cl r' leave ?w (?w\<lparr>wk_running := False\<rparr>)"
    using r'(2) by (intro worker_step.told_to_leave) (simp_all add: filled_def)
  have "m = 0 \<and> w' = ?w\<lparr>wk_running := False\<rparr>" if "pull_run cl leave r' (?w\<lparr>wk_running := False\<rparr>) m r'' w'" for m r'' w'
    using leaked_stays [OF that] assms(3) by (simp add: filled_def)
  moreover have "wk_receiver (?w\<lparr>wk_running := False\<rparr>) = Sending y" "\<not> wk_running (?w\<lparr>wk_running := False\<rparr>)"
    by simp_all
  ultimately show ?thesis
    using pull_run.work [OF pull_run.other [OF pull_run.work [OF n 1] r'(1)] 2] by blast
qed

theorem receiver_leaks_witness:
  "\<exists>r. replicator_Join ''b'' ''b:1'' zero_replicator = (Inr (), r) \<and>
     (\<exists>(s :: log \<times> os) n r' w. pull_run (log_api demo_codec) 1 r (start_worker (map (\<lambda>_. None) [0..<16] @ [None]) s) n r' w \<and>
       \<not> wk_running w \<and> wk_receiver w = Sending None)"
proof -
  obtain r where r: "replicator_Join ''b'' ''b:1'' zero_replicator = (Inr (), r)" "reach r" "servers_of r ''b'' = Some 1"
    using demo_joined [OF refl] by blast
  have "length (map (\<lambda>_. None :: log_record option) [0..<16]) = 16"
    by (simp only: length_map length_upt)
  from receiver_leaks [OF r(2,3) this, where cl = "log_api demo_codec"] r(1) show ?thesis
    by blast
qed

end
