(* ===== verification/Transport.thy ===== *)
theory Transport
  imports Prelude
begin

text \<open>
  The HTTP clients and the TLS set-up of \<open>internal/http/client.go\<close>. The packages \<open>crypto/tls\<close> and
  \<open>net\<close> are given by what the code calls of them.
\<close>

section \<open>TLS configurations\<close>

text \<open>The fields of \<open>tls.Config\<close> that the set-up writes; a certificate pool is a list of certificates.\<close>

record ('kp, 'ct) tls_config =
  tc_Certificates :: "'kp list"
  tc_RootCAs :: "'ct list option"
  tc_ClientCAs :: "'ct list option"
  tc_RequireAndVerifyClientCert :: bool
  tc_ServerName :: string

definition zero_tls :: "('kp, 'ct) tls_config" where
  "zero_tls = \<lparr>tc_Certificates = [], tc_RootCAs = None, tc_ClientCAs = None, tc_RequireAndVerifyClientCert = False, tc_ServerName = ''''\<rparr>"

text \<open>
  \<open>load\<close> is \<open>tls.LoadX509KeyPair\<close>, \<open>read_file\<close> is \<open>os.ReadFile\<close>, and \<open>pem\<close> gives the
  certificates that \<open>AppendCertsFromPEM\<close> finds in the contents of a file.
\<close>

definition SetupClientTLSConfig ::
  "(string \<Rightarrow> string \<Rightarrow> goerr + 'kp) \<Rightarrow> (string \<Rightarrow> goerr + bytes) \<Rightarrow> (bytes \<Rightarrow> 'ct list) \<Rightarrow>
     string \<Rightarrow> string \<Rightarrow> string \<Rightarrow> string \<Rightarrow> goerr + ('kp, 'ct) tls_config" where
  "SetupClientTLSConfig load read_file pem crt key ca serverName =
     (let certs = (if crt \<noteq> '''' \<and> key \<noteq> '''' then map_sum id (\<lambda>c. zero_tls\<lparr>tc_Certificates := [c]\<rparr>) (load crt key) else Inr zero_tls) in
      (case certs of
         Inl e \<Rightarrow> Inl e
       | Inr cfg \<Rightarrow>
           if ca \<noteq> '''' then (case read_file ca of
               Inl e \<Rightarrow> Inl e
             | Inr cert \<Rightarrow>
                 (let pool = (case tc_RootCAs cfg of None \<Rightarrow> [] | Some p \<Rightarrow> p) in
                  Inr (cfg\<lparr>tc_RootCAs := Some (pool @ pem cert), tc_ServerName := serverName\<rparr>)))
           else Inr cfg))"

definition SetupServerTLSConfig ::
  "(string \<Rightarrow> string \<Rightarrow> goerr + 'kp) \<Rightarrow> (string \<Rightarrow> goerr + bytes) \<Rightarrow> (bytes \<Rightarrow> 'ct list) \<Rightarrow>
     string \<Rightarrow> string \<Rightarrow> string \<Rightarrow> string \<Rightarrow> (('kp, 'ct) tls_config option, unit) prog" where
  "SetupServerTLSConfig load read_file pem crt key ca serverName = (\<lambda>cfg. case cfg of
       None \<Rightarrow> (Inr (), None)
     | Some c \<Rightarrow>
         (case (if crt \<noteq> '''' \<and> key \<noteq> '''' then map_sum id (\<lambda>kp. c\<lparr>tc_Certificates := tc_Certificates c @ [kp]\<rparr>) (load crt key) else Inr c) of
            Inl e \<Rightarrow> (Inl (Error e), Some c)
          | Inr c1 \<Rightarrow>
              if ca \<noteq> '''' then (case read_file ca of
                  Inl e \<Rightarrow> (Inl (Error e), Some c1)
                | Inr cert \<Rightarrow>
                    (let pool = (case tc_ClientCAs c1 of None \<Rightarrow> [] | Some p \<Rightarrow> p) in
                     (Inr (), Some (c1\<lparr>tc_ClientCAs := Some (pool @ pem cert), tc_RequireAndVerifyClientCert := True,
                        tc_ServerName := serverName\<rparr>))))
              else (Inr (), Some c1)))"

section \<open>Clients\<close>

text \<open>
  The options of a client; an \<open>Option\<close> is a function that changes them. \<open>WithTLS\<close> logs the error
  of the set-up and goes on without a configuration.
\<close>

record 'cfg Options =
  op_tlsConfig :: "'cfg option"

type_synonym 'cfg Option = "'cfg Options \<Rightarrow> 'cfg Options"

definition WithTLSConfig :: "'cfg option \<Rightarrow> 'cfg Option" where
  "WithTLSConfig cfg = (\<lambda>ops. ops\<lparr>op_tlsConfig := cfg\<rparr>)"

definition WithTLS ::
  "(string \<Rightarrow> string \<Rightarrow> goerr + 'kp) \<Rightarrow> (string \<Rightarrow> goerr + bytes) \<Rightarrow> (bytes \<Rightarrow> 'ct list) \<Rightarrow>
     string \<Rightarrow> string \<Rightarrow> string \<Rightarrow> string \<Rightarrow> ('kp, 'ct) tls_config Option" where
  "WithTLS load read_file pem crt key ca serverName =
     WithTLSConfig (case SetupClientTLSConfig load read_file pem crt key ca serverName of Inl _ \<Rightarrow> None | Inr cfg \<Rightarrow> Some cfg)"

text \<open>
  A connection of a client: one of the network, nil if the dial failed, with or without TLS. A
  dial function gets the network, the address and the configuration that the transport chose.
\<close>

datatype ('c, 'cfg) client_conn = RawConn "'c option" | TLSConn "'c option" 'cfg

type_synonym ('c, 'cfg) dial_tls = "string \<Rightarrow> string \<Rightarrow> 'cfg option \<Rightarrow> ('c, 'cfg) client_conn \<times> goerr option"

record ('c, 'cfg) http_client =
  hc_AllowHTTP :: bool
  hc_DialTLS :: "('c, 'cfg) dial_tls"
  hc_TLSClientConfig :: "'cfg option"

text \<open>\<open>dial\<close> is \<open>net.Dial\<close> and \<open>DialContext\<close> of a zero \<open>net.Dialer\<close>: a connection or an error.\<close>

definition DefaultClient :: "(string \<Rightarrow> string \<Rightarrow> goerr + 'c) \<Rightarrow> ('c, 'cfg) http_client" where
  "DefaultClient dial =
     \<lparr>hc_AllowHTTP = True,
      hc_DialTLS = (\<lambda>network addr cfg. case dial network addr of
          Inl e \<Rightarrow> (RawConn None, Some e)
        | Inr c \<Rightarrow> (RawConn (Some c), None)),
      hc_TLSClientConfig = None\<rparr>"

definition NewH2Client :: "(string \<Rightarrow> string \<Rightarrow> goerr + 'c) \<Rightarrow> 'cfg Option list \<Rightarrow> ('c, 'cfg) http_client" where
  "NewH2Client dial opts =
     (let options = fold (\<lambda>f. f) opts \<lparr>op_tlsConfig = None\<rparr> in
      \<lparr>hc_AllowHTTP = True,
       hc_DialTLS = (\<lambda>network addr cfg.
         let (conn, err) = (case dial network addr of Inl e \<Rightarrow> (None, Some e) | Inr c \<Rightarrow> (Some c, None)) in
         (case cfg of
            Some cfg \<Rightarrow> (TLSConn conn cfg, err)
          | None \<Rightarrow> (RawConn conn, err))),
       hc_TLSClientConfig = op_tlsConfig options\<rparr>)"

section \<open>What the set-up gives\<close>

text \<open>
  When the set-up of the server's TLS succeeds with an authority, a client certificate is required
  and verified against the certificates of its file, and the key pair is the last certificate.
\<close>

lemma server_tls_verifies:
  assumes "SetupServerTLSConfig load read_file pem crt key ca serverName (Some c) = (Inr (), Some c')" and "ca \<noteq> ''''"
  shows "tc_RequireAndVerifyClientCert c' \<and>
    (\<exists>cert pool. read_file ca = Inr cert \<and> tc_ClientCAs c' = Some (pool @ pem cert)) \<and>
    (crt \<noteq> '''' \<and> key \<noteq> '''' \<longrightarrow> (\<exists>kp. load crt key = Inr kp \<and> last (tc_Certificates c') = kp))"
  using assms by (cases "load crt key") (auto simp: SetupServerTLSConfig_def Let_def split: if_splits sum.splits)

text \<open>The client's counterpart: the server is verified against the certificates of the file only, under the given name.\<close>

lemma client_tls_verifies:
  assumes "SetupClientTLSConfig load read_file pem crt key ca serverName = Inr c" and "ca \<noteq> ''''"
  shows "\<exists>cert. read_file ca = Inr cert \<and> tc_RootCAs c = Some (pem cert) \<and> tc_ServerName c = serverName"
  using assms by (cases "load crt key") (auto simp: SetupClientTLSConfig_def zero_tls_def Let_def split: if_splits sum.splits)

text \<open>
  A set-up that fails is dropped: the client is the one without options. An earlier configuration
  does not survive a later option.
\<close>

lemma failed_tls_is_dropped:
  assumes "SetupClientTLSConfig load read_file pem crt key ca serverName = Inl e"
  shows "NewH2Client dial (opts @ [WithTLS load read_file pem crt key ca serverName]) = NewH2Client dial []"
  using assms by (simp add: NewH2Client_def WithTLS_def WithTLSConfig_def Let_def)

lemma last_option_wins:
  "hc_TLSClientConfig (NewH2Client dial (opts @ [WithTLSConfig cfg])) = cfg"
  by (simp add: NewH2Client_def WithTLSConfig_def Let_def)

text \<open>The client of \<open>NewH2Client\<close> speaks TLS exactly when the transport passes a configuration, \<open>DefaultClient\<close> never.\<close>

lemma dial_uses_tls:
  assumes "dial network addr = Inr c"
  shows "hc_DialTLS (NewH2Client dial opts) network addr cfg =
      (case cfg of None \<Rightarrow> RawConn (Some c) | Some cf \<Rightarrow> TLSConn (Some c) cf, None)"
    and "hc_DialTLS (DefaultClient dial) network addr cfg = (RawConn (Some c), None)"
  using assms by (simp_all add: NewH2Client_def DefaultClient_def Let_def split: option.split)

end
