(* ===== verification/Telemetry.thy ===== *)
theory Telemetry
  imports Prelude
begin

text \<open>
  The set-up of telemetry, \<open>internal/otel/setup.go\<close>. The OpenTelemetry SDK is a parameter: its
  providers, made from a list of options, and their \<open>Shutdown\<close>.
\<close>

section \<open>Joined errors\<close>

text \<open>\<open>errors.Join\<close> drops the nil errors and returns nil if there is no other.\<close>

definition errors_Join :: "goerr option list \<Rightarrow> goerr option" where
  "errors_Join errs = (case List.map_filter (\<lambda>e. e) errs of [] \<Rightarrow> None | es \<Rightarrow> Some (Joined es))"

lemma errors_Join_None [simp]: "errors_Join errs = None \<longleftrightarrow> (\<forall>e \<in> set errs. e = None)"
proof -
  have "List.map_filter (\<lambda>e. e) errs = [] \<longleftrightarrow> (\<forall>e \<in> set errs. e = None)"
    by (induction errs) (auto simp: List.map_filter_simps split: option.splits)
  then show ?thesis
    by (cases "List.map_filter (\<lambda>e. e) errs") (auto simp: errors_Join_def)
qed

section \<open>Providers\<close>

text \<open>The options that the code passes; the durations are in nanoseconds.\<close>

datatype 'te trace_option = AlwaysSample | Batcher 'te int

datatype 'me metric_option = PeriodicReader 'me int

datatype propagator = TraceContext | Baggage

record ('te, 'me, 'tp, 'mp, 'w) otel_sdk =
  sdk_NewTracerProvider :: "'te trace_option list \<Rightarrow> 'tp"
  sdk_NewMeterProvider :: "'me metric_option list \<Rightarrow> 'mp"
  sdk_ShutdownTracer :: "'tp \<Rightarrow> 'w \<Rightarrow> goerr option \<times> 'w"
  sdk_ShutdownMeter :: "'mp \<Rightarrow> 'w \<Rightarrow> goerr option \<times> 'w"

definition newPropagator :: "propagator list" where
  "newPropagator = [TraceContext, Baggage]"

definition newTraceProvider :: "('te, 'me, 'tp, 'mp, 'w) otel_sdk \<Rightarrow> 'te option \<Rightarrow> goerr + 'tp" where
  "newTraceProvider sdk traceExporter =
     (let opts = [AlwaysSample] @ (case traceExporter of None \<Rightarrow> [] | Some e \<Rightarrow> [Batcher e 1000000000]) in
      Inr (sdk_NewTracerProvider sdk opts))"

definition newMeterProvider :: "('te, 'me, 'tp, 'mp, 'w) otel_sdk \<Rightarrow> 'me option \<Rightarrow> goerr + 'mp" where
  "newMeterProvider sdk metricExporter =
     (let opts = (case metricExporter of None \<Rightarrow> [] | Some e \<Rightarrow> [PeriodicReader e 1000000000]) in
      Inr (sdk_NewMeterProvider sdk opts))"

section \<open>Setting up and shutting down\<close>

text \<open>The globals of the \<open>otel\<close> package, the variable \<open>shutdownFuncs\<close>, and the state of the providers.\<close>

record ('tp, 'mp, 'w) otel =
  ot_propagator :: "propagator list option"
  ot_tracer :: "'tp option"
  ot_meter :: "'mp option"
  ot_shutdownFuncs :: "('w \<Rightarrow> goerr option \<times> 'w) list"
  ot_world :: 'w

primrec shutdown_loop :: "('w \<Rightarrow> goerr option \<times> 'w) list \<Rightarrow> goerr option \<Rightarrow> 'w \<Rightarrow> goerr option \<times> 'w" where
  "shutdown_loop [] err w = (err, w)"
| "shutdown_loop (fn # fns) err w = (case fn w of (e, w') \<Rightarrow> shutdown_loop fns (errors_Join [err, e]) w')"

definition otel_shutdown :: "('tp, 'mp, 'w) otel \<Rightarrow> goerr option \<times> ('tp, 'mp, 'w) otel" where
  "otel_shutdown s = (case shutdown_loop (ot_shutdownFuncs s) None (ot_world s) of
     (err, w) \<Rightarrow> (err, s\<lparr>ot_shutdownFuncs := [], ot_world := w\<rparr>))"

definition handleErr :: "goerr \<Rightarrow> ('tp, 'mp, 'w) otel \<Rightarrow> goerr option \<times> ('tp, 'mp, 'w) otel" where
  "handleErr inErr s = (case otel_shutdown s of (e, t) \<Rightarrow> (errors_Join [Some inErr, e], t))"

text \<open>The named results: the two providers, nil when they were not made, the propagator and the error.\<close>

definition SetupOTelSDK ::
  "('te, 'me, 'tp, 'mp, 'w) otel_sdk \<Rightarrow> 'me option \<Rightarrow> 'te option \<Rightarrow> ('tp, 'mp, 'w) otel \<Rightarrow>
     ('tp option \<times> 'mp option \<times> propagator list \<times> goerr option) \<times> ('tp, 'mp, 'w) otel" where
  "SetupOTelSDK sdk metricExporter traceExporter s =
     (let p = newPropagator; s = s\<lparr>ot_shutdownFuncs := [], ot_propagator := Some p\<rparr> in
      (case newTraceProvider sdk traceExporter of
         Inl e \<Rightarrow> (case handleErr e s of (err, t) \<Rightarrow> ((None, None, p, err), t))
       | Inr tp \<Rightarrow>
           (let s = s\<lparr>ot_shutdownFuncs := ot_shutdownFuncs s @ [sdk_ShutdownTracer sdk tp], ot_tracer := Some tp\<rparr> in
            (case newMeterProvider sdk metricExporter of
               Inl e \<Rightarrow> (case handleErr e s of (err, t) \<Rightarrow> ((Some tp, None, p, err), t))
             | Inr mp \<Rightarrow>
                 (let s = s\<lparr>ot_shutdownFuncs := ot_shutdownFuncs s @ [sdk_ShutdownMeter sdk mp], ot_meter := Some mp\<rparr> in
                  ((Some tp, Some mp, p, None), s))))))"

section \<open>Properties\<close>

lemma shutdown_again: "otel_shutdown s = (e, t) \<Longrightarrow> otel_shutdown t = (None, t)"
  by (auto simp: otel_shutdown_def split: prod.splits)

lemma SetupOTelSDK_ok:
  "\<exists>tp mp t. SetupOTelSDK sdk me te s = ((Some tp, Some mp, newPropagator, None), t) \<and>
     ot_propagator t = Some newPropagator \<and> ot_tracer t = Some tp \<and> ot_meter t = Some mp \<and>
     ot_shutdownFuncs t = [sdk_ShutdownTracer sdk tp, sdk_ShutdownMeter sdk mp] \<and> ot_world t = ot_world s"
  by (simp add: SetupOTelSDK_def newTraceProvider_def newMeterProvider_def Let_def)

text \<open>
  Telemetry is set up completely and shut down once. The set-up returns no error and registers
  both providers and the propagator. The function it returns shuts down the tracer and then the
  meter, each exactly once, also when the first of them fails, and returns nil exactly when both
  succeeded; a second call does nothing and returns nil.
\<close>

theorem telemetry_shutdown:
  assumes "SetupOTelSDK sdk metricExporter traceExporter s = ((tp, mp, p, err), s1)" and "otel_shutdown s1 = (e, s2)"
  shows "err = None \<and> ot_propagator s1 = Some [TraceContext, Baggage] \<and> ot_tracer s1 = tp \<and> ot_meter s1 = mp \<and>
    (\<exists>t m e1 w1 e2. tp = Some t \<and> mp = Some m \<and> sdk_ShutdownTracer sdk t (ot_world s) = (e1, w1) \<and>
       sdk_ShutdownMeter sdk m w1 = (e2, ot_world s2) \<and> (e = None \<longleftrightarrow> e1 = None \<and> e2 = None)) \<and>
    otel_shutdown s2 = (None, s2)"
proof -
  obtain t m where s1: "err = None" "tp = Some t" "mp = Some m" "ot_propagator s1 = Some newPropagator"
      "ot_tracer s1 = Some t" "ot_meter s1 = Some m" "ot_world s1 = ot_world s"
      and fns: "ot_shutdownFuncs s1 = [sdk_ShutdownTracer sdk t, sdk_ShutdownMeter sdk m]"
    using SetupOTelSDK_ok [of sdk metricExporter traceExporter s] assms(1) by auto
  then show ?thesis
    using assms(2) shutdown_again [OF assms(2)]
    by (auto simp: otel_shutdown_def newPropagator_def split: prod.splits)
qed

definition demo_sdk :: "(unit, unit, nat, nat, string list) otel_sdk" where
  "demo_sdk = \<lparr>sdk_NewTracerProvider = length, sdk_NewMeterProvider = length,
     sdk_ShutdownTracer = (\<lambda>_ w. (Some EIO, w @ [''tracer''])), sdk_ShutdownMeter = (\<lambda>_ w. (None, w @ [''meter'']))\<rparr>"

theorem telemetry_shutdown_witness:
  "\<exists>r s1 s2. SetupOTelSDK demo_sdk None (Some ())
       \<lparr>ot_propagator = None, ot_tracer = None, ot_meter = None, ot_shutdownFuncs = [], ot_world = []\<rparr> = (r, s1) \<and>
     ot_tracer s1 = Some 2 \<and> otel_shutdown s1 = (Some (Joined [Joined [EIO]]), s2) \<and>
     ot_world s2 = [''tracer'', ''meter''] \<and> otel_shutdown s2 = (None, s2)"
proof -
  let ?s = "\<lparr>ot_propagator = None, ot_tracer = None, ot_meter = None, ot_shutdownFuncs = [], ot_world = []\<rparr>
      :: (nat, nat, string list) otel"
  obtain tp mp p err s1 where s1: "SetupOTelSDK demo_sdk None (Some ()) ?s = ((tp, mp, p, err), s1)"
    by (metis surj_pair)
  obtain e s2 where s2: "otel_shutdown s1 = (e, s2)"
    by (cases "otel_shutdown s1")
  have "ot_tracer s1 = Some 2" "e = Some (Joined [Joined [EIO]])"
    using s1 s2 by (auto simp: SetupOTelSDK_def newTraceProvider_def newMeterProvider_def Let_def demo_sdk_def
        otel_shutdown_def errors_Join_def map_filter_def)
  moreover have "ot_world s2 = [''tracer'', ''meter'']" "otel_shutdown s2 = (None, s2)"
    using telemetry_shutdown [OF s1 s2] by (auto simp: demo_sdk_def)
  ultimately show ?thesis
    using s1 s2 by blast
qed

end
