(* ===== verification/Command.thy ===== *)
theory Command
  imports Client Transport Telemetry
begin

text \<open>
  The server command, \<open>cmd/server/main.go\<close>: its flags, and the action that sets up the service,
  serves until it is interrupted, and releases what it acquired.
\<close>

section \<open>Flags\<close>

record main_config =
  mc_listenAddress :: string
  mc_crt :: string
  mc_key :: string
  mc_ca :: string
  mc_serverName :: string
  mc_aclModelFile :: string
  mc_aclPolicyFile :: string

text \<open>\<open>given\<close> is what \<open>cli\<close> finds for a flag or its environment variable; a flag without a value is its default.\<close>

definition cli_value :: "(string \<Rightarrow> string \<Rightarrow> string option) \<Rightarrow> string \<Rightarrow> string \<Rightarrow> string \<Rightarrow> string" where
  "cli_value given name env dflt = (case given name env of None \<Rightarrow> dflt | Some v \<Rightarrow> v)"

definition main_flags :: "(string \<Rightarrow> string \<Rightarrow> string option) \<Rightarrow> main_config" where
  "main_flags given =
     \<lparr>mc_listenAddress = cli_value given ''listen-address'' ''LISTEN_ADDRESS'' '':8080'',
      mc_crt = cli_value given ''crt'' ''CERT'' '''',
      mc_key = cli_value given ''key'' ''KEY'' '''',
      mc_ca = cli_value given ''ca'' ''CA'' '''',
      mc_serverName = cli_value given ''server-name'' ''SERVER_NAME'' '''',
      mc_aclModelFile = cli_value given ''acl-model-file'' ''ACL_MODEL_FILE'' '''',
      mc_aclPolicyFile = cli_value given ''acl-policy-file'' ''ACL_POLICY_FILE'' ''''\<rparr>"

section \<open>The parts of the service\<close>

text \<open>A \<open>CommitLog\<close> that is nil, as in \<open>&server.Config{}\<close>: calling a method of it panics.\<close>

definition nil_CommitLog :: "'s CommitLog" where
  "nil_CommitLog = \<lparr>cl_Append = (\<lambda>_. fail (Panic NilDereference)), cl_Read = (\<lambda>_. fail (Panic NilDereference))\<rparr>"

text \<open>The packages that the action calls.\<close>

record ('m, 's, 'r, 'te, 'me, 'tp, 'mp, 'w, 'kp, 'ct, 'ln) main_env =
  en_connect :: "('m, 's, 'r) connect"
  en_emit :: "string \<Rightarrow> code option \<Rightarrow> 's \<Rightarrow> 's"
  en_NewErrorDetail :: "string \<Rightarrow> goerr + string"
  en_NewEnforcer :: "string \<Rightarrow> string \<Rightarrow> goerr + enforcer"
  en_sdk :: "('te, 'me, 'tp, 'mp, 'w) otel_sdk"
  en_NewInterceptor :: "'tp option \<Rightarrow> 'mp option \<Rightarrow> propagator list \<Rightarrow> goerr + ('m, 's, 'r) interceptor"
  en_load :: "string \<Rightarrow> string \<Rightarrow> goerr + 'kp"
  en_read_file :: "string \<Rightarrow> goerr + bytes"
  en_pem :: "bytes \<Rightarrow> 'ct list"
  en_Listen :: "string \<Rightarrow> ('kp, 'ct) tls_config option \<Rightarrow> goerr + 'ln"
  en_service :: "'s CommitLog \<Rightarrow> ('m, 's, 'r) LogAPIHandler"

definition main_acl :: "('m, 's, 'r, 'te, 'me, 'tp, 'mp, 'w, 'kp, 'ct, 'ln) main_env \<Rightarrow> main_config \<Rightarrow> goerr + ('m, 's, 'r) interceptor list" where
  "main_acl env cfg =
     (if mc_aclModelFile cfg \<noteq> '''' \<and> mc_aclPolicyFile cfg \<noteq> '''' then
        (case auth_New (en_NewEnforcer env) (mc_aclModelFile cfg) (mc_aclPolicyFile cfg) of
           Inl e \<Rightarrow> Inl e
         | Inr auth \<Rightarrow> Inr [auth_Interceptor auth])
      else Inr [])"

definition main_handler :: "('m, 's, 'r, 'te, 'me, 'tp, 'mp, 'w, 'kp, 'ct, 'ln) main_env \<Rightarrow> ('m, 's, 'r) interceptor list \<Rightarrow> ('m, 's, 'r) http_handler" where
  "main_handler env interceptors =
     AuthMiddleware (ServeMux (NewLogAPIHandler (en_connect env) (en_NewErrorDetail env) (en_service env nil_CommitLog) interceptors))"

definition main_tls :: "('m, 's, 'r, 'te, 'me, 'tp, 'mp, 'w, 'kp, 'ct, 'ln) main_env \<Rightarrow> main_config \<Rightarrow> ('kp, 'ct) tls_config option" where
  "main_tls env cfg =
     (case SetupServerTLSConfig (en_load env) (en_read_file env) (en_pem env)
         (mc_crt cfg) (mc_key cfg) (mc_ca cfg) (mc_serverName cfg) (Some zero_tls) of
        (Inl _, _) \<Rightarrow> None
      | (Inr _, tlsConfig) \<Rightarrow> tlsConfig)"

section \<open>The action\<close>

text \<open>
  The state: telemetry, whether the context is done, which an interrupt makes it, and the trace of
  what the action started and released; \<open>ServerShutdown\<close> and \<open>OtelShutdown\<close> have whether the context
  that they get is done. The action ends with what its select receives first; without a result it is still serving.
\<close>

datatype ('ln, 'h) main_event = Serving 'ln 'h | ServerShutdown bool | ListenerClose 'ln | OtelShutdown bool | StopSignals

record ('tp, 'mp, 'w, 'ln, 'h) main_state =
  ms_otel :: "('tp, 'mp, 'w) otel"
  ms_ctxDone :: bool
  ms_trace :: "('ln, 'h) main_event list"

datatype main_input = ServeReturned goerr | Interrupted

definition trace_event :: "('ln, 'h) main_event \<Rightarrow> ('tp, 'mp, 'w, 'ln, 'h) main_state \<Rightarrow> ('tp, 'mp, 'w, 'ln, 'h) main_state" where
  "trace_event ev s = s\<lparr>ms_trace := ms_trace s @ [ev]\<rparr>"

text \<open>\<open>defer\<close>: the clean-up runs when the rest has returned, however it did.\<close>

definition deferred :: "('s \<Rightarrow> 's) \<Rightarrow> ('s, 'a option) prog \<Rightarrow> ('s, 'a option) prog" where
  "deferred cleanup m = (\<lambda>s. case m s of
       (Inr None, t) \<Rightarrow> (Inr None, t)
     | (r, t) \<Rightarrow> (r, cleanup t))"

definition main_otel ::
  "('te, 'me, 'tp, 'mp, 'w) otel_sdk \<Rightarrow> (('tp, 'mp, 'w, 'ln, 'h) main_state, 'tp option \<times> 'mp option \<times> propagator list) prog" where
  "main_otel sdk = (\<lambda>s. case SetupOTelSDK sdk None None (ms_otel s) of
     ((tp, mp, p, err), ot) \<Rightarrow>
       (case err of None \<Rightarrow> Inr (tp, mp, p) | Some e \<Rightarrow> Inl (Error e), s\<lparr>ms_otel := ot\<rparr>))"

definition main_select :: "main_input list \<Rightarrow> (('tp, 'mp, 'w, 'ln, 'h) main_state, unit option) prog" where
  "main_select inputs = (case inputs of
       [] \<Rightarrow> ret None
     | ServeReturned err # _ \<Rightarrow> fail (Error err)
     | Interrupted # _ \<Rightarrow> andthen (upd_st (\<lambda>s. trace_event StopSignals (s\<lparr>ms_ctxDone := True\<rparr>))) (ret (Some ())))"

definition main_Action ::
  "('m, 's, 'r, 'te, 'me, 'tp, 'mp, 'w, 'kp, 'ct, 'ln) main_env \<Rightarrow> main_config \<Rightarrow> main_input list \<Rightarrow>
     (('tp, 'mp, 'w, 'ln, ('m, 's, 'r) http_handler) main_state, unit option) prog" where
  "main_Action env cfg inputs = deferred (trace_event StopSignals)
     (case main_acl env cfg of
        Inl e \<Rightarrow> fail (Error e)
      | Inr acl \<Rightarrow> bnd (main_otel (en_sdk env)) (\<lambda>(tp, mp, p).
          deferred (\<lambda>s. trace_event (OtelShutdown (ms_ctxDone s)) (s\<lparr>ms_otel := snd (otel_shutdown (ms_otel s))\<rparr>))
            (case en_NewInterceptor env tp mp p of
               Inl e \<Rightarrow> fail (Error e)
             | Inr otel \<Rightarrow>
                 (let interceptors = [LoggingInterceptor (en_emit env) (en_NewErrorDetail env)] @ acl @ [otel];
                      handler = main_handler env interceptors
                  in (case en_Listen env '':0'' (main_tls env cfg) of
                        Inl e \<Rightarrow> fail (Error e)
                      | Inr l \<Rightarrow> deferred (\<lambda>s. trace_event (ListenerClose l) (trace_event (ServerShutdown (ms_ctxDone s)) s))
                          (andthen (upd_st (trace_event (Serving l handler))) (main_select inputs)))))))"

text \<open>\<open>main\<close>: an error of the application ends the process with \<open>log.Fatal\<close>, whose status is 1.\<close>

definition main_status :: "unit option res \<Rightarrow> nat" where
  "main_status r = (case r of Inl _ \<Rightarrow> 1 | Inr _ \<Rightarrow> 0)"

section \<open>Properties\<close>

lemma deferred_run [prog_simps]:
  "deferred cleanup m s = (case m s of (Inr None, t) \<Rightarrow> (Inr None, t) | (r, t) \<Rightarrow> (r, cleanup t))"
  by (simp add: deferred_def)

lemma main_otel_run:
  "\<exists>tp mp ot. main_otel sdk s = (Inr (Some tp, Some mp, newPropagator), s\<lparr>ms_otel := ot\<rparr>)"
  using SetupOTelSDK_ok [of sdk None None "ms_otel s"] by (auto simp: main_otel_def)

lemma otel_shutdown_funcs: "ot_shutdownFuncs (snd (otel_shutdown ot)) = []"
  by (simp add: otel_shutdown_def split: prod.split)

lemmas main_simps = main_Action_def main_select_def trace_event_def prog_simps Let_def

text \<open>
  C38: the command releases what it acquires, in the reverse order. When the action returns, then
  either the policy could not be read, and only the signals were released; or telemetry was set up
  and what follows failed, and telemetry was shut down before the signals were released; or it
  served on one listener, which it got for \<open>:0\<close> whatever address its flag has, returned the error of
  the server or nil after an interrupt, and then shut the server down, closed that listener, shut
  telemetry down and stopped the signals, in this order. After an interrupt the server and
  telemetry are shut down with a context that is already done, so that no open connection is waited
  for. In every case no clean-up function of telemetry is left.
\<close>

theorem main_releases:
  assumes "main_Action env cfg inputs s = (r, t)" and "r \<noteq> Inr None" and "ms_trace s = []" and "\<not> ms_ctxDone s" and "ot_shutdownFuncs (ms_otel s) = []"
  shows "ot_shutdownFuncs (ms_otel t) = [] \<and>
    ((\<exists>e. main_acl env cfg = Inl e \<and> r = Inl (Error e) \<and> ms_trace t = [StopSignals]) \<or>
     (\<exists>e acl. main_acl env cfg = Inr acl \<and> r = Inl (Error e) \<and> ms_trace t = [OtelShutdown False, StopSignals]) \<or>
     (\<exists>l h. en_Listen env '':0'' (main_tls env cfg) = Inr l \<and>
        ((\<exists>e ins. inputs = ServeReturned e # ins \<and> r = Inl (Error e) \<and>
            ms_trace t = [Serving l h, ServerShutdown False, ListenerClose l, OtelShutdown False, StopSignals]) \<or>
         (\<exists>ins. inputs = Interrupted # ins \<and> r = Inr (Some ()) \<and>
            ms_trace t = [Serving l h, StopSignals, ServerShutdown True, ListenerClose l, OtelShutdown True, StopSignals]))))"
proof (cases "main_acl env cfg")
  case (Inl e)
  then show ?thesis
    using assms by (auto simp: main_simps)
next
  case acl: (Inr acl)
  obtain tp mp ot where ot: "main_otel (en_sdk env) s = (Inr (Some tp, Some mp, newPropagator), s\<lparr>ms_otel := ot\<rparr>)"
    using main_otel_run [of "en_sdk env" s] by auto
  note run = assms(1) [unfolded main_Action_def acl]
  show ?thesis
  proof (cases "en_NewInterceptor env (Some tp) (Some mp) newPropagator")
    case (Inl e)
    then show ?thesis
      using run assms(2-5) ot acl by (auto simp: main_simps otel_shutdown_funcs)
  next
    case otel: (Inr otel)
    show ?thesis
    proof (cases "en_Listen env '':0'' (main_tls env cfg)")
      case (Inl e)
      then show ?thesis
        using run assms(2-5) ot otel acl by (auto simp: main_simps otel_shutdown_funcs)
    next
      case (Inr l)
      then show ?thesis
        using run assms(2-5) ot otel
        by (cases inputs; cases "hd inputs") (auto simp: main_simps otel_shutdown_funcs)
    qed
  qed
qed

definition demo_env :: "(unit, nat, nat, unit, unit, nat, nat, string list, unit, unit, nat) main_env" where
  "demo_env = \<lparr>en_connect = plain_connect, en_emit = (\<lambda>_ _ s. s), en_NewErrorDetail = Inr, en_NewEnforcer = (\<lambda>_ _. Inr acl_policy),
     en_sdk = demo_sdk, en_NewInterceptor = (\<lambda>_ _ _. Inr (\<lambda>_ next. next)), en_load = (\<lambda>_ _. Inr ()), en_read_file = (\<lambda>_. Inr []),
     en_pem = (\<lambda>_. []), en_Listen = (\<lambda>_ _. Inr 7), en_service = (\<lambda>_. counting_service)\<rparr>"

theorem main_releases_witness:
  "\<exists>r t h. main_Action demo_env (main_flags (\<lambda>_ _. None)) [Interrupted]
       \<lparr>ms_otel = \<lparr>ot_propagator = None, ot_tracer = None, ot_meter = None, ot_shutdownFuncs = [], ot_world = []\<rparr>, ms_ctxDone = False, ms_trace = []\<rparr> = (r, t) \<and>
     ms_trace t = [Serving 7 h, StopSignals, ServerShutdown True, ListenerClose 7, OtelShutdown True, StopSignals] \<and> ot_shutdownFuncs (ms_otel t) = []"
proof -
  let ?s = "\<lparr>ms_otel = \<lparr>ot_propagator = None, ot_tracer = None, ot_meter = None, ot_shutdownFuncs = [], ot_world = []\<rparr>, ms_ctxDone = False, ms_trace = []\<rparr>
    :: (nat, nat, string list, nat, (unit, nat, nat) http_handler) main_state"
  obtain r t where run: "main_Action demo_env (main_flags (\<lambda>_ _. None)) [Interrupted] ?s = (r, t)"
    by (metis surj_pair)
  have "r = Inr (Some ())"
    using run main_otel_run [of demo_sdk ?s]
    by (auto simp: main_simps demo_env_def main_acl_def main_flags_def cli_value_def)
  then show ?thesis
    using main_releases [OF run] run by (auto simp: demo_env_def)
qed

text \<open>
  The service of the command has no log: every authorised \<open>Produce\<close> panics, here without a policy.
\<close>

lemma main_without_log:
  assumes "connect_ok (en_connect env)" and "svc_Produce (en_service env nil_CommitLog) = unary (\<lambda>m. Produce nil_CommitLog (record_of m))"
    and "authenticate r = Inr name" and "hq_path r = LogAPIProduceProcedure"
  shows "main_handler env [LoggingInterceptor (en_emit env) (en_NewErrorDetail env), (\<lambda>_ next. next)] ctx r s =
    (Served (Inl (RpcPanic NilDereference)), s)"
proof -
  have "prefix ''/log.v1.LogAPI/'' (hq_path r)"
    by (simp add: assms(4) procedure_defs)
  then show ?thesis
    using assms(2-4) unfolding main_handler_def
    by (simp add: AuthMiddleware_def ServeMux_def NewLogAPIHandler_def gen_NewLogAPIHandler_def connect_okD [OF assms(1)] Let_def
        LoggingInterceptor_def NewErrorInterceptor_def wrap_result_def unary_def Produce_def nil_CommitLog_def prog_simps)
qed

end
