(* ===== verification/Spec2Isabelle.thy ===== *)
theory Spec2Isabelle
  imports SnapshotLoss Pebble Lifecycle Replication Command
begin

text \<open>
  Verification of the distributed log of this repository: a commit log on disk, its replication
  with \<open>raft\<close>, the service in front of it, and the agent and the command that put them together.

  \<^bold>\<open>The program.\<close> A record is appended to a \<^emph>\<open>log\<close> (\<open>internal/log\<close>), which is a list of segments; a
  segment is a store file of length-prefixed records and a memory-mapped index file. A \<^emph>\<open>node\<close>
  (\<open>internal/log/distributed\<close>) has two such logs: one that the state machine of \<open>raft\<close> writes to, and
  one that is the log store of \<open>raft\<close> itself; the stable store of \<open>raft\<close> is on \<open>pebble\<close>
  (\<open>internal/raftpebble\<close>). The \<^emph>\<open>service\<close> (\<open>internal/server\<close>, \<open>internal/auth\<close>, \<open>internal/http\<close>,
  \<open>gen/log/v1\<close>) offers the log of a node over HTTP, \<^emph>\<open>discovery\<close> (\<open>internal/discovery\<close>) tells the node
  which servers join and leave, an older \<^emph>\<open>replicator\<close> (\<open>internal/log/replicator\<close>) pulls records from
  other servers, and the \<^emph>\<open>agent\<close> (\<open>internal/agent\<close>) and the \<^emph>\<open>command\<close> (\<open>cmd/server\<close>) start all of it.

  \<^bold>\<open>Methods.\<close> A method is a function \<open>'s \<Rightarrow> 'a res \<times> 's\<close> of the theory \<open>Prelude\<close>: it returns a value,
  an error or a panic, and the state keeps what was done before a failure. Words are 64 bits wide
  and wrap around as in Go. A loop that waits for events is a function of the list of events, whose
  result says whether it is still running; goroutines that run concurrently are \<open>inductive\<close> step
  relations. A package outside the repository is a parameter, and what the code relies on of it is a
  named hypothesis (\<open>codec_ok\<close>, \<open>raft_commits\<close>, \<open>raft_members\<close>, \<open>raft_leads\<close>, \<open>raft_up\<close>, \<open>pebble_ok\<close>,
  \<open>msgpack_ok\<close>, \<open>connect_ok\<close>, \<open>client_ok\<close>, \<open>cmux_ok\<close>, \<open>rand_ok\<close>, \<open>agent_up\<close>, \<open>pkgs_calm\<close>), with an instance in the witnesses.

  \<^bold>\<open>The theories.\<close>
  \<^item> \<open>Prelude\<close>, \<open>Encoding\<close>, \<open>FileNames\<close>, \<open>Paths\<close>, \<open>Files\<close>: errors, the monad and its rules, big-endian
    numbers, the names of files and directories, and the disk with its faults.
  \<^item> \<open>RecordLog\<close>, \<open>Refinement\<close>, \<open>RaftStore\<close>: the interfaces. \<open>record_log\<close> is what the layers of the log
    promise each other, \<open>refinement\<close> is a simulation of a specification, \<open>raft_store\<close> is the contract of
    a log store of \<open>raft\<close>.
  \<^item> \<open>Store\<close>, \<open>Index\<close>, \<open>Segment\<close>, \<open>CommitLog\<close>, \<open>LogRecovery\<close>, \<open>LogTruncate\<close>, \<open>LogSpec\<close>: \<open>store.go\<close>,
    \<open>index.go\<close>, \<open>segment.go\<close> and \<open>log.go\<close>. Each layer interprets \<open>record_log\<close>, and \<open>LogSpec\<close> shows that
    the log refines a list of records, with restarts, and what \<open>Truncate\<close> and \<open>Reset\<close> do. \<open>Index\<close> and
    \<open>CommitLog\<close> also show what a crash and an index limit that is no multiple of twelve do to the index.
  \<^item> \<open>LogStore\<close>, \<open>Fsm\<close>, \<open>Snapshot\<close>, \<open>SnapshotLoss\<close>, \<open>TwoLogs\<close>, \<open>Distributed\<close>, \<open>Node\<close>: \<open>store.go\<close>,
    \<open>fsm.go\<close>, \<open>snapshot.go\<close> and \<open>distributed.go\<close>. The log store keeps the contract of \<open>raft_store\<close> up to
    two fields of an entry, replicas agree, an append through \<open>raft\<close> is an append to the log, \<open>Restore\<close>
    is a reset followed by the appends of the records of the snapshot, snapshots and
    restarts lose or duplicate records, and the two logs of a node do not disturb each other. \<open>setupRaft\<close>
    opens the log store and the stable store of the repository; \<open>NewRaft\<close>, \<open>HasExistingState\<close> and
    \<open>BootstrapCluster\<close> may call the methods of both logs, so that they work on the state of the node.
  \<^item> \<open>StreamLayer\<close>: \<open>stream_layer.go\<close>, the connections of \<open>raft\<close>.
  \<^item> \<open>KeyOrder\<close>, \<open>PebbleConfig\<close>, \<open>Pebble\<close>: the stable store and its options.
  \<^item> \<open>Server\<close>, \<open>Service\<close>, \<open>Client\<close>, \<open>Transport\<close>: the handlers and streams on the interface
    \<open>commit_log_api\<close>, which both logs interpret; authentication, interceptors and dispatch; the
    generated client and the way of a call from it to the log; the HTTP clients and TLS.
  \<^item> \<open>Membership\<close>, \<open>Replicator\<close>, \<open>Replication\<close>: the event handler on the interface
    \<open>membership_handler\<close>, which the node and the replicator interpret; the channels of the replicator
    as a state machine; and its goroutines with the bounded channel between them. On a leader the
    configuration of \<open>raft\<close> follows every sequence of events (\<open>follow\<close>).
  \<^item> \<open>Ports\<close>, \<open>Agent\<close>, \<open>Lifecycle\<close>, \<open>Telemetry\<close>, \<open>Command\<close>: the port search and addresses, the agent,
    whose set-up methods call those of the node, the service and discovery on the parts that they fill,
    its start and stop with the goroutines it leaves behind on the interface \<open>agent_parts\<close>, which the
    agent interprets, telemetry, and the command with its deferred clean-up.

  \<^bold>\<open>Bounds.\<close> No model has fuel. The loops that are not structural have a termination measure
  (\<open>port_loop\<close>, \<open>level_loop\<close>, \<open>copy_file\<close>, \<open>restore_loop\<close>); the runs of a worker of the replicator
  are bounded by \<open>work_left\<close>. The theorems on the log assume \<open>config_ok\<close>: the limits are
  positive and the index has room for an entry. When the limit of the index is not a multiple of the
  entry width, they also assume \<open>payload_ok\<close>: the records are long enough that the store is full before
  the index is. With the default limits of 1024 bytes, which the agent uses (\<open>zero_config\<close>), this
  means records of at least five bytes. The theory \<open>CommitLog\<close> shows what happens otherwise: the log takes no more
  records. Offsets stay below \<open>2 ^ 64\<close>, entries of the store
  below the range of \<open>int64\<close>. The stream of a worker of the replicator is the finite list of the records
  that it delivers until it ends.

  \<^bold>\<open>Not modelled.\<close>
  \<^item> The packages \<open>raft\<close>, \<open>serf\<close>, \<open>pebble\<close>, \<open>connect\<close>, \<open>casbin\<close>, \<open>cmux\<close>, \<open>cli\<close>, OpenTelemetry, \<open>http2\<close> and
    \<open>crypto/tls\<close> are not part of the repository; they are parameters.
  \<^item> The accessors, descriptors and the wire format in \<open>gen/log/v1/log.pb.go\<close> are calls of the protobuf
    package; the codec of the messages is a parameter.
  \<^item> Locks that are held for a whole method have no definition: such a method is one step.
  \<^item> Requests and applied entries as steps of the life cycle of the agent: the service and the state
    machine are modelled on their own.
  \<^item> Time, and the text of log lines, except where a line is chosen by a condition.
  \<^item> \<open>tools/tools.go\<close> has only imports.
\<close>

section \<open>A new node\<close>

text \<open>
  C9: a new node has two logs that do not disturb each other. On a disk without the two
  directories, and with the packages up and nothing of the node in them, \<open>NewLog\<close> of
  \<open>internal/log/distributed\<close> sets the node up: its own log is empty and begins at the configured offset, the log of \<open>raft\<close> begins at 1 and is
  empty or, on a node that bootstraps, holds the entry that \<open>BootstrapCluster\<close> stored. From then on
  every sequence of appends, reads, offset queries and restarts of the node's log gets the replies
  of the specification, and the log of \<open>raft\<close> on the same disk is still what it was.
\<close>

theorem new_node:
  assumes "raft_up cdc entry dataDir blank pkgs" and "blank x" and "config_ok (default_config (cf_Segment c))" and "healthy w"
    and "os_dirs w (filepath_Join [dataDir, ''log'']) = None" and "os_dirs w (filepath_Join [dataDir, ''raft'', ''log'']) = None"
    and "lr_Bootstrap (cf_Raft c) \<longrightarrow> ls_storable cdc (raft_log_config c) 1 [] [entry]"
    and "codec_ok cdc" and "b = InitialOffset (cf_Segment c)"
    and "admissible (cmd_ok cdc (default_config (cf_Segment c)) b) (spec_cmd b) cmds []"
  shows "\<exists>l ldb rf x' w' l'' w'' rs. dist_NewLog pkgs dataDir c (x, w) = (Inr (l, ldb, rf), (x', w')) \<and>
    run_cmds (exec_cmd cdc) cmds (l, w') = (fst (run_cmds (spec_cmd b) cmds []), (l'', w'')) \<and>
    log_rep cdc (filepath_Join [dataDir, ''raft'', ''log'']) (raft_log_config c) 1 rs (ldb, w'') \<and>
    boot_log (lr_Bootstrap (cf_Raft c)) entry rs"
proof -
  let ?d = "filepath_Join [dataDir, ''log'']" and ?e = "filepath_Join [dataDir, ''raft'', ''log'']"
  let ?c = "default_config (cf_Segment c)"
  obtain l ldb rf x' w' rs where new: "dist_NewLog pkgs dataDir c (x, w) = (Inr (l, ldb, rf), (x', w'))"
      "log_within cdc ?d ?c b [] (l, w')" "log_rep cdc ?e (raft_log_config c) 1 rs (ldb, w')" "boot_log (lr_Bootstrap (cf_Raft c)) entry rs"
    using dist_NewLog_new [OF assms(1-7)] assms(9) by blast
  have rep: "log_rep cdc ?d ?c b [] (l, w')"
    using new(2) by (simp add: log_within_def)
  obtain l'' w'' where run: "run_cmds (exec_cmd cdc) cmds (l, w') = (fst (run_cmds (spec_cmd b) cmds []), (l'', w''))"
      "\<exists>rs. log_rep cdc ?d ?c b rs (l'', w'')"
    using log_spec.run_refines [OF rep admissible_conj [OF assms(8,10)]] by (metis prod.collapse)
  from run_cmds_dir [OF node_dirs_apart log_within_in [OF new(2)], of cdc cmds] have "os_dirs w'' ?e = os_dirs w' ?e"
    by (simp add: run(1))
  then have "log_rep cdc ?e (raft_log_config c) 1 rs (ldb, w'')"
    using run(2) log_rep_healthy by (blast intro: log_rep_other_disk [OF new(3)])
  with new(1,4) run(1) show ?thesis by blast
qed

theorem new_node_witness:
  "\<exists>l ldb rf x' w' s rs. dist_NewLog demo_node ''data'' (agent_log_config demo_agent_config) (0, demo_disk) = (Inr (l, ldb, rf), (x', w')) \<and>
    run_cmds (exec_cmd demo_codec) [CAppend (demo_record 1), CRead 0] (l, w') =
      ([ROffset 0, RRecord (demo_record 1\<lparr>r_offset := 0\<rparr>)], s) \<and>
    log_rep demo_codec ''data/raft/log'' (default_config (zero_config\<lparr>InitialOffset := 1\<rparr>)) 1 rs (ldb, snd s) \<and> boot_log True boot_entry rs"
proof -
  let ?c = "agent_log_config demo_agent_config"
  have c: "cf_Segment ?c = zero_config" "lr_Bootstrap (cf_Raft ?c)" "raft_log_config ?c = default_config (zero_config\<lparr>InitialOffset := 1\<rparr>)"
    by (simp_all add: agent_log_config_def demo_agent_config_def raft_log_config_def)
  have ok: "admissible (cmd_ok demo_codec (default_config zero_config) 0) (spec_cmd 0) [CAppend (demo_record 1), CRead 0] []"
    using demo_marshals_zero by simp
  have replies: "fst (run_cmds (spec_cmd 0) [CAppend (demo_record 1), CRead 0] []) = [ROffset 0, RRecord (demo_record 1\<lparr>r_offset := 0\<rparr>)]"
    by simp
  note new_node [OF demo_node_up TrueI _ demo_disk_ok(1) demo_dirs_new _ demo_codec_ok, of ?c 0 "[CAppend (demo_record 1), CRead 0]" 0,
      unfolded c data_dirs replies, OF zero_config_ok(1) impI [OF boot_entry_storable] zero_config_ok(2) [symmetric] ok]
  then show ?thesis
    using c(2) by (metis snd_conv)
qed

section \<open>A new agent\<close>

text \<open>
  C6: a new agent serves its clients. On a disk that is not in use and with the packages up, \<open>New\<close>
  returns an agent whose port serves \<open>raft\<close> and the API, in this order, and which takes part in the
  membership. When it serves under TLS, a client with a certificate whose name the policy allows
  both procedures can produce a record through the handler of the server, which gets the offset 0 in
  the log of the agent, and consume that offset; what it gets is this record. The limits of the
  segments are the defaults, as in the agent.
\<close>

theorem agent_serves:
  assumes "agent_up blank ap c" and "raft_up (ap_codec ap) entry (ac_DataDir c) blank pkgs" and "blank x" and "healthy w"
    and "os_dirs w (filepath_Join [ac_DataDir c, ''log'']) = None" and "os_dirs w (filepath_Join [ac_DataDir c, ''raft'', ''log'']) = None"
    and "ac_Bootstrap c \<longrightarrow> ls_storable (ap_codec ap) (raft_log_config (agent_log_config c)) 1 [] [entry]"
    and "raft_commits (ap_req ap) (ap_codec ap) (ap_raft ap)" and "connect_ok (ap_connect ap)"
    and "rep = dist_rep (ap_req ap) (ap_codec ap) (ap_raft ap) (filepath_Join [ac_DataDir c, ''log'']) (default_config zero_config) 0"
    and "\<forall>p code rs s. rep rs s \<longrightarrow> rep rs (ap_emit ap p code s)"
    and "ac_ServerTLSConfig c" and "ap_NewEnforcer ap (ac_ACLModelFile c) (ac_ACLPolicyFile c) = Inr enf"
    and "enf name ''*'' LogAPIProduceProcedure = Inr True" and "enf name ''*'' LogAPIConsumeProcedure = Inr True"
    and "client_ok cc" and "host_ok ''https'' host" and "dist_fits (ap_req ap) (ap_codec ap) (default_config zero_config) 0 [] r"
  shows "\<exists>p x' w' ln l ldb rf serve m t u. agent_New ap pkgs c (x, w) = (Inr (), (p, x', w')) \<and>
    p = \<lparr>pt_mux = Some (ln, [raft_matcher, any_matcher]), pt_log = Some (l, ldb, rf), pt_server = Some (serve, True), pt_membership = Some m\<rparr> \<and>
    mb_handling m \<and>
    (let cl = NewLogAPIClient cc (http_wire serve (Some [[name]])) (base_url ''https'' host 0) opts in
     client_Produce cc cl \<lparr>rq_record = Some r, rq_offset = 0\<rparr> (rf, l, w') = (Inr \<lparr>rs_offset = 0, rs_record = None\<rparr>, t) \<and>
     client_Consume cc cl \<lparr>rq_record = None, rq_offset = 0\<rparr> t = (Inr \<lparr>rs_offset = 0, rs_record = Some (r\<lparr>r_offset := 0\<rparr>)\<rparr>, u))"
proof -
  obtain p x' w' ln l ldb rf serve m where new: "agent_New ap pkgs c (x, w) = (Inr (), (p, x', w'))"
      "p = agent_fields c ln (l, ldb, rf) serve (Some m)" "agent_server ap c = Inr serve"
      "log_within (ap_codec ap) (filepath_Join [ac_DataDir c, ''log'']) (default_config zero_config) 0 [] (l, w')" "mb_handling m"
    using agent_New_up [OF assms(1-7)] by blast
  define cl where "cl = NewLogAPIClient cc (http_wire serve (Some [[name]])) (base_url ''https'' host 0) opts"
  note stack = assms(9,16,13) new(3) [unfolded agent_server_def agent_service_def] assms(17) cl_def
  have rep: "rep [] (rf, l, w')"
    using new(4) assms(8) by (simp add: assms(10) dist_rep_def log_within_def)
  obtain t where t: "client_Produce cc cl \<lparr>rq_record = Some r, rq_offset = 0\<rparr> (rf, l, w') = (Inr \<lparr>rs_offset = 0, rs_record = None\<rparr>, t)"
      "rep [seg_item 0 [] r] t"
    using http_produce [where NewEnforcer = "ap_NewEnforcer ap", OF stack assms(14) rep [unfolded assms(10)] assms(18) assms(11) [unfolded assms(10)]] by (auto simp: assms(10))
  have "client_Consume cc cl \<lparr>rq_record = None, rq_offset = 0\<rparr> t = (Inr \<lparr>rs_offset = 0, rs_record = Some (r\<lparr>r_offset := 0\<rparr>)\<rparr>, u)"
    if "client_Consume cc cl \<lparr>rq_record = None, rq_offset = 0 + of_nat 0\<rparr> t = (Inr \<lparr>rs_offset = 0, rs_record = Some ([seg_item 0 [] r] ! 0)\<rparr>, u)" for u
    using that by simp
  then obtain u where u: "client_Consume cc cl \<lparr>rq_record = None, rq_offset = 0\<rparr> t = (Inr \<lparr>rs_offset = 0, rs_record = Some (r\<lparr>r_offset := 0\<rparr>)\<rparr>, u)"
    using http_consume [where NewEnforcer = "ap_NewEnforcer ap", OF stack assms(15) t(2) [unfolded assms(10)] _ assms(11) [unfolded assms(10)], of 0] by blast
  have "p = \<lparr>pt_mux = Some (ln, [raft_matcher, any_matcher]), pt_log = Some (l, ldb, rf), pt_server = Some (serve, True), pt_membership = Some m\<rparr>"
    using new(2) assms(12) by simp
  with new(1,5) t(1) u show ?thesis
    unfolding cl_def Let_def by blast
qed

theorem agent_serves_witness:
  "\<exists>p x' w' l ldb rf serve t u. agent_New demo_agent demo_node demo_agent_config (0, demo_disk) = (Inr (), (p, x', w')) \<and>
    pt_log p = Some (l, ldb, rf) \<and> pt_server p = Some (serve, True) \<and>
    (let cl = NewLogAPIClient url_client (http_wire serve (Some [[''root'']])) (base_url ''https'' ''node:8400'' 0) [] in
     client_Produce url_client cl \<lparr>rq_record = Some (demo_record 9), rq_offset = 0\<rparr> (rf, l, w') = (Inr \<lparr>rs_offset = 0, rs_record = None\<rparr>, t) \<and>
     client_Consume url_client cl \<lparr>rq_record = None, rq_offset = 0\<rparr> t =
       (Inr \<lparr>rs_offset = 0, rs_record = Some (demo_record 9\<lparr>r_offset := 0\<rparr>)\<rparr>, u))"
proof -
  have pk: "ap_codec demo_agent = demo_codec" "ap_req demo_agent = demo_req" "ap_raft demo_agent = demo_raft"
      "ap_connect demo_agent = plain_connect" "\<forall>p code s. ap_emit demo_agent p code s = s" "ac_ServerTLSConfig demo_agent_config"
      "ap_NewEnforcer demo_agent (ac_ACLModelFile demo_agent_config) (ac_ACLPolicyFile demo_agent_config) = Inr acl_policy"
    by (simp_all add: demo_agent_def demo_agent_config_def)
  have pol: "acl_policy ''root'' ''*'' LogAPIProduceProcedure = Inr True" "acl_policy ''root'' ''*'' LogAPIConsumeProcedure = Inr True"
    by (simp_all add: acl_policy_def)
  have host: "host_ok ''https'' ''node:8400''"
    by (simp add: host_ok_def)
  have fits: "dist_fits demo_req demo_codec (default_config zero_config) 0 [] (demo_record 9)"
    by (rule demo_dist_fits_zero) simp
  have emit: "\<forall>p code rs s. rep rs s \<longrightarrow> rep rs (ap_emit demo_agent p code s)" for rep :: "log_record list \<Rightarrow> server list \<times> log \<times> os \<Rightarrow> bool"
    using pk(5) by simp
  obtain p x' w' ln l ldb rf serve m t u where "agent_New demo_agent demo_node demo_agent_config (0, demo_disk) = (Inr (), (p, x', w'))"
      "p = \<lparr>pt_mux = Some (ln, [raft_matcher, any_matcher]), pt_log = Some (l, ldb, rf), pt_server = Some (serve, True), pt_membership = Some m\<rparr>"
      "let cl = NewLogAPIClient url_client (http_wire serve (Some [[''root'']])) (base_url ''https'' ''node:8400'' 0) [] in
       client_Produce url_client cl \<lparr>rq_record = Some (demo_record 9), rq_offset = 0\<rparr> (rf, l, w') = (Inr \<lparr>rs_offset = 0, rs_record = None\<rparr>, t) \<and>
       client_Consume url_client cl \<lparr>rq_record = None, rq_offset = 0\<rparr> t = (Inr \<lparr>rs_offset = 0, rs_record = Some (demo_record 9\<lparr>r_offset := 0\<rparr>)\<rparr>, u)"
    using agent_serves [of "\<lambda>_. True" demo_agent demo_agent_config boot_entry demo_node 0 demo_disk _ acl_policy "''root''" url_client "''node:8400''" "demo_record 9" "[]",
      OF demo_agent_up, unfolded pk, OF demo_agent_new(1) TrueI demo_disk_ok(1) demo_agent_new(2-4)
      demo_raft_commits plain_connect_ok refl emit pk(6) refl pol url_client_ok host fits] by blast
  then show ?thesis
    by (intro exI [of _ p] exI [of _ x'] exI [of _ w'] exI [of _ l] exI [of _ ldb] exI [of _ rf] exI [of _ serve] exI [of _ t] exI [of _ u]) simp
qed

end
